(* ===== verification/Mundis_Prelude.thy ===== *)
theory Mundis_Prelude
  imports Main "HOL-Library.Word"
begin

text \<open>
  Shared vocabulary of the development: the machine integer types of the Rust code, its
  \<open>Result\<close> type with an explicit outcome for a panic, the checked and saturating integer
  operations of the standard library, little-endian byte strings, and the collections of rules
  that drive the component proofs (\<open>ok_simps\<close> inverts successful runs).
\<close>

section \<open>Machine integers\<close>

type_synonym u8 = "8 word"
type_synonym u32 = "32 word"
type_synonym u64 = "64 word"
type_synonym u128 = "128 word"

section \<open>Results\<close>

text \<open>
  \<open>Ok\<close> and \<open>Err\<close> are Rust's constructors. \<open>Panic\<close> is the outcome of a run that does not return
  to its caller: an index out of range, a failed \<open>assert!\<close>, an allocation that cannot be served.
\<close>

datatype ('e, 'a) result = Ok 'a | Err 'e | Panic

primrec and_then :: "('e, 'a) result \<Rightarrow> ('a \<Rightarrow> ('e, 'b) result) \<Rightarrow> ('e, 'b) result" where
  "and_then (Ok x) f = f x"
| "and_then (Err e) f = Err e"
| "and_then Panic f = Panic"

primrec map_err :: "('e \<Rightarrow> 'f) \<Rightarrow> ('e, 'a) result \<Rightarrow> ('f, 'a) result" where
  "map_err g (Ok x) = Ok x"
| "map_err g (Err e) = Err (g e)"
| "map_err g Panic = Panic"

primrec ok_or :: "'e \<Rightarrow> 'a option \<Rightarrow> ('e, 'a) result" where
  "ok_or e (Some x) = Ok x"
| "ok_or e None = Err e"

primrec is_ok :: "('e, 'a) result \<Rightarrow> bool" where
  "is_ok (Ok x) = True"
| "is_ok (Err e) = False"
| "is_ok Panic = False"

named_theorems ok_simps \<open>inversion of a successful run\<close>
named_theorems store_simps \<open>reads of an account store after writes\<close>

lemma and_then_Ok_iff [ok_simps]:
  "and_then r f = Ok y \<longleftrightarrow> (\<exists>x. r = Ok x \<and> f x = Ok y)"
  by (cases r) auto

lemma map_err_Ok_iff [ok_simps]: "map_err g r = Ok y \<longleftrightarrow> r = Ok y"
  by (cases r) auto

lemma ok_or_Ok_iff [ok_simps]: "ok_or e x = Ok y \<longleftrightarrow> x = Some y"
  by (cases x) auto

lemma guard_Ok_iff [ok_simps]: "(if c then Err e else r) = Ok y \<longleftrightarrow> \<not> c \<and> r = Ok y"
  by simp

lemma guard_Panic_Ok_iff [ok_simps]: "(if c then Panic else r) = Ok y \<longleftrightarrow> \<not> c \<and> r = Ok y"
  by simp

lemma guard_not_Ok_iff [ok_simps]: "(if c then r else Err e) = Ok y \<longleftrightarrow> c \<and> r = Ok y"
  by simp

text \<open>The same as elimination rules, to take a long run apart step by step.\<close>

lemma and_then_OkE:
  "and_then r f = Ok y \<Longrightarrow> (\<And>x. r = Ok x \<Longrightarrow> f x = Ok y \<Longrightarrow> P) \<Longrightarrow> P"
  by (cases r) auto

lemma and_then_pair_OkE:
  "and_then r (\<lambda>(a, b). f a b) = Ok y \<Longrightarrow> (\<And>a b. r = Ok (a, b) \<Longrightarrow> f a b = Ok y \<Longrightarrow> P) \<Longrightarrow> P"
  by (cases r) auto

lemma guard_OkE: "(if c then Err e else r) = Ok y \<Longrightarrow> (\<not> c \<Longrightarrow> r = Ok y \<Longrightarrow> P) \<Longrightarrow> P"
  by (cases c) auto

lemmas ok_elims = and_then_pair_OkE and_then_OkE guard_OkE

lemma is_ok_iff: "is_ok r \<longleftrightarrow> (\<exists>x. r = Ok x)"
  by (cases r) auto

lemma and_then_assoc: "and_then (and_then r f) g = and_then r (\<lambda>x. and_then (f x) g)"
  by (cases r) auto

lemma and_then_Panic_iff:
  "and_then r f = Panic \<longleftrightarrow> r = Panic \<or> (\<exists>x. r = Ok x \<and> f x = Panic)"
  by (cases r) auto

section \<open>Checked and saturating arithmetic\<close>

definition checked_add :: "'a::len word \<Rightarrow> 'a word \<Rightarrow> 'a word option" where
  "checked_add a b = (if unat a + unat b < 2 ^ LENGTH('a) then Some (a + b) else None)"

definition checked_sub :: "'a::len word \<Rightarrow> 'a word \<Rightarrow> 'a word option" where
  "checked_sub a b = (if b \<le> a then Some (a - b) else None)"

definition saturating_add :: "'a::len word \<Rightarrow> 'a word \<Rightarrow> 'a word" where
  "saturating_add a b = (case checked_add a b of Some c \<Rightarrow> c | None \<Rightarrow> - 1)"

definition saturating_sub :: "'a::len word \<Rightarrow> 'a word \<Rightarrow> 'a word" where
  "saturating_sub a b = (case checked_sub a b of Some c \<Rightarrow> c | None \<Rightarrow> 0)"

lemma checked_add_eq_Some [ok_simps]:
  "checked_add a b = Some c \<longleftrightarrow> unat c = unat a + unat b"
proof (cases "unat a + unat b < 2 ^ LENGTH('a)")
  case True
  then have "unat (a + b) = unat a + unat b"
    by (simp add: unat_word_ariths)
  with True show ?thesis
    by (auto simp: checked_add_def word_unat_eq_iff)
next
  case False
  have "unat c < 2 ^ LENGTH('a)"
    by (rule unsigned_less)
  with False have "unat c \<noteq> unat a + unat b"
    by linarith
  with False show ?thesis
    by (simp add: checked_add_def)
qed

lemma checked_sub_eq_Some [ok_simps]:
  "checked_sub a b = Some c \<longleftrightarrow> unat a = unat b + unat c"
proof (cases "b \<le> a")
  case True
  then have le: "unat b \<le> unat a"
    by (simp add: word_le_nat_alt)
  moreover from True have "unat (a - b) = unat a - unat b"
    by (rule unat_sub)
  ultimately show ?thesis
    using True by (auto simp: checked_sub_def word_unat_eq_iff)
next
  case False
  then show ?thesis
    by (auto simp: checked_sub_def word_le_nat_alt)
qed

lemma checked_add_eq_None:
  "checked_add (a :: 'a::len word) b = None \<longleftrightarrow> 2 ^ LENGTH('a) \<le> unat a + unat b"
  by (auto simp: checked_add_def)

lemma checked_sub_eq_None: "checked_sub a b = None \<longleftrightarrow> unat a < unat b"
  by (auto simp: checked_sub_def word_le_nat_alt)

lemma unat_saturating_add:
  "unat (saturating_add (a :: 'a::len word) b) = min (unat a + unat b) (2 ^ LENGTH('a) - 1)"
proof (cases "checked_add a b")
  case None
  then have "2 ^ LENGTH('a) \<le> unat a + unat b"
    by (simp add: checked_add_eq_None)
  moreover have "unat (- 1 :: 'a word) = 2 ^ LENGTH('a) - 1"
    by (simp add: unsigned_minus_1_eq_mask mask_eq_exp_minus_1)
  ultimately show ?thesis
    by (simp add: saturating_add_def None)
next
  case (Some c)
  then have "unat c = unat a + unat b"
    by (simp add: checked_add_eq_Some)
  moreover have "unat c < 2 ^ LENGTH('a)"
    by (rule unsigned_less)
  ultimately show ?thesis
    by (simp add: saturating_add_def Some)
qed

lemma unat_saturating_sub: "unat (saturating_sub a b) = unat a - unat b"
proof (cases "checked_sub a b")
  case None
  then show ?thesis
    using checked_sub_eq_None [of a b] by (simp add: saturating_sub_def)
next
  case (Some c)
  then show ?thesis
    using checked_sub_eq_Some [of a b c] by (simp add: saturating_sub_def)
qed

section \<open>Byte strings\<close>

text \<open>
  \<open>le_bytes n x\<close> is the \<open>n\<close>-byte little-endian encoding of a number and \<open>le_value\<close> reads one back:
  \<open>to_le_bytes\<close> and \<open>from_le_bytes\<close> of the standard library.
\<close>

fun le_bytes :: "nat \<Rightarrow> nat \<Rightarrow> u8 list" where
  "le_bytes 0 x = []"
| "le_bytes (Suc n) x = of_nat (x mod 256) # le_bytes n (x div 256)"

fun le_value :: "u8 list \<Rightarrow> nat" where
  "le_value [] = 0"
| "le_value (b # bs) = unat b + 256 * le_value bs"

lemma length_le_bytes [simp]: "length (le_bytes n x) = n"
  by (induction n arbitrary: x) auto

lemma unat_u8_lt: "unat (b :: u8) < 256"
  using unsigned_less [of b] by simp

lemma le_value_le_bytes: "x < 256 ^ n \<Longrightarrow> le_value (le_bytes n x) = x"
proof (induction n arbitrary: x)
  case 0
  then show ?case by simp
next
  case (Suc n)
  from Suc.prems have "x div 256 < 256 ^ n"
    by (simp add: less_mult_imp_div_less mult.commute)
  then have "le_value (le_bytes n (x div 256)) = x div 256"
    by (rule Suc.IH)
  then show ?case
    by (simp add: unat_of_nat)
qed

lemma le_value_less: "le_value bs < 256 ^ length bs"
proof (induction bs)
  case (Cons b bs)
  then show ?case
    using unat_u8_lt [of b] by simp
qed simp

lemma le_bytes_le_value: "le_bytes (length bs) (le_value bs) = bs"
proof (induction bs)
  case (Cons b bs)
  have "(unat b + 256 * le_value bs) mod 256 = unat b"
       "(unat b + 256 * le_value bs) div 256 = le_value bs"
    using unat_u8_lt [of b] by simp_all
  then show ?case
    using Cons.IH by simp
qed simp

definition to_le_bytes :: "u64 \<Rightarrow> u8 list" where
  "to_le_bytes w = le_bytes 8 (unat w)"

definition from_le_bytes :: "u8 list \<Rightarrow> u64" where
  "from_le_bytes bs = of_nat (le_value bs)"

lemma length_to_le_bytes [simp]: "length (to_le_bytes w) = 8"
  by (simp add: to_le_bytes_def)

lemma from_to_le_bytes [simp]: "from_le_bytes (to_le_bytes w) = w"
proof -
  have "unat w < 256 ^ 8"
    using unsigned_less [of w] by simp
  then show ?thesis
    by (simp add: to_le_bytes_def from_le_bytes_def le_value_le_bytes)
qed

lemma to_from_le_bytes: "length bs = 8 \<Longrightarrow> to_le_bytes (from_le_bytes bs) = bs"
proof -
  assume len: "length bs = 8"
  then have "le_value bs < 2 ^ 64"
    using le_value_less [of bs] by simp
  then have "unat (of_nat (le_value bs) :: u64) = le_value bs"
    by (simp add: unat_of_nat)
  then show ?thesis
    using le_bytes_le_value [of bs] len by (simp add: to_le_bytes_def from_le_bytes_def)
qed

text \<open>The part of a byte array that starts at an offset and has a given length.\<close>

definition slice_at :: "nat \<Rightarrow> nat \<Rightarrow> 'a list \<Rightarrow> 'a list" where
  "slice_at off n xs = take n (drop off xs)"

lemma length_slice_at [simp]: "off + n \<le> length xs \<Longrightarrow> length (slice_at off n xs) = n"
  by (simp add: slice_at_def)

lemma slice_at_skip [simp]:
  "length xs \<le> off \<Longrightarrow> slice_at off n (xs @ ys) = slice_at (off - length xs) n ys"
  by (simp add: slice_at_def)

lemma slice_at_head [simp]: "n = length xs \<Longrightarrow> slice_at 0 n (xs @ ys) = xs"
  by (simp add: slice_at_def)

lemma slice_at_all [simp]: "n = length xs \<Longrightarrow> slice_at 0 n xs = xs"
  by (simp add: slice_at_def)

lemma slice_at_Cons [simp]: "0 < off \<Longrightarrow> slice_at off n (x # xs) = slice_at (off - 1) n xs"
  by (simp add: slice_at_def drop_Cons')

lemma slice_at_first [simp]: "slice_at 0 (Suc 0) (x # xs) = [x]"
  by (simp add: slice_at_def)

lemma slice_at_concat:
  assumes "\<forall>x \<in> set xs. length x = w" and "i < length xs"
  shows "slice_at (w * i) w (concat xs) = xs ! i"
  using assms
proof (induction xs arbitrary: i)
  case (Cons x xs)
  then show ?case
    by (cases i) (simp_all add: slice_at_def)
qed simp

section \<open>Sums over an updated function\<close>

lemma sum_fun_upd:
  fixes f :: "'k \<Rightarrow> 'm::comm_monoid_add"
  assumes "finite K" and "k \<in> K"
  shows "sum (f(k := v)) K + f k = sum f K + v"
proof -
  have "sum (f(k := v)) K = v + sum f (K - {k})"
  proof -
    have "sum (f(k := v)) (K - {k}) = sum f (K - {k})"
      by (rule sum.cong) auto
    then show ?thesis
      using sum.remove [OF assms, of "f(k := v)"] by simp
  qed
  moreover have "sum f K = f k + sum f (K - {k})"
    using assms by (rule sum.remove)
  ultimately show ?thesis
    by (simp add: ac_simps)
qed

end
