(* ===== verification/Sdk_Account.thy ===== *)
theory Sdk_Account
  imports Mundis_Prelude
begin

text \<open>
  Accounts, keys and instruction errors of the SDK (\<open>sdk/src/account.rs\<close>,
  \<open>sdk/src/keyed_account.rs\<close>, \<open>sdk/src/account_utils.rs\<close>, \<open>sdk/program/src/instruction.rs\<close>,
  \<open>sdk/program/src/lamports.rs\<close>, \<open>sdk/program/src/usafe_memory_utils.rs\<close>).

  A transaction loads every account once and hands programs \<open>KeyedAccount\<close>s, references to shared
  cells. The cells are a store, a function from keys to accounts, so that two keyed accounts with
  the same key read and write the same cell. A program runs on one store and returns the next one;
  a failed run returns only its error, since the runtime discards what a failed transaction wrote.
\<close>

section \<open>Keys\<close>

text \<open>A \<open>Pubkey\<close> is an array of 32 bytes, here the 256-bit number whose big-endian bytes it is, so
  that the numeric order is the derived lexicographic order of the array.\<close>

type_synonym pubkey = "256 word"

definition to_bytes :: "pubkey \<Rightarrow> u8 list" where
  "to_bytes k = rev (le_bytes 32 (unat k))"

definition new_from_array :: "u8 list \<Rightarrow> pubkey" where
  "new_from_array bs = of_nat (le_value (rev bs))"

lemma length_to_bytes [simp]: "length (to_bytes k) = 32"
  by (simp add: to_bytes_def)

lemma new_from_array_to_bytes [simp]: "new_from_array (to_bytes k) = k"
proof -
  have "unat k < 256 ^ 32"
    using unsigned_less [of k] by simp
  then show ?thesis
    by (simp add: to_bytes_def new_from_array_def le_value_le_bytes)
qed

lemma to_bytes_inject [simp]: "to_bytes a = to_bytes b \<longleftrightarrow> a = b"
  using new_from_array_to_bytes by metis

lemma to_bytes_new_from_array: "length bs = 32 \<Longrightarrow> to_bytes (new_from_array bs) = bs"
proof -
  assume len: "length bs = 32"
  then have "le_value (rev bs) < 2 ^ 256"
    using le_value_less [of "rev bs"] by simp
  then have "unat (of_nat (le_value (rev bs)) :: pubkey) = le_value (rev bs)"
    by (simp add: unat_of_nat)
  then show ?thesis
    using le_bytes_le_value [of "rev bs"] len by (simp add: to_bytes_def new_from_array_def)
qed

text \<open>The identifiers are base-58 constants of the source, written here as the numbers they denote.\<close>

definition system_program_id :: pubkey where
  "system_program_id = 0"

definition token_program_id :: pubkey where
  "token_program_id =
     3106054203383105350279234931619000895396953254869185886002404568781599801344"

section \<open>Instruction errors\<close>

datatype instruction_error =
    GenericError | InvalidArgument | InvalidInstructionData | InvalidAccountData
  | AccountDataTooSmall | InsufficientFunds | IncorrectProgramId | MissingRequiredSignature
  | AccountAlreadyInitialized | UninitializedAccount | UnbalancedInstruction | ModifiedProgramId
  | ExternalAccountLamportSpend | ExternalAccountDataModified | ReadonlyLamportChange
  | ReadonlyDataModified | DuplicateAccountIndex | ExecutableModified | RentEpochModified
  | NotEnoughAccountKeys | AccountDataSizeChanged | AccountNotExecutable | AccountBorrowFailed
  | AccountBorrowOutstanding | DuplicateAccountOutOfSync | Custom u32 | InvalidError
  | ExecutableDataModified | ExecutableLamportChange | ExecutableAccountNotRentExempt
  | UnsupportedProgramId | CallDepth | MissingAccount | ReentrancyNotAllowed
  | MaxSeedLengthExceeded | InvalidSeeds | InvalidRealloc | ComputationalBudgetExceeded
  | PrivilegeEscalation | ProgramEnvironmentSetupFailure | ProgramFailedToComplete
  | ProgramFailedToCompile | Immutable | IncorrectAuthority | BorshIoError string
  | AccountNotRentExempt | InvalidAccountOwner | ArithmeticOverflow | UnsupportedSysvar
  | IllegalOwner | MaxAccountsDataSizeExceeded | ActiveVoteAccountClose

type_synonym 'a ix_result = "(instruction_error, 'a) result"

datatype lamports_error = LamportsUnderflow | LamportsOverflow

fun lamports_error_into :: "lamports_error \<Rightarrow> instruction_error" where
  "lamports_error_into LamportsOverflow = ArithmeticOverflow"
| "lamports_error_into LamportsUnderflow = ArithmeticOverflow"

section \<open>Accounts\<close>

record account =
  lamports :: u64
  data :: "u8 list"
  owner :: pubkey
  executable :: bool
  rent_epoch :: u64

definition accounts_equal :: "account \<Rightarrow> account \<Rightarrow> bool" where
  "accounts_equal me other \<longleftrightarrow>
     lamports me = lamports other \<and> data me = data other \<and> owner me = owner other
     \<and> executable me = executable other \<and> rent_epoch me = rent_epoch other"

lemma accounts_equal_iff: "accounts_equal a b \<longleftrightarrow> a = b"
  by (auto simp: accounts_equal_def)

definition set_lamports :: "u64 \<Rightarrow> account \<Rightarrow> account" where
  "set_lamports l a = a\<lparr>lamports := l\<rparr>"

definition checked_add_lamports :: "u64 \<Rightarrow> account \<Rightarrow> (lamports_error, account) result" where
  "checked_add_lamports l a =
     and_then (ok_or LamportsOverflow (checked_add (lamports a) l)) (\<lambda>n. Ok (set_lamports n a))"

definition checked_sub_lamports :: "u64 \<Rightarrow> account \<Rightarrow> (lamports_error, account) result" where
  "checked_sub_lamports l a =
     and_then (ok_or LamportsUnderflow (checked_sub (lamports a) l)) (\<lambda>n. Ok (set_lamports n a))"

definition shared_new :: "u64 \<Rightarrow> nat \<Rightarrow> pubkey \<Rightarrow> account" where
  "shared_new l space o' =
     \<lparr>lamports = l, data = replicate space 0, owner = o', executable = False, rent_epoch = 0\<rparr>"

section \<open>The store and keyed accounts\<close>

type_synonym store = "pubkey \<Rightarrow> account"

record keyed_account =
  is_signer :: bool
  is_writable :: bool
  unsigned_key :: pubkey

definition signer_key :: "keyed_account \<Rightarrow> pubkey option" where
  "signer_key ka = (if is_signer ka then Some (unsigned_key ka) else None)"

abbreviation cell :: "store \<Rightarrow> keyed_account \<Rightarrow> account" where
  "cell s ka \<equiv> s (unsigned_key ka)"

definition ka_lamports :: "store \<Rightarrow> keyed_account \<Rightarrow> u64" where
  "ka_lamports s ka = lamports (cell s ka)"

definition ka_data_len :: "store \<Rightarrow> keyed_account \<Rightarrow> nat" where
  "ka_data_len s ka = length (data (cell s ka))"

definition ka_owner :: "store \<Rightarrow> keyed_account \<Rightarrow> pubkey" where
  "ka_owner s ka = owner (cell s ka)"

definition update_cell :: "store \<Rightarrow> keyed_account \<Rightarrow> (account \<Rightarrow> account) \<Rightarrow> store" where
  "update_cell s ka f = s(unsigned_key ka := f (cell s ka))"

definition ka_set_lamports :: "store \<Rightarrow> keyed_account \<Rightarrow> u64 \<Rightarrow> store" where
  "ka_set_lamports s ka l = update_cell s ka (set_lamports l)"

definition ka_set_data :: "store \<Rightarrow> keyed_account \<Rightarrow> u8 list \<Rightarrow> store" where
  "ka_set_data s ka d = update_cell s ka (data_update (\<lambda>_. d))"

definition next_keyed_account :: "keyed_account list \<Rightarrow> (keyed_account \<times> keyed_account list) ix_result" where
  "next_keyed_account it = (case it of [] \<Rightarrow> Err NotEnoughAccountKeys | ka # rest \<Rightarrow> Ok (ka, rest))"

definition keyed_account_at_index :: "keyed_account list \<Rightarrow> nat \<Rightarrow> keyed_account ix_result" where
  "keyed_account_at_index kas i =
     (if i < length kas then Ok (kas ! i) else Err NotEnoughAccountKeys)"

definition get_signers :: "keyed_account list \<Rightarrow> pubkey set" where
  "get_signers kas = set (List.map_filter signer_key kas)"

lemma next_keyed_account_Ok [ok_simps]:
  "next_keyed_account it = Ok (ka, rest) \<longleftrightarrow> it = ka # rest"
  by (auto simp: next_keyed_account_def split: list.splits)

lemma next_keyed_account_Cons [simp]: "next_keyed_account (ka # rest) = Ok (ka, rest)"
  by (simp add: next_keyed_account_def)

lemma next_keyed_account_Nil [simp]: "next_keyed_account [] = Err NotEnoughAccountKeys"
  by (simp add: next_keyed_account_def)

lemma get_signers_iff: "k \<in> get_signers kas \<longleftrightarrow> (\<exists>ka \<in> set kas. is_signer ka \<and> unsigned_key ka = k)"
  by (auto simp: get_signers_def map_filter_def signer_key_def)

lemma signer_key_None [simp]: "signer_key ka = None \<longleftrightarrow> \<not> is_signer ka"
  by (simp add: signer_key_def)

lemmas cell_defs [store_simps] =
  ka_lamports_def ka_data_len_def ka_owner_def update_cell_def ka_set_lamports_def
  ka_set_data_def set_lamports_def

section \<open>Memory helpers\<close>

text \<open>\<open>unsafe_memcmp\<close> returns the difference of the first unequal pair of bytes, 0 if there is none.
  It reads \<open>n\<close> bytes of both buffers, so both must hold that many.\<close>

fun unsafe_memcmp :: "u8 list \<Rightarrow> u8 list \<Rightarrow> nat \<Rightarrow> int" where
  "unsafe_memcmp s1 s2 0 = 0"
| "unsafe_memcmp (a # s1) (b # s2) (Suc n) =
     (if a \<noteq> b then uint a - uint b else unsafe_memcmp s1 s2 n)"
| "unsafe_memcmp s1 s2 (Suc n) = 0"

lemma unsafe_memcmp_eq_0:
  "n \<le> length s1 \<Longrightarrow> n \<le> length s2 \<Longrightarrow> unsafe_memcmp s1 s2 n = 0 \<longleftrightarrow> take n s1 = take n s2"
proof (induction s1 s2 n rule: unsafe_memcmp.induct)
  case (2 a s1 b s2 n)
  then show ?case
    by (auto simp: word_uint_eq_iff)
qed auto

definition unsafe_memset :: "u8 list \<Rightarrow> u8 \<Rightarrow> nat \<Rightarrow> u8 list" where
  "unsafe_memset s c n = replicate n c @ drop n s"

lemma length_unsafe_memset: "n \<le> length s \<Longrightarrow> length (unsafe_memset s c n) = length s"
  by (simp add: unsafe_memset_def)

section \<open>Serialized account state\<close>

text \<open>
  Programs other than the token program keep a serde value in an account's data. The format is that of the
  external \<open>bincode\<close> crate, a parameter here: \<open>bc_serialize\<close> and \<open>bc_deserialize\<close> (which ignores
  trailing bytes, as \<open>bincode::deserialize\<close> does). \<open>state\<close> and \<open>set_state\<close> are the methods of
  \<open>StateMut\<close>; \<open>bincode_ok\<close> is the round trip the code relies on.
\<close>

record 'a bincode =
  bc_serialize :: "'a \<Rightarrow> u8 list option"
  bc_deserialize :: "u8 list \<Rightarrow> 'a option"

definition bincode_ok :: "'a bincode \<Rightarrow> bool" where
  "bincode_ok bc \<longleftrightarrow>
     (\<forall>x bs rest. bc_serialize bc x = Some bs \<longrightarrow> bc_deserialize bc (bs @ rest) = Some x)"

definition get_state :: "'a bincode \<Rightarrow> account \<Rightarrow> 'a ix_result" where
  "get_state bc a = ok_or InvalidAccountData (bc_deserialize bc (data a))"

definition set_state :: "'a bincode \<Rightarrow> 'a \<Rightarrow> account \<Rightarrow> account ix_result" where
  "set_state bc x a =
     (case bc_serialize bc x of
        None \<Rightarrow> Err GenericError
      | Some bs \<Rightarrow>
          if length (data a) < length bs then Err AccountDataTooSmall
          else Ok (a\<lparr>data := bs @ drop (length bs) (data a)\<rparr>))"

definition ka_state :: "'a bincode \<Rightarrow> store \<Rightarrow> keyed_account \<Rightarrow> 'a ix_result" where
  "ka_state bc s ka = get_state bc (cell s ka)"

definition ka_set_state :: "'a bincode \<Rightarrow> store \<Rightarrow> keyed_account \<Rightarrow> 'a \<Rightarrow> store ix_result" where
  "ka_set_state bc s ka x =
     and_then (set_state bc x (cell s ka)) (\<lambda>a. Ok (update_cell s ka (\<lambda>_. a)))"

lemma set_state_Ok:
  assumes "set_state bc x a = Ok b"
  shows "lamports b = lamports a" and "owner b = owner a" and "executable b = executable a"
    and "rent_epoch b = rent_epoch a" and "length (data b) = length (data a)"
  using assms by (auto simp: set_state_def split: option.splits if_splits)

lemma get_set_state:
  assumes "bincode_ok bc" and "set_state bc x a = Ok b"
  shows "get_state bc b = Ok x"
  using assms
  by (auto simp: set_state_def get_state_def bincode_ok_def split: option.splits if_splits)

lemma ka_state_set_state:
  assumes "bincode_ok bc" and "ka_set_state bc s ka x = Ok s'"
  shows "ka_state bc s' ka = Ok x" and "k \<noteq> unsigned_key ka \<Longrightarrow> s' k = s k"
  using assms get_set_state [of bc x "cell s ka"]
  by (auto simp: ka_set_state_def ka_state_def update_cell_def ok_simps)

end
