(* ===== verification/Sdk_Pack.thy ===== *)
theory Sdk_Pack
  imports Sdk_Account
begin

text \<open>
  The \<open>Pack\<close> trait (\<open>sdk/program/src/program_pack.rs\<close>). An implementation is the dictionary of the
  trait's required items; the provided methods are functions of the dictionary. The locale
  \<open>pack_format\<close> states what an implementation promises, and its client lemmas say what a program
  reads from an account it has just packed.
\<close>

record 'a pack_impl =
  pk_len :: nat
  pack_into_slice :: "'a \<Rightarrow> u8 list \<Rightarrow> u8 list ix_result"
  unpack_from_slice :: "u8 list \<Rightarrow> 'a ix_result"
  pk_is_initialized :: "'a \<Rightarrow> bool"

definition unpack_unchecked :: "'a pack_impl \<Rightarrow> u8 list \<Rightarrow> 'a ix_result" where
  "unpack_unchecked I input =
     (if length input \<noteq> pk_len I then Err InvalidAccountData else unpack_from_slice I input)"

definition unpack :: "'a pack_impl \<Rightarrow> u8 list \<Rightarrow> 'a ix_result" where
  "unpack I input =
     and_then (unpack_unchecked I input)
       (\<lambda>v. if pk_is_initialized I v then Ok v else Err UninitializedAccount)"

definition pack :: "'a pack_impl \<Rightarrow> 'a \<Rightarrow> u8 list \<Rightarrow> u8 list ix_result" where
  "pack I src dst =
     (if length dst \<noteq> pk_len I then Err InvalidAccountData else pack_into_slice I src dst)"

text \<open>Unpacking and packing through a keyed account.\<close>

definition unpack_ka :: "'a pack_impl \<Rightarrow> store \<Rightarrow> keyed_account \<Rightarrow> 'a ix_result" where
  "unpack_ka I s ka = unpack I (data (cell s ka))"

definition unpack_unchecked_ka :: "'a pack_impl \<Rightarrow> store \<Rightarrow> keyed_account \<Rightarrow> 'a ix_result" where
  "unpack_unchecked_ka I s ka = unpack_unchecked I (data (cell s ka))"

definition pack_ka :: "'a pack_impl \<Rightarrow> 'a \<Rightarrow> store \<Rightarrow> keyed_account \<Rightarrow> store ix_result" where
  "pack_ka I v s ka = and_then (pack I v (data (cell s ka))) (\<lambda>d. Ok (ka_set_data s ka d))"

lemma unpack_Ok_iff:
  "unpack I d = Ok v \<longleftrightarrow> unpack_unchecked I d = Ok v \<and> pk_is_initialized I v"
  by (auto simp: unpack_def ok_simps)

lemma unpack_unchecked_length: "unpack_unchecked I d = Ok v \<Longrightarrow> length d = pk_len I"
  by (simp add: unpack_unchecked_def split: if_splits)

lemma unpack_length: "unpack I d = Ok v \<Longrightarrow> length d = pk_len I"
  by (auto simp: unpack_Ok_iff dest: unpack_unchecked_length)

text \<open>
  What an implementation promises: packing keeps the length of the slice, and unpacking it yields
  the value again, up to the normal form \<open>canon\<close> in which the format stores it. Normal forms are
  fixed points and keep the initialization flag.
\<close>

locale pack_format =
  fixes I :: "'a pack_impl"
    and canon :: "'a \<Rightarrow> 'a"
  assumes pack_length:
      "length dst = pk_len I \<Longrightarrow> pack_into_slice I v dst = Ok d \<Longrightarrow> length d = pk_len I"
    and unpack_pack:
      "length dst = pk_len I \<Longrightarrow> pack_into_slice I v dst = Ok d \<Longrightarrow>
       unpack_from_slice I d = Ok (canon v)"
    and canon_idem: "canon (canon v) = canon v"
    and canon_initialized: "pk_is_initialized I (canon v) = pk_is_initialized I v"
begin

lemma unpack_unchecked_after_pack:
  assumes "pack I v dst = Ok d"
  shows "unpack_unchecked I d = Ok (canon v)"
  using assms pack_length [of dst v d] unpack_pack [of dst v d]
  by (simp add: pack_def unpack_unchecked_def split: if_splits)

lemma unpack_after_pack:
  assumes "pack I v dst = Ok d" and "pk_is_initialized I v"
  shows "unpack I d = Ok (canon v)"
  using unpack_unchecked_after_pack [OF assms(1)] assms(2)
  by (simp add: unpack_def canon_initialized)

lemma length_after_pack: "pack I v dst = Ok d \<Longrightarrow> length d = length dst \<and> length dst = pk_len I"
  using pack_length [of dst v d] by (simp add: pack_def split: if_splits)

text \<open>A packed account reads back, keeps every other field and leaves the other accounts alone.\<close>

lemma pack_ka_Ok:
  assumes "pack_ka I v s ka = Ok s'"
  obtains d where "s' = s(unsigned_key ka := (cell s ka)\<lparr>data := d\<rparr>)"
    and "unpack_unchecked I d = Ok (canon v)"
    and "length d = pk_len I" and "length (data (cell s ka)) = pk_len I"
  using assms unpack_unchecked_after_pack length_after_pack
  by (auto simp: pack_ka_def ok_simps store_simps)

lemma unpack_ka_pack_ka:
  assumes "pack_ka I v s ka = Ok s'" and "pk_is_initialized I v"
  shows "unpack_ka I s' ka = Ok (canon v)"
  using assms unpack_after_pack by (auto simp: pack_ka_def unpack_ka_def ok_simps store_simps)

end

end
