(* ===== verification/Rust_Utf8.thy ===== *)
theory Rust_Utf8
  imports Mundis_Prelude
begin

text \<open>
  Rust strings as UTF-8 byte strings: the validity a \<open>String\<close> has by its type, and
  \<open>String::from_utf8_lossy\<close>, which replaces every ill-formed piece by the three bytes of U+FFFD.
  \<open>utf8_chunk\<close> looks at the start of a byte string, reading 0 beyond its end, and says whether it is a
  well-formed character and how many bytes are consumed.
\<close>

definition safe_get :: "u8 list \<Rightarrow> nat \<Rightarrow> u8" where
  "safe_get bs i = (if i < length bs then bs ! i else 0)"

definition is_cont :: "u8 \<Rightarrow> bool" where
  "is_cont b \<longleftrightarrow> 128 \<le> b \<and> b \<le> 191"

definition utf8_char_width :: "u8 \<Rightarrow> nat" where
  "utf8_char_width b =
     (if b < 128 then 1 else if 194 \<le> b \<and> b \<le> 223 then 2
      else if 224 \<le> b \<and> b \<le> 239 then 3 else if 240 \<le> b \<and> b \<le> 244 then 4 else 0)"

definition second3_ok :: "u8 \<Rightarrow> u8 \<Rightarrow> bool" where
  "second3_ok b c \<longleftrightarrow>
     (if b = 224 then 160 \<le> c \<and> c \<le> 191
      else if b = 237 then 128 \<le> c \<and> c \<le> 159 else is_cont c)"

definition second4_ok :: "u8 \<Rightarrow> u8 \<Rightarrow> bool" where
  "second4_ok b c \<longleftrightarrow>
     (if b = 240 then 144 \<le> c \<and> c \<le> 191
      else if b = 244 then 128 \<le> c \<and> c \<le> 143 else is_cont c)"

definition utf8_chunk :: "u8 list \<Rightarrow> bool \<times> nat" where
  "utf8_chunk bs =
     (let b = safe_get bs 0; w = utf8_char_width b
      in if w = 1 then (True, 1)
         else if w = 2 then (if is_cont (safe_get bs 1) then (True, 2) else (False, 1))
         else if w = 3 then
           (if \<not> second3_ok b (safe_get bs 1) then (False, 1)
            else if \<not> is_cont (safe_get bs 2) then (False, 2) else (True, 3))
         else if w = 4 then
           (if \<not> second4_ok b (safe_get bs 1) then (False, 1)
            else if \<not> is_cont (safe_get bs 2) then (False, 2)
            else if \<not> is_cont (safe_get bs 3) then (False, 3) else (True, 4))
         else (False, 1))"

lemma utf8_chunk_pos: "0 < snd (utf8_chunk bs)"
  by (simp add: utf8_chunk_def Let_def)

function from_utf8_lossy :: "u8 list \<Rightarrow> u8 list" where
  "from_utf8_lossy [] = []"
| "from_utf8_lossy (b # bs) =
     (let r = utf8_chunk (b # bs); n = snd r
      in (if fst r then take n (b # bs) else [239, 191, 189]) @ from_utf8_lossy (drop n (b # bs)))"
  by pat_completeness auto
termination
  by (relation "measure length") (auto simp: utf8_chunk_pos)

function valid_utf8 :: "u8 list \<Rightarrow> bool" where
  "valid_utf8 [] = True"
| "valid_utf8 (b # bs) =
     (let r = utf8_chunk (b # bs) in fst r \<and> valid_utf8 (drop (snd r) (b # bs)))"
  by pat_completeness auto
termination
  by (relation "measure length") (auto simp: utf8_chunk_pos)

declare from_utf8_lossy.simps(2) [simp del] valid_utf8.simps(2) [simp del]

lemma safe_get_append: "i < length bs \<Longrightarrow> safe_get (bs @ cs) i = safe_get bs i"
  by (simp add: safe_get_def nth_append)

lemma cont_in_range:
  "is_cont (safe_get bs i) \<Longrightarrow> i < length bs"
  "second3_ok b (safe_get bs i) \<Longrightarrow> i < length bs"
  "second4_ok b (safe_get bs i) \<Longrightarrow> i < length bs"
  by (auto simp: safe_get_def is_cont_def second3_ok_def second4_ok_def split: if_splits)

text \<open>A well-formed character lies within the string and does not depend on what follows.\<close>

lemma utf8_chunk_valid:
  assumes "bs \<noteq> []" and "utf8_chunk bs = (True, n)"
  shows "n \<le> length bs" and "utf8_chunk (bs @ cs) = (True, n)"
proof -
  show "n \<le> length bs"
    using assms cont_in_range(1) [of bs 1] cont_in_range(1) [of bs 2] cont_in_range(1) [of bs 3]
    by (cases "length bs") (auto simp: utf8_chunk_def Let_def split: if_splits)
  have "safe_get (bs @ cs) i = safe_get bs i" if "i < n" for i
    using that \<open>n \<le> length bs\<close> by (simp add: safe_get_append)
  then show "utf8_chunk (bs @ cs) = (True, n)"
    using assms(2) by (auto simp: utf8_chunk_def Let_def split: if_splits)
qed

lemma from_utf8_lossy_valid [simp]: "valid_utf8 bs \<Longrightarrow> from_utf8_lossy bs = bs"
proof (induction bs rule: valid_utf8.induct)
  case (2 b bs)
  then show ?case
    by (simp add: from_utf8_lossy.simps(2) valid_utf8.simps(2) Let_def)
qed simp

lemma valid_utf8_append: "valid_utf8 xs \<Longrightarrow> valid_utf8 ys \<Longrightarrow> valid_utf8 (xs @ ys)"
proof (induction xs rule: valid_utf8.induct)
  case (2 b bs)
  obtain n where n: "utf8_chunk (b # bs) = (True, n)"
    using "2.prems"(1) by (cases "utf8_chunk (b # bs)") (simp add: valid_utf8.simps(2))
  note chunk = utf8_chunk_valid [OF _ n, simplified]
  have "valid_utf8 (drop n (b # bs) @ ys)"
    using 2 n by (simp add: valid_utf8.simps(2))
  then show ?case
    using chunk(1) chunk(2) [of ys] drop_append [of n "b # bs" ys]
    by (simp add: valid_utf8.simps(2))
qed simp

lemma valid_utf8_ascii: "\<forall>b \<in> set bs. b < 128 \<Longrightarrow> valid_utf8 bs"
proof (induction bs)
  case (Cons b bs)
  then have "utf8_chunk (b # bs) = (True, 1)"
    by (simp add: utf8_chunk_def safe_get_def utf8_char_width_def)
  with Cons show ?case
    by (simp add: valid_utf8.simps(2))
qed simp

lemma valid_utf8_take_chunk:
  assumes "bs \<noteq> []" and "utf8_chunk bs = (True, n)"
  shows "valid_utf8 (take n bs)"
proof -
  have n: "0 < n" "n \<le> length bs"
    using utf8_chunk_pos [of bs] utf8_chunk_valid(1) [OF assms] assms(2) by simp_all
  then have "safe_get (take n bs) i = safe_get bs i" if "i < n" for i
    using that by (simp add: safe_get_def)
  then have "utf8_chunk (take n bs) = (True, n)"
    using assms(2) n by (auto simp: utf8_chunk_def Let_def split: if_splits)
  moreover have "drop n (take n bs) = []"
    by simp
  moreover obtain c cs where "take n bs = c # cs"
    using n by (cases "take n bs") auto
  ultimately show ?thesis
    by (simp add: valid_utf8.simps(2))
qed

lemma valid_utf8_replacement [simp]: "valid_utf8 [239, 191, 189]"
  by code_simp

lemma valid_utf8_from_utf8_lossy: "valid_utf8 (from_utf8_lossy bs)"
proof (induction bs rule: from_utf8_lossy.induct)
  case (2 b bs)
  obtain ok n where chunk: "utf8_chunk (b # bs) = (ok, n)"
    by (cases "utf8_chunk (b # bs)")
  have "valid_utf8 (if ok then take n (b # bs) else [239, 191, 189])"
    using valid_utf8_take_chunk [of "b # bs" n] chunk by simp
  moreover have "valid_utf8 (from_utf8_lossy (drop n (b # bs)))"
    using 2 chunk by simp
  ultimately show ?case
    using chunk by (simp add: from_utf8_lossy.simps(2) valid_utf8_append)
qed simp

section \<open>The string type\<close>

text \<open>A \<open>String\<close> holds valid UTF-8 by its type.\<close>

typedef rust_string = "{bs :: u8 list. valid_utf8 bs}"
  morphisms as_bytes rust_string
  by (rule exI [of _ "[]"]) simp

setup_lifting type_definition_rust_string

lift_definition string_lossy :: "u8 list \<Rightarrow> rust_string" is from_utf8_lossy
  by (rule valid_utf8_from_utf8_lossy)

lift_definition string_append :: "rust_string \<Rightarrow> rust_string \<Rightarrow> rust_string" is "(@)"
  by (rule valid_utf8_append)

lift_definition string_zeroes :: "nat \<Rightarrow> rust_string" is "\<lambda>n. replicate n 0"
  by (rule valid_utf8_ascii) simp

definition string_len :: "rust_string \<Rightarrow> nat" where
  "string_len s = length (as_bytes s)"

lemma as_bytes_append [simp]: "as_bytes (string_append s t) = as_bytes s @ as_bytes t"
  by transfer simp

lemma as_bytes_zeroes [simp]: "as_bytes (string_zeroes n) = replicate n 0"
  by transfer simp

lemma string_lossy_as_bytes [simp]: "string_lossy (as_bytes s) = s"
  by transfer simp

lemma string_append_zeroes_0 [simp]: "string_append s (string_zeroes 0) = s"
  by transfer simp

lemma string_len_append [simp]: "string_len (string_append s t) = string_len s + string_len t"
  by (simp add: string_len_def)

lemma string_len_zeroes [simp]: "string_len (string_zeroes n) = n"
  by (simp add: string_len_def)

lemma string_len_lossy_ascii:
  "\<forall>b \<in> set bs. b < 128 \<Longrightarrow> string_len (string_lossy bs) = length bs"
  unfolding string_len_def by transfer (simp add: valid_utf8_ascii)

end
