(* ===== verification/Token_State.thy ===== *)
theory Token_State
  imports Sdk_Pack Rust_Utf8
begin

text \<open>
  The account layouts of the token program (\<open>programs/token/src/state.rs\<close>) and its errors
  (\<open>programs/token/src/error.rs\<close>): \<open>Mint\<close>, \<open>TokenAccount\<close> and \<open>Multisig\<close> with their hand-written
  byte formats. Each is an implementation of \<open>Pack\<close> and is shown to be a \<open>pack_format\<close>.
\<close>

section \<open>Errors\<close>

datatype token_error =
    NotRentExempt | InsufficientFunds | InvalidMint | MintMismatch | OwnerMismatch
  | FixedSupply | AlreadyInUse | InvalidNumberOfProvidedSigners | InvalidNumberOfRequiredSigners
  | UninitializedState | NativeNotSupported | NonNativeHasBalance | InvalidInstruction
  | InvalidState | Overflow | AuthorityTypeNotSupported | MintCannotFreeze | AccountFrozen
  | MintDecimalsMismatch | NonNativeNotSupported

fun token_error_code :: "token_error \<Rightarrow> u32" where
  "token_error_code NotRentExempt = 0"
| "token_error_code InsufficientFunds = 1"
| "token_error_code InvalidMint = 2"
| "token_error_code MintMismatch = 3"
| "token_error_code OwnerMismatch = 4"
| "token_error_code FixedSupply = 5"
| "token_error_code AlreadyInUse = 6"
| "token_error_code InvalidNumberOfProvidedSigners = 7"
| "token_error_code InvalidNumberOfRequiredSigners = 8"
| "token_error_code UninitializedState = 9"
| "token_error_code NativeNotSupported = 10"
| "token_error_code NonNativeHasBalance = 11"
| "token_error_code InvalidInstruction = 12"
| "token_error_code InvalidState = 13"
| "token_error_code Overflow = 14"
| "token_error_code AuthorityTypeNotSupported = 15"
| "token_error_code MintCannotFreeze = 16"
| "token_error_code AccountFrozen = 17"
| "token_error_code MintDecimalsMismatch = 18"
| "token_error_code NonNativeNotSupported = 19"

definition token_err :: "token_error \<Rightarrow> instruction_error" where
  "token_err e = Custom (token_error_code e)"

lemma token_err_inject: "token_err a = token_err b \<longleftrightarrow> a = b"
  by (cases a; cases b) (simp_all add: token_err_def)

section \<open>Optional fields\<close>

definition pack_option_key :: "pubkey option \<Rightarrow> u8 list \<Rightarrow> u8 list" where
  "pack_option_key src dst =
     (case src of
        Some k \<Rightarrow> [1, 0, 0, 0] @ to_bytes k
      | None \<Rightarrow> [0, 0, 0, 0] @ drop 4 dst)"

definition unpack_option_key :: "u8 list \<Rightarrow> pubkey option ix_result" where
  "unpack_option_key src =
     (let tag = slice_at 0 4 src; body = slice_at 4 32 src
      in if tag = [0, 0, 0, 0] then Ok None
         else if tag = [1, 0, 0, 0] then Ok (Some (new_from_array body))
         else Err InvalidAccountData)"

definition pack_option_u64 :: "u64 option \<Rightarrow> u8 list \<Rightarrow> u8 list" where
  "pack_option_u64 src dst =
     (case src of
        Some amount \<Rightarrow> [1, 0, 0, 0] @ to_le_bytes amount
      | None \<Rightarrow> [0, 0, 0, 0] @ drop 4 dst)"

definition unpack_option_u64 :: "u8 list \<Rightarrow> u64 option ix_result" where
  "unpack_option_u64 src =
     (let tag = slice_at 0 4 src; body = slice_at 4 8 src
      in if tag = [0, 0, 0, 0] then Ok None
         else if tag = [1, 0, 0, 0] then Ok (Some (from_le_bytes body))
         else Err InvalidAccountData)"

lemma length_pack_option_key [simp]: "length dst = 36 \<Longrightarrow> length (pack_option_key k dst) = 36"
  by (simp add: pack_option_key_def split: option.splits)

lemma length_pack_option_u64 [simp]: "length dst = 12 \<Longrightarrow> length (pack_option_u64 k dst) = 12"
  by (simp add: pack_option_u64_def split: option.splits)

lemma unpack_pack_option_key [simp]:
  "length dst = 36 \<Longrightarrow> unpack_option_key (pack_option_key k dst) = Ok k"
  by (simp add: pack_option_key_def unpack_option_key_def slice_at_def numeral_eq_Suc
           split: option.splits)

lemma unpack_pack_option_u64 [simp]:
  "length dst = 12 \<Longrightarrow> unpack_option_u64 (pack_option_u64 k dst) = Ok k"
  by (simp add: pack_option_u64_def unpack_option_u64_def slice_at_def numeral_eq_Suc
           split: option.splits)

section \<open>Mint\<close>

definition MAX_NAME_LENGTH :: nat where "MAX_NAME_LENGTH = 32"
definition MAX_SYMBOL_LENGTH :: nat where "MAX_SYMBOL_LENGTH = 10"

record mint =
  m_mint_authority :: "pubkey option"
  m_name :: rust_string
  m_symbol :: rust_string
  m_supply :: u64
  m_decimals :: u8
  m_is_initialized :: bool
  m_freeze_authority :: "pubkey option"

text \<open>
  Padding computes \<open>size - s.len()\<close> on \<open>usize\<close>. For a longer string the subtraction overflows: a
  panic, or, where overflow checks are off, a loop that pushes zero bytes until allocation fails.
  Both are the outcome \<open>Panic\<close>.
\<close>

definition puffed_out_string :: "rust_string \<Rightarrow> nat \<Rightarrow> rust_string ix_result" where
  "puffed_out_string s size' =
     (if size' < string_len s then Panic
      else Ok (string_append s (string_zeroes (size' - string_len s))))"

definition bool_byte :: "bool \<Rightarrow> u8" where
  "bool_byte b = (if b then 1 else 0)"

definition unpack_bool :: "u8 \<Rightarrow> bool ix_result" where
  "unpack_bool b = (if b = 0 then Ok False else if b = 1 then Ok True else Err InvalidAccountData)"

lemma unpack_bool_byte [simp]: "unpack_bool (bool_byte b) = Ok b"
  by (simp add: unpack_bool_def bool_byte_def)

definition mint_pack_into_slice :: "mint \<Rightarrow> u8 list \<Rightarrow> u8 list ix_result" where
  "mint_pack_into_slice m dst =
     and_then (puffed_out_string (m_name m) MAX_NAME_LENGTH) (\<lambda>name_padded.
     and_then (puffed_out_string (m_symbol m) MAX_SYMBOL_LENGTH) (\<lambda>symbol_padded.
       Ok (pack_option_key (m_mint_authority m) (slice_at 0 36 dst)
           @ as_bytes name_padded
           @ as_bytes symbol_padded
           @ to_le_bytes (m_supply m)
           @ [m_decimals m]
           @ [bool_byte (m_is_initialized m)]
           @ pack_option_key (m_freeze_authority m) (slice_at 88 36 dst))))"

definition mint_unpack_from_slice :: "u8 list \<Rightarrow> mint ix_result" where
  "mint_unpack_from_slice src =
     and_then (unpack_option_key (slice_at 0 36 src)) (\<lambda>auth.
     and_then (unpack_bool (hd (slice_at 87 1 src))) (\<lambda>init.
     and_then (unpack_option_key (slice_at 88 36 src)) (\<lambda>freeze.
       Ok \<lparr>m_mint_authority = auth,
           m_name = string_lossy (slice_at 36 32 src),
           m_symbol = string_lossy (slice_at 68 10 src),
           m_supply = from_le_bytes (slice_at 78 8 src),
           m_decimals = hd (slice_at 86 1 src),
           m_is_initialized = init,
           m_freeze_authority = freeze\<rparr>)))"

definition Mint :: "mint pack_impl" where
  "Mint = \<lparr>pk_len = 124, pack_into_slice = mint_pack_into_slice,
           unpack_from_slice = mint_unpack_from_slice, pk_is_initialized = m_is_initialized\<rparr>"

text \<open>Names and symbols are stored padded with zero bytes.\<close>

definition mint_canon :: "mint \<Rightarrow> mint" where
  "mint_canon m =
     m\<lparr>m_name := string_append (m_name m) (string_zeroes (32 - string_len (m_name m))),
       m_symbol := string_append (m_symbol m) (string_zeroes (10 - string_len (m_symbol m)))\<rparr>"

lemma puffed_out_string_Ok [ok_simps]:
  "puffed_out_string s n = Ok p \<longleftrightarrow>
     string_len s \<le> n \<and> p = string_append s (string_zeroes (n - string_len s))"
  by (auto simp: puffed_out_string_def)

lemma string_lossy_padded [simp]:
  "string_lossy (as_bytes s @ replicate k 0) = string_append s (string_zeroes k)"
  using string_lossy_as_bytes [of "string_append s (string_zeroes k)"] by simp

lemma mint_canon_idem: "mint_canon (mint_canon m) = mint_canon m"
  by (simp add: mint_canon_def)

interpretation mint_format: pack_format Mint mint_canon
proof
  fix dst d :: "u8 list" and v
  assume len: "length dst = pk_len Mint" and ok: "pack_into_slice Mint v dst = Ok d"
  define n where "n = as_bytes (m_name v) @ replicate (32 - string_len (m_name v)) 0"
  define y where "y = as_bytes (m_symbol v) @ replicate (10 - string_len (m_symbol v)) 0"
  have lens: "length n = 32" "length y = 10"
    using ok by (auto simp: Mint_def mint_pack_into_slice_def ok_simps MAX_NAME_LENGTH_def
        MAX_SYMBOL_LENGTH_def n_def y_def string_len_def)
  have d: "d = pack_option_key (m_mint_authority v) (slice_at 0 36 dst) @ n @ y
      @ to_le_bytes (m_supply v) @ [m_decimals v] @ [bool_byte (m_is_initialized v)]
      @ pack_option_key (m_freeze_authority v) (slice_at 88 36 dst)"
    using ok by (auto simp: Mint_def mint_pack_into_slice_def ok_simps MAX_NAME_LENGTH_def
        MAX_SYMBOL_LENGTH_def n_def y_def)
  have dst: "length (slice_at 0 36 dst) = 36" "length (slice_at 88 36 dst) = 36"
    using len by (simp_all add: Mint_def)
  show "length d = pk_len Mint"
    using lens dst by (simp add: d Mint_def)
  have "string_lossy n = m_name (mint_canon v)" "string_lossy y = m_symbol (mint_canon v)"
    by (simp_all add: n_def y_def mint_canon_def)
  then show "unpack_from_slice Mint d = Ok (mint_canon v)"
    using lens dst unfolding d Mint_def mint_unpack_from_slice_def
    by (simp add: mint_canon_def)
next
  fix v
  show "mint_canon (mint_canon v) = mint_canon v"
    by (rule mint_canon_idem)
  show "pk_is_initialized Mint (mint_canon v) = pk_is_initialized Mint v"
    by (simp add: Mint_def mint_canon_def)
qed

section \<open>Token accounts\<close>

datatype account_state = Uninitialized | Initialized | Frozen

fun account_state_byte :: "account_state \<Rightarrow> u8" where
  "account_state_byte Uninitialized = 0"
| "account_state_byte Initialized = 1"
| "account_state_byte Frozen = 2"

definition try_from_primitive :: "u8 \<Rightarrow> account_state ix_result" where
  "try_from_primitive b =
     (if b = 0 then Ok Uninitialized else if b = 1 then Ok Initialized
      else if b = 2 then Ok Frozen else Err InvalidAccountData)"

lemma try_from_account_state_byte [simp]: "try_from_primitive (account_state_byte a) = Ok a"
  by (cases a) (simp_all add: try_from_primitive_def)

record token_account =
  ta_mint :: pubkey
  ta_owner :: pubkey
  ta_amount :: u64
  ta_delegate :: "pubkey option"
  ta_state :: account_state
  ta_is_native :: "u64 option"
  ta_delegated_amount :: u64
  ta_close_authority :: "pubkey option"

definition is_frozen :: "token_account \<Rightarrow> bool" where
  "is_frozen a \<longleftrightarrow> ta_state a = Frozen"

definition is_native :: "token_account \<Rightarrow> bool" where
  "is_native a \<longleftrightarrow> ta_is_native a \<noteq> None"

definition ta_is_initialized :: "token_account \<Rightarrow> bool" where
  "ta_is_initialized a \<longleftrightarrow> ta_state a \<noteq> Uninitialized"

definition ta_pack_into_slice :: "token_account \<Rightarrow> u8 list \<Rightarrow> u8 list ix_result" where
  "ta_pack_into_slice a dst =
     Ok (to_bytes (ta_mint a)
         @ to_bytes (ta_owner a)
         @ to_le_bytes (ta_amount a)
         @ pack_option_key (ta_delegate a) (slice_at 72 36 dst)
         @ [account_state_byte (ta_state a)]
         @ pack_option_u64 (ta_is_native a) (slice_at 109 12 dst)
         @ to_le_bytes (ta_delegated_amount a)
         @ pack_option_key (ta_close_authority a) (slice_at 129 36 dst))"

definition ta_unpack_from_slice :: "u8 list \<Rightarrow> token_account ix_result" where
  "ta_unpack_from_slice src =
     and_then (unpack_option_key (slice_at 72 36 src)) (\<lambda>delegate.
     and_then (try_from_primitive (hd (slice_at 108 1 src))) (\<lambda>state.
     and_then (unpack_option_u64 (slice_at 109 12 src)) (\<lambda>native.
     and_then (unpack_option_key (slice_at 129 36 src)) (\<lambda>close.
       Ok \<lparr>ta_mint = new_from_array (slice_at 0 32 src),
           ta_owner = new_from_array (slice_at 32 32 src),
           ta_amount = from_le_bytes (slice_at 64 8 src),
           ta_delegate = delegate,
           ta_state = state,
           ta_is_native = native,
           ta_delegated_amount = from_le_bytes (slice_at 121 8 src),
           ta_close_authority = close\<rparr>))))"

definition TokenAccount :: "token_account pack_impl" where
  "TokenAccount = \<lparr>pk_len = 165, pack_into_slice = ta_pack_into_slice,
                   unpack_from_slice = ta_unpack_from_slice, pk_is_initialized = ta_is_initialized\<rparr>"

interpretation ta_format: pack_format TokenAccount "\<lambda>a. a"
proof
  fix dst d :: "u8 list" and v
  assume len: "length dst = pk_len TokenAccount" and ok: "pack_into_slice TokenAccount v dst = Ok d"
  have d: "d = to_bytes (ta_mint v) @ to_bytes (ta_owner v) @ to_le_bytes (ta_amount v)
      @ pack_option_key (ta_delegate v) (slice_at 72 36 dst) @ [account_state_byte (ta_state v)]
      @ pack_option_u64 (ta_is_native v) (slice_at 109 12 dst) @ to_le_bytes (ta_delegated_amount v)
      @ pack_option_key (ta_close_authority v) (slice_at 129 36 dst)"
    using ok by (simp add: TokenAccount_def ta_pack_into_slice_def)
  have dst: "length (slice_at 72 36 dst) = 36" "length (slice_at 109 12 dst) = 12"
    "length (slice_at 129 36 dst) = 36"
    using len by (simp_all add: TokenAccount_def)
  show "length d = pk_len TokenAccount"
    using dst by (simp add: d TokenAccount_def)
  show "unpack_from_slice TokenAccount d = Ok v"
    using dst unfolding d TokenAccount_def ta_unpack_from_slice_def by simp
qed (simp_all add: TokenAccount_def)

section \<open>Multisignature accounts\<close>

definition MIN_SIGNERS :: nat where "MIN_SIGNERS = 1"
definition MAX_SIGNERS :: nat where "MAX_SIGNERS = 11"

definition is_valid_signer_index :: "nat \<Rightarrow> bool" where
  "is_valid_signer_index i \<longleftrightarrow> MIN_SIGNERS \<le> i \<and> i \<le> MAX_SIGNERS"

text \<open>The signers are an array of 11 keys. A list of another length is no value of the type.\<close>

record multisig =
  ms_m :: u8
  ms_n :: u8
  ms_is_initialized :: bool
  ms_signers :: "pubkey list"

definition multisig_pack_into_slice :: "multisig \<Rightarrow> u8 list \<Rightarrow> u8 list ix_result" where
  "multisig_pack_into_slice ms dst =
     (if length (ms_signers ms) \<noteq> MAX_SIGNERS then Panic
      else Ok ([ms_m ms] @ [ms_n ms] @ [bool_byte (ms_is_initialized ms)]
               @ concat (map to_bytes (ms_signers ms))))"

definition multisig_unpack_from_slice :: "u8 list \<Rightarrow> multisig ix_result" where
  "multisig_unpack_from_slice src =
     and_then (unpack_bool (hd (slice_at 2 1 src))) (\<lambda>init.
       Ok \<lparr>ms_m = hd (slice_at 0 1 src),
           ms_n = hd (slice_at 1 1 src),
           ms_is_initialized = init,
           ms_signers = map (\<lambda>i. new_from_array (slice_at (32 * i) 32 (drop 3 src)))
                            [0..<MAX_SIGNERS]\<rparr>)"

definition Multisig :: "multisig pack_impl" where
  "Multisig = \<lparr>pk_len = 355, pack_into_slice = multisig_pack_into_slice,
               unpack_from_slice = multisig_unpack_from_slice,
               pk_is_initialized = ms_is_initialized\<rparr>"

lemma length_concat_to_bytes: "length (concat (map to_bytes ks)) = 32 * length ks"
  by (induction ks) simp_all

lemma unpack_signers:
  "length ks = n \<Longrightarrow>
     map (\<lambda>i. new_from_array (slice_at (32 * i) 32 (concat (map to_bytes ks)))) [0..<n] = ks"
  by (rule nth_equalityI) (simp_all add: slice_at_concat)

interpretation multisig_format: pack_format Multisig "\<lambda>ms. ms"
proof
  fix dst d :: "u8 list" and v
  assume "length dst = pk_len Multisig" and ok: "pack_into_slice Multisig v dst = Ok d"
  then have d: "d = ms_m v # ms_n v # bool_byte (ms_is_initialized v)
      # concat (map to_bytes (ms_signers v))" and len: "length (ms_signers v) = MAX_SIGNERS"
    by (auto simp: Multisig_def multisig_pack_into_slice_def ok_simps)
  show "length d = pk_len Multisig"
    using len by (simp add: d Multisig_def length_concat_to_bytes MAX_SIGNERS_def)
  show "unpack_from_slice Multisig d = Ok v"
    using len unpack_signers [of "ms_signers v" MAX_SIGNERS]
    by (simp add: d Multisig_def multisig_unpack_from_slice_def)
qed (simp_all add: Multisig_def)

section \<open>Telling the layouts apart\<close>

text \<open>The three layouts have different lengths, so an account is read as at most one of them.\<close>

lemma layout_lengths [simp]:
  "pk_len Mint = 124" "pk_len TokenAccount = 165" "pk_len Multisig = 355"
  by (simp_all add: Mint_def TokenAccount_def Multisig_def)

lemma layout_initialized [simp]:
  "pk_is_initialized Mint = m_is_initialized"
  "pk_is_initialized TokenAccount = ta_is_initialized"
  "pk_is_initialized Multisig = ms_is_initialized"
  by (simp_all add: Mint_def TokenAccount_def Multisig_def)

lemma not_both_layouts:
  "unpack_unchecked TokenAccount d = Ok a \<Longrightarrow> unpack_unchecked Mint d \<noteq> Ok m"
  by (auto dest!: unpack_unchecked_length)

end
