(* ===== verification/Rust_F64.thy ===== *)
theory Rust_F64
  imports Mundis_Prelude "HOL-Library.Log_Nat"
begin

text \<open>
  The double-precision arithmetic the code uses, on non-negative finite values. A value is the
  rational number it denotes; every operation computes exactly and rounds to 53 significant bits,
  ties to even, as IEEE 754 binary64 does in the normal range. The conversion to \<open>u64\<close> truncates
  and saturates, as Rust's \<open>as\<close> does.
\<close>

definition round_half_even :: "rat \<Rightarrow> int" where
  "round_half_even q =
     (let f = \<lfloor>q\<rfloor>; r = q - of_int f
      in if r < 1 / 2 then f else if 1 / 2 < r then f + 1 else if even f then f else f + 1)"

text \<open>The exponent of the leading binary digit of a positive value.\<close>

definition binary_exponent :: "rat \<Rightarrow> int" where
  "binary_exponent q =
     (if 1 \<le> q then int (floorlog 2 (nat \<lfloor>q\<rfloor>)) - 1
      else - int (floorlog 2 (nat (\<lceil>1 / q\<rceil> - 1))))"

definition f64_round :: "rat \<Rightarrow> rat" where
  "f64_round q =
     (if q = 0 then 0
      else let e = binary_exponent q - 52
           in of_int (round_half_even (q / (2 powi e))) * 2 powi e)"

definition f64_of_u64 :: "u64 \<Rightarrow> rat" where
  "f64_of_u64 x = f64_round (of_nat (unat x))"

definition f64_mul :: "rat \<Rightarrow> rat \<Rightarrow> rat" where
  "f64_mul a b = f64_round (a * b)"

definition f64_as_u64 :: "rat \<Rightarrow> u64" where
  "f64_as_u64 q = (if 2 ^ 64 \<le> q then - 1 else of_int \<lfloor>q\<rfloor>)"

lemma round_half_even_of_int [simp]: "round_half_even (of_int i) = i"
  by (simp add: round_half_even_def Let_def)

lemma binary_exponent_of_nat:
  assumes "0 < n" and "n < 2 ^ 53"
  shows "binary_exponent (of_nat n) \<le> 52"
proof -
  have "floorlog 2 n \<le> 53"
    using assms by (intro floorlog_leI) auto
  moreover have "(1 :: rat) \<le> of_nat n"
    using assms by (simp add: Suc_leI)
  ultimately show ?thesis
    by (simp add: binary_exponent_def)
qed

text \<open>Integers below \<open>2 ^ 53\<close> are represented exactly.\<close>

lemma f64_round_of_nat: "n < 2 ^ 53 \<Longrightarrow> f64_round (of_nat n) = of_nat n"
proof (cases "n = 0")
  case False
  assume "n < 2 ^ 53"
  define e where "e = binary_exponent (of_nat n) - 52"
  have "e \<le> 0"
    using binary_exponent_of_nat [of n] False \<open>n < 2 ^ 53\<close> by (simp add: e_def)
  then have "(of_nat n :: rat) / 2 powi e = of_int (int n * 2 ^ nat (- e))"
    by (simp add: power_int_def field_simps)
  then have "round_half_even (of_nat n / 2 powi e) = int n * 2 ^ nat (- e)"
    by (metis round_half_even_of_int)
  then have "f64_round (of_nat n) = of_int (int n * 2 ^ nat (- e)) * 2 powi e"
    using False by (simp add: f64_round_def Let_def e_def)
  also have "\<dots> = of_nat n"
    using \<open>e \<le> 0\<close> by (auto simp: power_int_def simp flip: power_mult_distrib)
  finally show ?thesis .
qed (simp add: f64_round_def)

lemma f64_of_u64_exact: "unat x < 2 ^ 53 \<Longrightarrow> f64_of_u64 x = of_nat (unat x)"
  using f64_round_of_nat [of "unat x"] by (simp add: f64_of_u64_def)

lemma f64_as_u64_of_nat:
  assumes "n < 2 ^ 53"
  shows "f64_as_u64 (of_nat n) = of_nat n"
proof -
  have "of_nat n < (2 ^ 53 :: rat)"
    using assms by (metis of_nat_less_iff of_nat_numeral of_nat_power)
  then have "\<not> 2 ^ 64 \<le> (of_nat n :: rat)"
    by simp
  then show ?thesis
    by (simp add: f64_as_u64_def)
qed

text \<open>Multiplying an exact integer by an exact integer, while the product stays exact.\<close>

lemma f64_mul_of_nat: "a * b < 2 ^ 53 \<Longrightarrow> f64_mul (of_nat a) (of_nat b) = of_nat (a * b)"
  by (metis f64_mul_def f64_round_of_nat of_nat_mult)

end
