(* ===== verification/Sdk_Rent.thy ===== *)
theory Sdk_Rent
  imports Rust_F64
begin

text \<open>
  Rent (\<open>sdk/program/src/rent.rs\<close>): the balance an account needs to be exempt, the rent due
  otherwise, and the share of collected rent that is burned. Products of \<open>u64\<close> wrap around, as
  in a release build.
\<close>

record rent =
  lamports_per_byte_year :: u64
  exemption_threshold :: rat
  burn_percent :: u8

definition DEFAULT_LAMPORTS_PER_BYTE_YEAR :: u64 where
  "DEFAULT_LAMPORTS_PER_BYTE_YEAR = 1000000000 div 100 * 365 div (1024 * 1024)"

definition ACCOUNT_STORAGE_OVERHEAD :: u64 where
  "ACCOUNT_STORAGE_OVERHEAD = 128"

definition rent_default :: rent where
  "rent_default =
     \<lparr>lamports_per_byte_year = DEFAULT_LAMPORTS_PER_BYTE_YEAR,
      exemption_threshold = 1, burn_percent = 50\<rparr>"

definition rent_free :: rent where
  "rent_free = rent_default\<lparr>lamports_per_byte_year := 0\<rparr>"

definition calculate_burn :: "rent \<Rightarrow> u64 \<Rightarrow> u64 \<times> u64" where
  "calculate_burn r rent_collected =
     (let burned_portion = (rent_collected * ucast (burn_percent r)) div 100
      in (burned_portion, rent_collected - burned_portion))"

definition minimum_balance :: "rent \<Rightarrow> nat \<Rightarrow> u64" where
  "minimum_balance r data_len =
     (let bytes = (of_nat data_len :: u64)
      in f64_as_u64 (f64_mul (f64_of_u64 ((ACCOUNT_STORAGE_OVERHEAD + bytes) * lamports_per_byte_year r))
                             (exemption_threshold r)))"

definition is_exempt :: "rent \<Rightarrow> u64 \<Rightarrow> nat \<Rightarrow> bool" where
  "is_exempt r balance data_len \<longleftrightarrow> minimum_balance r data_len \<le> balance"

datatype rent_due = Exempt | Paying u64

definition due :: "rent \<Rightarrow> u64 \<Rightarrow> nat \<Rightarrow> rat \<Rightarrow> rent_due" where
  "due r balance data_len years_elapsed =
     (if is_exempt r balance data_len then Exempt
      else let actual_data_len = of_nat data_len + ACCOUNT_STORAGE_OVERHEAD;
               lamports_per_year = lamports_per_byte_year r * actual_data_len
           in Paying (f64_as_u64 (f64_mul (f64_of_u64 lamports_per_year) years_elapsed)))"

fun rent_due_lamports :: "rent_due \<Rightarrow> u64" where
  "rent_due_lamports Exempt = 0"
| "rent_due_lamports (Paying x) = x"

fun rent_due_is_exempt :: "rent_due \<Rightarrow> bool" where
  "rent_due_is_exempt Exempt = True"
| "rent_due_is_exempt (Paying x) = False"

section \<open>The default rent\<close>

lemma default_rate: "DEFAULT_LAMPORTS_PER_BYTE_YEAR = 3480"
  by (simp add: DEFAULT_LAMPORTS_PER_BYTE_YEAR_def)

text \<open>With whole years as threshold the balance is the exact product, as long as it fits 53 bits.\<close>

lemma minimum_balance_exact:
  assumes "exemption_threshold r = of_nat t"
    and "(128 + n) * unat (lamports_per_byte_year r) < 2 ^ 53"
    and "(128 + n) * unat (lamports_per_byte_year r) * t < 2 ^ 53"
    and "n < 2 ^ 32"
  shows "unat (minimum_balance r n) = (128 + n) * unat (lamports_per_byte_year r) * t"
proof -
  let ?p = "(ACCOUNT_STORAGE_OVERHEAD + of_nat n) * lamports_per_byte_year r"
  let ?m = "(128 + n) * unat (lamports_per_byte_year r)"
  have sum: "unat (ACCOUNT_STORAGE_OVERHEAD + of_nat n) = 128 + n"
  proof -
    have "ACCOUNT_STORAGE_OVERHEAD + of_nat n = (of_nat (128 + n) :: u64)"
      by (simp add: ACCOUNT_STORAGE_OVERHEAD_def)
    then show ?thesis
      using assms(4) by (simp only: unat_of_nat) simp
  qed
  have p: "unat ?p = ?m"
    using assms(2) unfolding unat_word_ariths(2) sum by simp
  have "minimum_balance r n = f64_as_u64 (f64_mul (of_nat ?m) (of_nat t))"
    using p assms(1,2) by (simp add: minimum_balance_def Let_def f64_of_u64_exact)
  also have "\<dots> = f64_as_u64 (of_nat (?m * t))"
    using assms(3) by (simp only: f64_mul_of_nat)
  also have "\<dots> = of_nat (?m * t)"
    using assms(3) by (rule f64_as_u64_of_nat)
  finally have eq: "minimum_balance r n = of_nat (?m * t)" .
  have "unat (of_nat (?m * t) :: u64) = ?m * t"
    using assms(3) unfolding unat_of_nat by simp
  with eq show ?thesis
    by simp
qed

lemma minimum_balance_default:
  assumes "n \<le> 10 * 1024 * 1024"
  shows "unat (minimum_balance rent_default n) = (128 + n) * 3480"
proof -
  have "unat (lamports_per_byte_year rent_default) = 3480"
    by (simp add: rent_default_def default_rate)
  then show ?thesis
    using minimum_balance_exact [of rent_default 1 n] assms
    by (simp add: rent_default_def)
qed

end
