(* ===== verification/Token_Processor.thy ===== *)
theory Token_Processor
  imports Token_State Sdk_Rent
begin

text \<open>
  The token program (\<open>programs/token/src/token_processor.rs\<close>): one definition per handler, in the
  order of the source, on the store of accounts. \<open>it\<close> is the account iterator.
\<close>

definition native_mint_id :: pubkey where
  "native_mint_id =
     2422859780341490044364458315665012652397997693905354154460488629964993724417"

datatype authority_type = MintTokens | FreezeAccountAuthority | AccountOwner | CloseAccountAuthority

datatype token_instruction =
    InitializeMint rust_string rust_string u8 pubkey "pubkey option"
  | InitializeAccount
  | InitializeMultisig u8
  | Transfer u64
  | Approve u64
  | Revoke
  | SetAuthority authority_type "pubkey option"
  | MintTo u64
  | Burn u64
  | CloseAccount
  | FreezeAccount
  | ThawAccount
  | TransferChecked u64 u8
  | ApproveChecked u64 u8
  | MintToChecked u64 u8
  | BurnChecked u64 u8
  | InitializeAccount2 pubkey
  | SyncNative

section \<open>Checks\<close>

definition cmp_pubkeys :: "pubkey \<Rightarrow> pubkey \<Rightarrow> bool" where
  "cmp_pubkeys a b \<longleftrightarrow> unsafe_memcmp (to_bytes a) (to_bytes b) 32 = 0"

lemma cmp_pubkeys_iff [simp]: "cmp_pubkeys a b \<longleftrightarrow> a = b"
  by (simp add: cmp_pubkeys_def unsafe_memcmp_eq_0)

definition check_account_owner :: "pubkey \<Rightarrow> store \<Rightarrow> keyed_account \<Rightarrow> unit ix_result" where
  "check_account_owner program_id s ka =
     (if \<not> cmp_pubkeys program_id (ka_owner s ka) then Err IncorrectProgramId else Ok ())"

text \<open>
  The loops of \<open>validate_owner\<close>: for each extra account, the keys of the multisignature account at
  their positions, with the count of matched positions and the flags of those already matched.
  Taking the first \<open>n\<close> keys of the array of 11 panics when \<open>n\<close> is larger.
\<close>

fun match_signer :: "keyed_account \<Rightarrow> nat \<Rightarrow> pubkey list \<Rightarrow> u8 \<times> bool list \<Rightarrow> (u8 \<times> bool list) ix_result" where
  "match_signer signer position [] st = Ok st"
| "match_signer signer position (key # keys) (num_signers, matched) =
     (if cmp_pubkeys key (unsigned_key signer) \<and> \<not> matched ! position
      then if signer_key signer = None then Err MissingRequiredSignature
           else match_signer signer (Suc position) keys (num_signers + 1, matched[position := True])
      else match_signer signer (Suc position) keys (num_signers, matched))"

fun match_signers :: "multisig \<Rightarrow> keyed_account list \<Rightarrow> u8 \<times> bool list \<Rightarrow> (u8 \<times> bool list) ix_result" where
  "match_signers ms [] st = Ok st"
| "match_signers ms (signer # signers) st =
     (if MAX_SIGNERS < unat (ms_n ms) then Panic
      else and_then (match_signer signer 0 (take (unat (ms_n ms)) (ms_signers ms)) st)
             (match_signers ms signers))"

definition validate_owner ::
  "pubkey \<Rightarrow> store \<Rightarrow> pubkey \<Rightarrow> keyed_account \<Rightarrow> keyed_account list \<Rightarrow> unit ix_result" where
  "validate_owner program_id s expected_owner owner_info signers =
     (if \<not> cmp_pubkeys expected_owner (unsigned_key owner_info) then Err (token_err OwnerMismatch)
      else if cmp_pubkeys program_id (ka_owner s owner_info)
              \<and> ka_data_len s owner_info = pk_len Multisig
      then and_then (unpack_ka Multisig s owner_info) (\<lambda>ms.
           and_then (match_signers ms signers (0, replicate MAX_SIGNERS False)) (\<lambda>(num_signers, matched).
             if num_signers < ms_m ms then Err MissingRequiredSignature else Ok ()))
      else if signer_key owner_info = None then Err MissingRequiredSignature
      else Ok ())"

section \<open>Initialization\<close>

definition process_initialize_mint ::
  "store \<Rightarrow> keyed_account list \<Rightarrow> rust_string \<Rightarrow> rust_string \<Rightarrow> u8 \<Rightarrow> pubkey \<Rightarrow> pubkey option
   \<Rightarrow> store ix_result" where
  "process_initialize_mint s accounts name symbol decimals mint_auth freeze_auth =
     and_then (next_keyed_account accounts) (\<lambda>(mint_info, it).
     and_then (unpack_unchecked_ka Mint s mint_info) (\<lambda>mint.
       if m_is_initialized mint then Err (token_err AlreadyInUse)
       else if \<not> is_exempt rent_default (ka_lamports s mint_info) (ka_data_len s mint_info)
       then Err (token_err NotRentExempt)
       else pack_ka Mint
              (mint\<lparr>m_mint_authority := Some mint_auth, m_decimals := decimals, m_name := name,
                    m_symbol := symbol, m_is_initialized := True,
                    m_freeze_authority := freeze_auth\<rparr>)
              s mint_info))"

definition process_initialize_account_aux ::
  "pubkey \<Rightarrow> store \<Rightarrow> keyed_account list \<Rightarrow> pubkey option \<Rightarrow> store ix_result" where
  "process_initialize_account_aux program_id s accounts owner_opt =
     and_then (next_keyed_account accounts) (\<lambda>(new_account_info, it).
     and_then (next_keyed_account it) (\<lambda>(mint_info, it).
     and_then (case owner_opt of
                 Some o' \<Rightarrow> Ok o'
               | None \<Rightarrow> and_then (next_keyed_account it) (\<lambda>(ka, it). Ok (unsigned_key ka))) (\<lambda>owner'.
     and_then (unpack_unchecked_ka TokenAccount s new_account_info) (\<lambda>acct.
       if ta_is_initialized acct then Err (token_err AlreadyInUse)
       else if \<not> is_exempt rent_default (ka_lamports s new_account_info) (ka_data_len s new_account_info)
       then Err (token_err NotRentExempt)
       else
         let is_native_mint = cmp_pubkeys (unsigned_key mint_info) native_mint_id in
         and_then (if \<not> is_native_mint
                   then and_then (check_account_owner program_id s mint_info) (\<lambda>_.
                        and_then (map_err (\<lambda>_. token_err InvalidMint) (unpack_ka Mint s mint_info)) (\<lambda>_. Ok ()))
                   else Ok ()) (\<lambda>_.
         let acct = acct\<lparr>ta_mint := unsigned_key mint_info, ta_owner := owner',
                         ta_delegate := None, ta_delegated_amount := 0, ta_state := Initialized\<rparr> in
         and_then (if is_native_mint
                   then let reserve = minimum_balance rent_default (ka_data_len s new_account_info) in
                        and_then (ok_or (token_err Overflow)
                                    (checked_sub (ka_lamports s new_account_info) reserve)) (\<lambda>amount.
                        Ok (acct\<lparr>ta_is_native := Some reserve, ta_amount := amount\<rparr>))
                   else Ok (acct\<lparr>ta_is_native := None, ta_amount := 0\<rparr>)) (\<lambda>acct.
         pack_ka TokenAccount acct s new_account_info))))))"

definition process_initialize_account :: "pubkey \<Rightarrow> store \<Rightarrow> keyed_account list \<Rightarrow> store ix_result" where
  "process_initialize_account program_id s accounts =
     process_initialize_account_aux program_id s accounts None"

definition process_initialize_account2 ::
  "pubkey \<Rightarrow> store \<Rightarrow> keyed_account list \<Rightarrow> pubkey \<Rightarrow> store ix_result" where
  "process_initialize_account2 program_id s accounts owner' =
     process_initialize_account_aux program_id s accounts (Some owner')"

text \<open>The number of signers is truncated to a byte; writing beyond the array of 11 keys panics.\<close>

fun write_signers :: "nat \<Rightarrow> keyed_account list \<Rightarrow> pubkey list \<Rightarrow> pubkey list ix_result" where
  "write_signers i [] ks = Ok ks"
| "write_signers i (signer_info # infos) ks =
     (if i < length ks then write_signers (Suc i) infos (ks[i := unsigned_key signer_info]) else Panic)"

definition process_initialize_multisig :: "store \<Rightarrow> keyed_account list \<Rightarrow> u8 \<Rightarrow> store ix_result" where
  "process_initialize_multisig s accounts m =
     and_then (next_keyed_account accounts) (\<lambda>(multisig_info, signer_infos).
     and_then (unpack_unchecked_ka Multisig s multisig_info) (\<lambda>ms.
       if ms_is_initialized ms then Err (token_err AlreadyInUse)
       else if \<not> is_exempt rent_default (ka_lamports s multisig_info) (ka_data_len s multisig_info)
       then Err (token_err NotRentExempt)
       else
         let ms = ms\<lparr>ms_m := m, ms_n := of_nat (length signer_infos)\<rparr> in
         if \<not> is_valid_signer_index (unat (ms_n ms)) then Err (token_err InvalidNumberOfProvidedSigners)
         else if \<not> is_valid_signer_index (unat (ms_m ms)) then Err (token_err InvalidNumberOfRequiredSigners)
         else and_then (write_signers 0 signer_infos (ms_signers ms)) (\<lambda>ks.
              pack_ka Multisig (ms\<lparr>ms_signers := ks, ms_is_initialized := True\<rparr>) s multisig_info)))"

section \<open>Transfer, approve, revoke\<close>

definition next_expected_mint ::
  "u8 option \<Rightarrow> keyed_account list \<Rightarrow> ((keyed_account \<times> u8) option \<times> keyed_account list) ix_result" where
  "next_expected_mint expected_decimals it =
     (case expected_decimals of
        Some d \<Rightarrow> and_then (next_keyed_account it) (\<lambda>(ka, it). Ok (Some (ka, d), it))
      | None \<Rightarrow> Ok (None, it))"

definition check_expected_mint ::
  "store \<Rightarrow> token_account \<Rightarrow> (keyed_account \<times> u8) option \<Rightarrow> unit ix_result" where
  "check_expected_mint s source_account expected_mint_info =
     (case expected_mint_info of
        Some (mint_info, expected_decimals) \<Rightarrow>
          if \<not> cmp_pubkeys (unsigned_key mint_info) (ta_mint source_account)
          then Err (token_err MintMismatch)
          else and_then (unpack_ka Mint s mint_info) (\<lambda>mint.
                 if expected_decimals \<noteq> m_decimals mint then Err (token_err MintDecimalsMismatch)
                 else Ok ())
      | None \<Rightarrow> Ok ())"

text \<open>The authority of a debit: the delegate, whose allowance is used up, or else the owner. In
  \<open>process_transfer\<close> a self-transfer leaves the allowance alone; \<open>process_burn\<close> never does.\<close>

definition debit_authority ::
  "pubkey \<Rightarrow> store \<Rightarrow> token_account \<Rightarrow> keyed_account \<Rightarrow> keyed_account list \<Rightarrow> u64 \<Rightarrow> bool
   \<Rightarrow> token_account ix_result" where
  "debit_authority program_id s acct authority_info signers amount keep_allowance =
     (if (case ta_delegate acct of Some d \<Rightarrow> cmp_pubkeys (unsigned_key authority_info) d | None \<Rightarrow> False)
      then and_then (validate_owner program_id s (the (ta_delegate acct)) authority_info signers) (\<lambda>_.
           if ta_delegated_amount acct < amount then Err (token_err InsufficientFunds)
           else if \<not> keep_allowance
           then and_then (ok_or (token_err Overflow)
                            (checked_sub (ta_delegated_amount acct) amount)) (\<lambda>rest.
                let acct = acct\<lparr>ta_delegated_amount := rest\<rparr> in
                Ok (if ta_delegated_amount acct = 0 then acct\<lparr>ta_delegate := None\<rparr> else acct))
           else Ok acct)
      else and_then (validate_owner program_id s (ta_owner acct) authority_info signers) (\<lambda>_. Ok acct))"

text \<open>The end of \<open>process_transfer\<close>: the amounts, the lamports of wrapped accounts, the writes.\<close>

definition commit_transfer ::
  "store \<Rightarrow> keyed_account \<Rightarrow> keyed_account \<Rightarrow> token_account \<Rightarrow> token_account \<Rightarrow> u64
   \<Rightarrow> store ix_result" where
  "commit_transfer s source_info dest_info source_account dest_account amount =
     and_then (ok_or (token_err Overflow) (checked_sub (ta_amount source_account) amount)) (\<lambda>src_amount.
     let source_account = source_account\<lparr>ta_amount := src_amount\<rparr> in
     and_then (ok_or (token_err Overflow) (checked_add (ta_amount dest_account) amount)) (\<lambda>dst_amount.
     let dest_account = dest_account\<lparr>ta_amount := dst_amount\<rparr> in
     and_then (if is_native source_account
               then and_then (ok_or (token_err Overflow)
                                (checked_sub (ka_lamports s source_info) amount)) (\<lambda>l.
                    let s = ka_set_lamports s source_info l in
                    and_then (ok_or (token_err Overflow)
                                (checked_add (ka_lamports s dest_info) amount)) (\<lambda>l.
                    Ok (ka_set_lamports s dest_info l)))
               else Ok s) (\<lambda>s.
     and_then (pack_ka TokenAccount source_account s source_info) (\<lambda>s.
     pack_ka TokenAccount dest_account s dest_info))))"

definition process_transfer ::
  "pubkey \<Rightarrow> store \<Rightarrow> keyed_account list \<Rightarrow> u64 \<Rightarrow> u8 option \<Rightarrow> store ix_result" where
  "process_transfer program_id s accounts amount expected_decimals =
     and_then (next_keyed_account accounts) (\<lambda>(source_info, it).
     and_then (next_expected_mint expected_decimals it) (\<lambda>(expected_mint_info, it).
     and_then (next_keyed_account it) (\<lambda>(dest_info, it).
     and_then (next_keyed_account it) (\<lambda>(authority_info, it).
     and_then (unpack_ka TokenAccount s source_info) (\<lambda>source_account.
     and_then (unpack_ka TokenAccount s dest_info) (\<lambda>dest_account.
       if is_frozen source_account \<or> is_frozen dest_account then Err (token_err AccountFrozen)
       else if ta_amount source_account < amount then Err (token_err InsufficientFunds)
       else if \<not> cmp_pubkeys (ta_mint source_account) (ta_mint dest_account)
       then Err (token_err MintMismatch)
       else
         and_then (check_expected_mint s source_account expected_mint_info) (\<lambda>_.
         let self_transfer = cmp_pubkeys (unsigned_key source_info) (unsigned_key dest_info) in
         and_then (debit_authority program_id s source_account authority_info it amount self_transfer) (\<lambda>source_account.
         and_then (if self_transfer \<or> amount = 0
                   then and_then (check_account_owner program_id s source_info) (\<lambda>_.
                        check_account_owner program_id s dest_info)
                   else Ok ()) (\<lambda>_.
           if self_transfer then Ok s
           else commit_transfer s source_info dest_info source_account dest_account amount)))))))))"

definition process_approve ::
  "pubkey \<Rightarrow> store \<Rightarrow> keyed_account list \<Rightarrow> u64 \<Rightarrow> u8 option \<Rightarrow> store ix_result" where
  "process_approve program_id s accounts amount expected_decimals =
     and_then (next_keyed_account accounts) (\<lambda>(source_info, it).
     and_then (next_expected_mint expected_decimals it) (\<lambda>(expected_mint_info, it).
     and_then (next_keyed_account it) (\<lambda>(delegate_info, it).
     and_then (next_keyed_account it) (\<lambda>(owner_info, it).
     and_then (unpack_ka TokenAccount s source_info) (\<lambda>source_account.
       if is_frozen source_account then Err (token_err AccountFrozen)
       else
         and_then (check_expected_mint s source_account expected_mint_info) (\<lambda>_.
         and_then (validate_owner program_id s (ta_owner source_account) owner_info it) (\<lambda>_.
         pack_ka TokenAccount
           (source_account\<lparr>ta_delegate := Some (unsigned_key delegate_info),
                           ta_delegated_amount := amount\<rparr>) s source_info)))))))"

definition process_revoke :: "pubkey \<Rightarrow> store \<Rightarrow> keyed_account list \<Rightarrow> store ix_result" where
  "process_revoke program_id s accounts =
     and_then (next_keyed_account accounts) (\<lambda>(source_info, it).
     and_then (unpack_ka TokenAccount s source_info) (\<lambda>source_account.
     and_then (next_keyed_account it) (\<lambda>(owner_info, it).
       if is_frozen source_account then Err (token_err AccountFrozen)
       else
         and_then (validate_owner program_id s (ta_owner source_account) owner_info it) (\<lambda>_.
         pack_ka TokenAccount
           (source_account\<lparr>ta_delegate := None, ta_delegated_amount := 0\<rparr>) s source_info))))"

section \<open>Authorities\<close>

definition unwrap_or :: "'a option \<Rightarrow> 'a \<Rightarrow> 'a" where
  "unwrap_or x d = (case x of Some y \<Rightarrow> y | None \<Rightarrow> d)"

definition set_account_authority ::
  "pubkey \<Rightarrow> store \<Rightarrow> token_account \<Rightarrow> authority_type \<Rightarrow> pubkey option \<Rightarrow> keyed_account
   \<Rightarrow> keyed_account list \<Rightarrow> token_account ix_result" where
  "set_account_authority program_id s acct authority_type new_authority authority_info it =
     (if is_frozen acct then Err (token_err AccountFrozen)
      else case authority_type of
        AccountOwner \<Rightarrow>
          and_then (validate_owner program_id s (ta_owner acct) authority_info it) (\<lambda>_.
          and_then (case new_authority of
                      Some authority \<Rightarrow> Ok (acct\<lparr>ta_owner := authority\<rparr>)
                    | None \<Rightarrow> Err (token_err InvalidInstruction)) (\<lambda>acct.
          let acct = acct\<lparr>ta_delegate := None, ta_delegated_amount := 0\<rparr> in
          Ok (if is_native acct then acct\<lparr>ta_close_authority := None\<rparr> else acct)))
      | CloseAccountAuthority \<Rightarrow>
          and_then (validate_owner program_id s (unwrap_or (ta_close_authority acct) (ta_owner acct))
                      authority_info it) (\<lambda>_.
          Ok (acct\<lparr>ta_close_authority := new_authority\<rparr>))
      | _ \<Rightarrow> Err (token_err AuthorityTypeNotSupported))"

definition set_mint_authority ::
  "pubkey \<Rightarrow> store \<Rightarrow> mint \<Rightarrow> authority_type \<Rightarrow> pubkey option \<Rightarrow> keyed_account
   \<Rightarrow> keyed_account list \<Rightarrow> mint ix_result" where
  "set_mint_authority program_id s mint authority_type new_authority authority_info it =
     (case authority_type of
        MintTokens \<Rightarrow>
          and_then (ok_or (token_err FixedSupply) (m_mint_authority mint)) (\<lambda>mint_authority.
          and_then (validate_owner program_id s mint_authority authority_info it) (\<lambda>_.
          Ok (mint\<lparr>m_mint_authority := new_authority\<rparr>)))
      | FreezeAccountAuthority \<Rightarrow>
          and_then (ok_or (token_err MintCannotFreeze) (m_freeze_authority mint)) (\<lambda>freeze_authority.
          and_then (validate_owner program_id s freeze_authority authority_info it) (\<lambda>_.
          Ok (mint\<lparr>m_freeze_authority := new_authority\<rparr>)))
      | _ \<Rightarrow> Err (token_err AuthorityTypeNotSupported))"

definition process_set_authority ::
  "pubkey \<Rightarrow> store \<Rightarrow> keyed_account list \<Rightarrow> authority_type \<Rightarrow> pubkey option \<Rightarrow> store ix_result" where
  "process_set_authority program_id s accounts authority_type new_authority =
     and_then (next_keyed_account accounts) (\<lambda>(account_info, it).
     and_then (next_keyed_account it) (\<lambda>(authority_info, it).
       if ka_data_len s account_info = pk_len TokenAccount
       then and_then (unpack_ka TokenAccount s account_info) (\<lambda>acct.
            and_then (set_account_authority program_id s acct authority_type new_authority
                        authority_info it) (\<lambda>acct.
            pack_ka TokenAccount acct s account_info))
       else if ka_data_len s account_info = pk_len Mint
       then and_then (unpack_ka Mint s account_info) (\<lambda>mint.
            and_then (set_mint_authority program_id s mint authority_type new_authority
                        authority_info it) (\<lambda>mint.
            pack_ka Mint mint s account_info))
       else Err InvalidArgument))"

section \<open>Mint, burn, close, freeze, sync\<close>

definition process_mint_to ::
  "pubkey \<Rightarrow> store \<Rightarrow> keyed_account list \<Rightarrow> u64 \<Rightarrow> u8 option \<Rightarrow> store ix_result" where
  "process_mint_to program_id s accounts amount expected_decimals =
     and_then (next_keyed_account accounts) (\<lambda>(mint_info, it).
     and_then (next_keyed_account it) (\<lambda>(dest_info, it).
     and_then (next_keyed_account it) (\<lambda>(owner_info, it).
     and_then (unpack_ka TokenAccount s dest_info) (\<lambda>dest_account.
       if is_frozen dest_account then Err (token_err AccountFrozen)
       else if is_native dest_account then Err (token_err NativeNotSupported)
       else if \<not> cmp_pubkeys (unsigned_key mint_info) (ta_mint dest_account)
       then Err (token_err MintMismatch)
       else
         and_then (unpack_ka Mint s mint_info) (\<lambda>mint.
           if (case expected_decimals of Some d \<Rightarrow> d \<noteq> m_decimals mint | None \<Rightarrow> False)
           then Err (token_err MintDecimalsMismatch)
           else
             and_then (case m_mint_authority mint of
                         Some mint_authority \<Rightarrow> validate_owner program_id s mint_authority owner_info it
                       | None \<Rightarrow> Err (token_err FixedSupply)) (\<lambda>_.
             and_then (if amount = 0
                       then and_then (check_account_owner program_id s mint_info) (\<lambda>_.
                            check_account_owner program_id s dest_info)
                       else Ok ()) (\<lambda>_.
             and_then (ok_or (token_err Overflow) (checked_add (ta_amount dest_account) amount)) (\<lambda>dst_amount.
             and_then (ok_or (token_err Overflow) (checked_add (m_supply mint) amount)) (\<lambda>supply.
             and_then (pack_ka TokenAccount (dest_account\<lparr>ta_amount := dst_amount\<rparr>) s dest_info) (\<lambda>s.
             pack_ka Mint (mint\<lparr>m_supply := supply\<rparr>) s mint_info))))))))))"

definition process_burn ::
  "pubkey \<Rightarrow> store \<Rightarrow> keyed_account list \<Rightarrow> u64 \<Rightarrow> u8 option \<Rightarrow> store ix_result" where
  "process_burn program_id s accounts amount expected_decimals =
     and_then (next_keyed_account accounts) (\<lambda>(source_info, it).
     and_then (next_keyed_account it) (\<lambda>(mint_info, it).
     and_then (next_keyed_account it) (\<lambda>(authority_info, it).
     and_then (unpack_ka TokenAccount s source_info) (\<lambda>source_account.
     and_then (unpack_ka Mint s mint_info) (\<lambda>mint.
       if is_frozen source_account then Err (token_err AccountFrozen)
       else if is_native source_account then Err (token_err NativeNotSupported)
       else if ta_amount source_account < amount then Err (token_err InsufficientFunds)
       else if \<not> cmp_pubkeys (unsigned_key mint_info) (ta_mint source_account)
       then Err (token_err MintMismatch)
       else if (case expected_decimals of Some d \<Rightarrow> d \<noteq> m_decimals mint | None \<Rightarrow> False)
       then Err (token_err MintDecimalsMismatch)
       else
         and_then (debit_authority program_id s source_account authority_info it amount False) (\<lambda>source_account.
         and_then (if amount = 0
                   then and_then (check_account_owner program_id s source_info) (\<lambda>_.
                        check_account_owner program_id s mint_info)
                   else Ok ()) (\<lambda>_.
         and_then (ok_or (token_err Overflow) (checked_sub (ta_amount source_account) amount)) (\<lambda>src_amount.
         and_then (ok_or (token_err Overflow) (checked_sub (m_supply mint) amount)) (\<lambda>supply.
         and_then (pack_ka TokenAccount (source_account\<lparr>ta_amount := src_amount\<rparr>) s source_info) (\<lambda>s.
         pack_ka Mint (mint\<lparr>m_supply := supply\<rparr>) s mint_info))))))))))"

definition process_close_account :: "pubkey \<Rightarrow> store \<Rightarrow> keyed_account list \<Rightarrow> store ix_result" where
  "process_close_account program_id s accounts =
     and_then (next_keyed_account accounts) (\<lambda>(source_info, it).
     and_then (next_keyed_account it) (\<lambda>(dest_info, it).
     and_then (next_keyed_account it) (\<lambda>(authority_info, it).
       if cmp_pubkeys (unsigned_key source_info) (unsigned_key dest_info) then Err InvalidAccountData
       else
         and_then (unpack_ka TokenAccount s source_info) (\<lambda>source_account.
           if \<not> is_native source_account \<and> ta_amount source_account \<noteq> 0
           then Err (token_err NonNativeHasBalance)
           else
             and_then (validate_owner program_id s
                         (unwrap_or (ta_close_authority source_account) (ta_owner source_account))
                         authority_info it) (\<lambda>_.
             and_then (ok_or (token_err Overflow)
                         (checked_add (ka_lamports s dest_info) (ka_lamports s source_info))) (\<lambda>l.
             let s = ka_set_lamports s dest_info l;
                 s = ka_set_lamports s source_info 0
             in Ok (ka_set_data s source_info
                      (unsafe_memset (data (cell s source_info)) 0 (pk_len TokenAccount)))))))))"

definition process_toggle_freeze_account ::
  "pubkey \<Rightarrow> store \<Rightarrow> keyed_account list \<Rightarrow> bool \<Rightarrow> store ix_result" where
  "process_toggle_freeze_account program_id s accounts freeze =
     and_then (next_keyed_account accounts) (\<lambda>(source_info, it).
     and_then (next_keyed_account it) (\<lambda>(mint_info, it).
     and_then (next_keyed_account it) (\<lambda>(authority_info, it).
     and_then (unpack_ka TokenAccount s source_info) (\<lambda>source_account.
       if freeze \<and> is_frozen source_account \<or> \<not> freeze \<and> \<not> is_frozen source_account
       then Err (token_err InvalidState)
       else if is_native source_account then Err (token_err NativeNotSupported)
       else if \<not> cmp_pubkeys (unsigned_key mint_info) (ta_mint source_account)
       then Err (token_err MintMismatch)
       else
         and_then (unpack_ka Mint s mint_info) (\<lambda>mint.
         and_then (case m_freeze_authority mint of
                     Some authority \<Rightarrow> validate_owner program_id s authority authority_info it
                   | None \<Rightarrow> Err (token_err MintCannotFreeze)) (\<lambda>_.
         pack_ka TokenAccount
           (source_account\<lparr>ta_state := if freeze then Frozen else Initialized\<rparr>) s source_info))))))"

definition process_sync_native :: "pubkey \<Rightarrow> store \<Rightarrow> keyed_account list \<Rightarrow> store ix_result" where
  "process_sync_native program_id s accounts =
     and_then (next_keyed_account accounts) (\<lambda>(native_info, it).
     and_then (check_account_owner program_id s native_info) (\<lambda>_.
     and_then (unpack_ka TokenAccount s native_info) (\<lambda>native_account.
       case ta_is_native native_account of
         Some reserve \<Rightarrow>
           and_then (ok_or (token_err Overflow) (checked_sub (ka_lamports s native_info) reserve)) (\<lambda>new_amount.
             if new_amount < ta_amount native_account then Err (token_err InvalidState)
             else pack_ka TokenAccount (native_account\<lparr>ta_amount := new_amount\<rparr>) s native_info)
       | None \<Rightarrow> Err (token_err NonNativeNotSupported))))"

section \<open>Dispatch\<close>

fun process_token_instruction ::
  "pubkey \<Rightarrow> store \<Rightarrow> keyed_account list \<Rightarrow> token_instruction \<Rightarrow> store ix_result" where
  "process_token_instruction program_id s accounts (InitializeMint name symbol decimals auth freeze) =
     process_initialize_mint s accounts name symbol decimals auth freeze"
| "process_token_instruction program_id s accounts InitializeAccount =
     process_initialize_account program_id s accounts"
| "process_token_instruction program_id s accounts (InitializeAccount2 owner') =
     process_initialize_account2 program_id s accounts owner'"
| "process_token_instruction program_id s accounts (InitializeMultisig m) =
     process_initialize_multisig s accounts m"
| "process_token_instruction program_id s accounts (Transfer amount) =
     process_transfer program_id s accounts amount None"
| "process_token_instruction program_id s accounts (Approve amount) =
     process_approve program_id s accounts amount None"
| "process_token_instruction program_id s accounts Revoke =
     process_revoke program_id s accounts"
| "process_token_instruction program_id s accounts (SetAuthority ty new_authority) =
     process_set_authority program_id s accounts ty new_authority"
| "process_token_instruction program_id s accounts (MintTo amount) =
     process_mint_to program_id s accounts amount None"
| "process_token_instruction program_id s accounts (Burn amount) =
     process_burn program_id s accounts amount None"
| "process_token_instruction program_id s accounts CloseAccount =
     process_close_account program_id s accounts"
| "process_token_instruction program_id s accounts FreezeAccount =
     process_toggle_freeze_account program_id s accounts True"
| "process_token_instruction program_id s accounts ThawAccount =
     process_toggle_freeze_account program_id s accounts False"
| "process_token_instruction program_id s accounts (TransferChecked amount decimals) =
     process_transfer program_id s accounts amount (Some decimals)"
| "process_token_instruction program_id s accounts (ApproveChecked amount decimals) =
     process_approve program_id s accounts amount (Some decimals)"
| "process_token_instruction program_id s accounts (MintToChecked amount decimals) =
     process_mint_to program_id s accounts amount (Some decimals)"
| "process_token_instruction program_id s accounts (BurnChecked amount decimals) =
     process_burn program_id s accounts amount (Some decimals)"
| "process_token_instruction program_id s accounts SyncNative =
     process_sync_native program_id s accounts"

text \<open>
  The entry point: the first keyed account is the program itself, the instruction's accounts start
  at \<open>first_instruction_account\<close>, and the instruction data is decoded by \<open>limited_deserialize\<close>, whose
  format is the external \<open>bincode\<close> crate's. Slicing beyond the end panics.
\<close>

definition process_instruction ::
  "(u8 list \<Rightarrow> token_instruction option) \<Rightarrow> store \<Rightarrow> keyed_account list \<Rightarrow> nat \<Rightarrow> u8 list
   \<Rightarrow> store ix_result" where
  "process_instruction limited_deserialize s keyed_accounts first_instruction_account ix_data =
     and_then (keyed_account_at_index keyed_accounts 0) (\<lambda>program_account.
       if length keyed_accounts < first_instruction_account then Panic
       else and_then (ok_or InvalidInstructionData (limited_deserialize ix_data))
              (process_token_instruction (unsigned_key program_account) s
                 (drop first_instruction_account keyed_accounts)))"

end
