(* ===== verification/Token_Spec.thy ===== *)
theory Token_Spec
  imports Token_Processor
begin

text \<open>
  The abstract specification of the token program: a ledger of token accounts, mints and lamports,
  and the steps it may take. \<open>ledger_inv\<close> says that the supply of a mint is what its accounts hold
  and that wrapped accounts are backed by lamports; every step keeps it.
\<close>

section \<open>Ledgers\<close>

record ledger =
  accts :: "pubkey \<Rightarrow> token_account option"
  mints :: "pubkey \<Rightarrow> mint option"
  funds :: "pubkey \<Rightarrow> nat"

definition holding :: "token_account option \<Rightarrow> pubkey \<Rightarrow> nat" where
  "holding x m = (case x of Some a \<Rightarrow> if ta_mint a = m then unat (ta_amount a) else 0 | None \<Rightarrow> 0)"

definition circulating :: "ledger \<Rightarrow> pubkey \<Rightarrow> nat" where
  "circulating L m = (\<Sum>k\<in>UNIV. holding (accts L k) m)"

definition same_holding :: "token_account \<Rightarrow> token_account \<Rightarrow> bool" where
  "same_holding a a' \<longleftrightarrow>
     ta_mint a' = ta_mint a \<and> ta_amount a' = ta_amount a \<and> ta_is_native a' = ta_is_native a"

text \<open>The account \<open>a'\<close> is the account \<open>a\<close> with another amount.\<close>

definition changed_amount :: "token_account \<Rightarrow> token_account \<Rightarrow> bool" where
  "changed_amount a a' \<longleftrightarrow> ta_mint a' = ta_mint a \<and> ta_is_native a' = ta_is_native a"

section \<open>Steps\<close>

inductive ledger_step :: "ledger \<Rightarrow> ledger \<Rightarrow> bool" where
  Idle: "accts L' = accts L \<Longrightarrow> mints L' = mints L \<Longrightarrow> (\<And>k. accts L k \<noteq> None \<Longrightarrow> funds L k \<le> funds L' k) \<Longrightarrow>
    ledger_step L L'"
| New_Mint: "mints L k = Some m \<Longrightarrow> \<not> m_is_initialized m \<Longrightarrow> m_supply m' = m_supply m \<Longrightarrow>
    ledger_step L (L\<lparr>mints := (mints L)(k \<mapsto> m')\<rparr>)"
| New_Account: "accts L k = None \<Longrightarrow> \<not> is_native a \<Longrightarrow> ta_amount a = 0 \<Longrightarrow> ta_mint a \<noteq> native_mint_id \<Longrightarrow>
    mints L (ta_mint a) = Some m \<Longrightarrow> m_is_initialized m \<Longrightarrow>
    ledger_step L (L\<lparr>accts := (accts L)(k \<mapsto> a)\<rparr>)"
| New_Native: "accts L k = None \<Longrightarrow> ta_is_native a = Some r \<Longrightarrow> ta_mint a = native_mint_id \<Longrightarrow>
    funds L k = unat r + unat (ta_amount a) \<Longrightarrow>
    ledger_step L (L\<lparr>accts := (accts L)(k \<mapsto> a)\<rparr>)"
| Update: "accts L k = Some a \<Longrightarrow> same_holding a a' \<Longrightarrow>
    ledger_step L (L\<lparr>accts := (accts L)(k \<mapsto> a')\<rparr>)"
| Update_Mint: "mints L k = Some m \<Longrightarrow> m_is_initialized m \<Longrightarrow> m_is_initialized m' \<Longrightarrow> m_supply m' = m_supply m \<Longrightarrow>
    ledger_step L (L\<lparr>mints := (mints L)(k \<mapsto> m')\<rparr>)"
| Sync: "accts L k = Some a \<Longrightarrow> ta_is_native a = Some r \<Longrightarrow> funds L k = unat r + unat n \<Longrightarrow>
    ledger_step L (L\<lparr>accts := (accts L)(k \<mapsto> a\<lparr>ta_amount := n\<rparr>)\<rparr>)"
| Move: "i \<noteq> j \<Longrightarrow> accts L i = Some a \<Longrightarrow> accts L j = Some b \<Longrightarrow> ta_mint a = ta_mint b \<Longrightarrow>
    changed_amount a a' \<Longrightarrow> changed_amount b b' \<Longrightarrow>
    unat (ta_amount a) = n + unat (ta_amount a') \<Longrightarrow> unat (ta_amount b') = unat (ta_amount b) + n \<Longrightarrow>
    (if is_native a then funds L i = n + f i \<and> f j = funds L j + n \<and> (\<forall>k. k \<noteq> i \<longrightarrow> k \<noteq> j \<longrightarrow> f k = funds L k)
     else f = funds L) \<Longrightarrow>
    ledger_step L (L\<lparr>accts := (accts L)(i \<mapsto> a', j \<mapsto> b'), funds := f\<rparr>)"
| Mint_To: "accts L k = Some a \<Longrightarrow> \<not> is_native a \<Longrightarrow> mints L (ta_mint a) = Some m \<Longrightarrow> m_is_initialized m \<Longrightarrow>
    changed_amount a a' \<Longrightarrow> unat (ta_amount a') = unat (ta_amount a) + n \<Longrightarrow>
    m_is_initialized m' \<Longrightarrow> unat (m_supply m') = unat (m_supply m) + n \<Longrightarrow>
    ledger_step L (L\<lparr>accts := (accts L)(k \<mapsto> a'), mints := (mints L)(ta_mint a \<mapsto> m')\<rparr>)"
| Burn: "accts L k = Some a \<Longrightarrow> \<not> is_native a \<Longrightarrow> mints L (ta_mint a) = Some m \<Longrightarrow> m_is_initialized m \<Longrightarrow>
    changed_amount a a' \<Longrightarrow> unat (ta_amount a) = n + unat (ta_amount a') \<Longrightarrow>
    m_is_initialized m' \<Longrightarrow> unat (m_supply m) = n + unat (m_supply m') \<Longrightarrow>
    ledger_step L (L\<lparr>accts := (accts L)(k \<mapsto> a'), mints := (mints L)(ta_mint a \<mapsto> m')\<rparr>)"
| Close: "accts L i = Some a \<Longrightarrow> is_native a \<or> ta_amount a = 0 \<Longrightarrow> i \<noteq> j \<Longrightarrow>
    f i = 0 \<Longrightarrow> f j = funds L j + funds L i \<Longrightarrow> (\<And>k. k \<noteq> i \<Longrightarrow> k \<noteq> j \<Longrightarrow> f k = funds L k) \<Longrightarrow>
    ledger_step L (L\<lparr>accts := (accts L)(i := None), funds := f\<rparr>)"
| Outside: "accts L' = accts L \<Longrightarrow>
    (\<And>k. mints L' k = mints L k
       \<or> (mints L k = None \<or> (\<exists>m. mints L k = Some m \<and> \<not> m_is_initialized m))
         \<and> (mints L' k = None \<or> (\<exists>m. mints L' k = Some m \<and> \<not> m_is_initialized m \<and> m_supply m = 0))) \<Longrightarrow>
    (\<And>k. accts L k \<noteq> None \<Longrightarrow> funds L k \<le> funds L' k) \<Longrightarrow>
    ledger_step L L'"

inductive_cases ledger_stepE: "ledger_step L L'"

section \<open>The invariant\<close>

definition ledger_inv :: "ledger \<Rightarrow> bool" where
  "ledger_inv L \<longleftrightarrow>
     (\<forall>k m. mints L k = Some m \<and> k \<noteq> native_mint_id \<longrightarrow> unat (m_supply m) = circulating L k)
     \<and> (\<forall>k a. accts L k = Some a \<longrightarrow>
          (is_native a \<longleftrightarrow> ta_mint a = native_mint_id)
          \<and> (\<not> is_native a \<longrightarrow> (\<exists>m. mints L (ta_mint a) = Some m \<and> m_is_initialized m))
          \<and> (\<forall>r. ta_is_native a = Some r \<longrightarrow> unat r + unat (ta_amount a) \<le> funds L k))"

lemma circulating_upd:
  "circulating (L\<lparr>accts := (accts L)(k := x)\<rparr>) m + holding (accts L k) m = circulating L m + holding x m"
proof -
  let ?f = "\<lambda>j. holding (accts L j) m"
  have "(\<lambda>j. holding (((accts L)(k := x)) j) m) = ?f(k := holding x m)"
    by (simp add: fun_eq_iff)
  moreover have "accts (L\<lparr>accts := (accts L)(k := x)\<rparr>) = (accts L)(k := x)" by simp
  ultimately have "circulating (L\<lparr>accts := (accts L)(k := x)\<rparr>) m = sum (?f(k := holding x m)) UNIV"
    by (simp only: circulating_def)
  with sum_fun_upd [OF finite UNIV_I, of ?f k "holding x m"] show ?thesis
    by (simp only: circulating_def)
qed

lemma circulating_cong: "accts L' = accts L \<Longrightarrow> circulating L' = circulating L"
  by (simp add: circulating_def fun_eq_iff)

lemma circulating_upds [simp]:
  "circulating (L\<lparr>mints := x\<rparr>) = circulating L" "circulating (L\<lparr>funds := f\<rparr>) = circulating L"
  by (rule circulating_cong, simp)+

lemma holding_simps [simp]:
  "holding None m = 0" "holding (Some a) m = (if ta_mint a = m then unat (ta_amount a) else 0)"
  by (simp_all add: holding_def)

section \<open>Every step keeps the invariant\<close>

lemma ledger_invI:
  assumes "\<And>k m. mints L k = Some m \<Longrightarrow> k \<noteq> native_mint_id \<Longrightarrow> unat (m_supply m) = circulating L k"
    and "\<And>k a. accts L k = Some a \<Longrightarrow> is_native a \<longleftrightarrow> ta_mint a = native_mint_id"
    and "\<And>k a. accts L k = Some a \<Longrightarrow> \<not> is_native a \<Longrightarrow> \<exists>m. mints L (ta_mint a) = Some m \<and> m_is_initialized m"
    and "\<And>k a r. accts L k = Some a \<Longrightarrow> ta_is_native a = Some r \<Longrightarrow> unat r + unat (ta_amount a) \<le> funds L k"
  shows "ledger_inv L"
  using assms unfolding ledger_inv_def by blast

lemma ledger_invD:
  assumes "ledger_inv L"
  shows "mints L k = Some m \<Longrightarrow> k \<noteq> native_mint_id \<Longrightarrow> unat (m_supply m) = circulating L k"
    and "accts L k = Some a \<Longrightarrow> is_native a \<longleftrightarrow> ta_mint a = native_mint_id"
    and "accts L k = Some a \<Longrightarrow> \<not> is_native a \<Longrightarrow> \<exists>m. mints L (ta_mint a) = Some m \<and> m_is_initialized m"
    and "accts L k = Some a \<Longrightarrow> ta_is_native a = Some r \<Longrightarrow> unat r + unat (ta_amount a) \<le> funds L k"
  using assms unfolding ledger_inv_def by blast+

text \<open>No account holds tokens of a mint that does not exist or is not initialized.\<close>

lemma circulating_none:
  assumes "ledger_inv L" and "\<And>m. mints L k = Some m \<Longrightarrow> \<not> m_is_initialized m" and "k \<noteq> native_mint_id"
  shows "circulating L k = 0"
proof -
  have "holding (accts L j) k = 0" for j
  proof (cases "accts L j")
    case (Some a)
    then have "ta_mint a \<noteq> k"
      using ledger_invD(2,3) [OF assms(1) Some] assms(2,3) by auto
    with Some show ?thesis by simp
  qed simp
  then show ?thesis by (simp add: circulating_def)
qed

lemma is_native_cong: "ta_is_native a' = ta_is_native a \<Longrightarrow> is_native a' = is_native a"
  by (simp add: is_native_def)

text \<open>A write of one account that keeps its mint and its kind.\<close>

lemma write_account_inv:
  assumes inv: "ledger_inv L" and k: "accts L k = Some a" and c: "changed_amount a a'"
    and s: "\<And>j m'. M j = Some m' \<Longrightarrow> j \<noteq> native_mint_id \<Longrightarrow>
              unat (m_supply m') + (if j = ta_mint a then unat (ta_amount a) else 0)
              = circulating L j + (if j = ta_mint a then unat (ta_amount a') else 0)"
    and i: "\<And>j m. mints L j = Some m \<Longrightarrow> m_is_initialized m \<Longrightarrow> \<exists>m'. M j = Some m' \<and> m_is_initialized m'"
    and b: "\<And>r. ta_is_native a = Some r \<Longrightarrow> unat r + unat (ta_amount a') \<le> F k"
    and F: "\<And>j. j \<noteq> k \<Longrightarrow> accts L j \<noteq> None \<Longrightarrow> funds L j \<le> F j"
  shows "ledger_inv (L\<lparr>accts := (accts L)(k \<mapsto> a'), mints := M, funds := F\<rparr>)"
proof (rule ledger_invI)
  have n: "is_native a' = is_native a" "ta_is_native a' = ta_is_native a" "ta_mint a' = ta_mint a"
    using c by (auto simp: changed_amount_def is_native_def)
  let ?L = "L\<lparr>accts := (accts L)(k \<mapsto> a'), mints := M, funds := F\<rparr>"
  show "unat (m_supply m') = circulating ?L j" if "mints ?L j = Some m'" "j \<noteq> native_mint_id" for j m'
  proof -
    have "circulating ?L j = circulating (L\<lparr>accts := (accts L)(k \<mapsto> a')\<rparr>) j"
      by (simp add: circulating_def)
    then show ?thesis
      using circulating_upd [of L k "Some a'" j] s [of j m'] that k n(3) by (simp split: if_splits)
  qed
  show "is_native x = (ta_mint x = native_mint_id)" if "accts ?L j = Some x" for j x
    using that ledger_invD(2) [OF inv] k n by (auto split: if_splits)
  show "\<exists>m. mints ?L (ta_mint x) = Some m \<and> m_is_initialized m" if "accts ?L j = Some x" "\<not> is_native x" for j x
  proof -
    have "\<exists>m. mints L (ta_mint x) = Some m \<and> m_is_initialized m"
    proof (cases "j = k")
      case True
      then have "x = a'" using that(1) by simp
      then show ?thesis
        using ledger_invD(3) [OF inv k] that(2) n by simp
    next
      case False
      then have "accts L j = Some x" using that(1) by simp
      from ledger_invD(3) [OF inv this that(2)] show ?thesis .
    qed
    with i show ?thesis by auto
  qed
  show "unat r + unat (ta_amount x) \<le> funds ?L j" if "accts ?L j = Some x" "ta_is_native x = Some r" for j x r
  proof (cases "j = k")
    case True
    then show ?thesis using that b n(2) by simp
  next
    case False
    then have "unat r + unat (ta_amount x) \<le> funds L j" "accts L j \<noteq> None"
      using that ledger_invD(4) [OF inv, of j x r] by auto
    with F [of j] False show ?thesis by simp
  qed
qed

lemma write_mint_inv:
  assumes inv: "ledger_inv L" and k: "mints L k = Some m" and "m_supply m' = m_supply m"
    and "m_is_initialized m \<Longrightarrow> m_is_initialized m'"
  shows "ledger_inv (L\<lparr>mints := (mints L)(k \<mapsto> m')\<rparr>)"
proof (rule ledger_invI)
  let ?L = "L\<lparr>mints := (mints L)(k \<mapsto> m')\<rparr>"
  show "unat (m_supply x) = circulating ?L j" if "mints ?L j = Some x" "j \<noteq> native_mint_id" for j x
    using that ledger_invD(1) [OF inv] k assms(3) by (auto split: if_splits)
  show "\<exists>m. mints ?L (ta_mint a) = Some m \<and> m_is_initialized m" if "accts ?L j = Some a" "\<not> is_native a" for j a
    using that ledger_invD(3) [OF inv, of j a] k assms(4) by auto
  show "is_native a = (ta_mint a = native_mint_id)" if "accts ?L j = Some a" for j a
    using that ledger_invD(2) [OF inv] by simp
  show "unat r + unat (ta_amount a) \<le> funds ?L j" if "accts ?L j = Some a" "ta_is_native a = Some r" for j a r
    using that ledger_invD(4) [OF inv] by simp
qed

lemma new_account_inv:
  assumes inv: "ledger_inv L" and k: "accts L k = None" and n: "is_native a \<longleftrightarrow> ta_mint a = native_mint_id"
    and m: "\<not> is_native a \<Longrightarrow> ta_amount a = 0 \<and> (\<exists>m. mints L (ta_mint a) = Some m \<and> m_is_initialized m)"
    and b: "\<And>r. ta_is_native a = Some r \<Longrightarrow> unat r + unat (ta_amount a) \<le> funds L k"
  shows "ledger_inv (L\<lparr>accts := (accts L)(k \<mapsto> a)\<rparr>)"
proof (rule ledger_invI)
  let ?L = "L\<lparr>accts := (accts L)(k \<mapsto> a)\<rparr>"
  show "unat (m_supply x) = circulating ?L j" if "mints ?L j = Some x" "j \<noteq> native_mint_id" for j x
    using that ledger_invD(1) [OF inv, of j x] circulating_upd [of L k "Some a" j] k m n by (auto split: if_splits)
  show "\<exists>m. mints ?L (ta_mint x) = Some m \<and> m_is_initialized m" if "accts ?L j = Some x" "\<not> is_native x" for j x
    using that ledger_invD(3) [OF inv, of j x] m by (auto split: if_splits)
  show "is_native x = (ta_mint x = native_mint_id)" if "accts ?L j = Some x" for j x
    using that ledger_invD(2) [OF inv, of j x] n by (auto split: if_splits)
  show "unat r + unat (ta_amount x) \<le> funds ?L j" if "accts ?L j = Some x" "ta_is_native x = Some r" for j x r
    using that ledger_invD(4) [OF inv, of j x r] b by (auto split: if_splits)
qed

lemma move_inv:
  assumes inv: "ledger_inv L" and "i \<noteq> j" and a: "accts L i = Some a" and b: "accts L j = Some b"
    and mint: "ta_mint a = ta_mint b" and c: "changed_amount a a'" "changed_amount b b'"
    and n: "unat (ta_amount a) = n + unat (ta_amount a')" "unat (ta_amount b') = unat (ta_amount b) + n"
    and f: "if is_native a then funds L i = n + f i \<and> f j = funds L j + n \<and> (\<forall>k. k \<noteq> i \<longrightarrow> k \<noteq> j \<longrightarrow> f k = funds L k)
     else f = funds L"
  shows "ledger_inv (L\<lparr>accts := (accts L)(i \<mapsto> a', j \<mapsto> b'), funds := f\<rparr>)"
proof (rule ledger_invI)
  let ?L = "L\<lparr>accts := (accts L)(i \<mapsto> a', j \<mapsto> b'), funds := f\<rparr>"
  have eq: "ta_mint a' = ta_mint a" "ta_mint b' = ta_mint b" "ta_is_native a' = ta_is_native a" "ta_is_native b' = ta_is_native b"
    using c by (auto simp: changed_amount_def)
  then have nat: "is_native a' = is_native a" "is_native b' = is_native b" "is_native a = is_native b"
    using ledger_invD(2) [OF inv a] ledger_invD(2) [OF inv b] mint by (simp_all add: is_native_def)
  have acct: "x = b' \<and> k = j \<or> x = a' \<and> k = i \<or> k \<noteq> i \<and> k \<noteq> j \<and> accts L k = Some x" if "accts ?L k = Some x" for k x
    using that by (auto split: if_splits)
  show "unat (m_supply x) = circulating ?L k" if "mints ?L k = Some x" "k \<noteq> native_mint_id" for k x
  proof -
    have "circulating ?L k = circulating (L\<lparr>accts := (accts L)(i \<mapsto> a')\<rparr>\<lparr>accts := (accts (L\<lparr>accts := (accts L)(i \<mapsto> a')\<rparr>))(j \<mapsto> b')\<rparr>) k"
      by (simp add: circulating_def)
    also have "\<dots> = circulating L k"
      using circulating_upd [of "L\<lparr>accts := (accts L)(i \<mapsto> a')\<rparr>" j "Some b'" k] circulating_upd [of L i "Some a'" k]
        a b n eq mint \<open>i \<noteq> j\<close> by (simp split: if_splits)
    finally show ?thesis
      using ledger_invD(1) [OF inv] that by simp
  qed
  show "is_native x = (ta_mint x = native_mint_id)" if "accts ?L k = Some x" for k x
    using acct [OF that] ledger_invD(2) [OF inv a] ledger_invD(2) [OF inv b] ledger_invD(2) [OF inv, of k x] eq nat by auto
  show "\<exists>m. mints ?L (ta_mint x) = Some m \<and> m_is_initialized m" if x: "accts ?L k = Some x" "\<not> is_native x" for k x
    using acct [OF x(1)] ledger_invD(3) [OF inv a] ledger_invD(3) [OF inv b] ledger_invD(3) [OF inv, of k x] eq nat x(2)
    by (elim disjE conjE) simp_all
  show "unat r + unat (ta_amount x) \<le> funds ?L k" if x: "accts ?L k = Some x" "ta_is_native x = Some r" for k x r
    using acct [OF x(1)] ledger_invD(4) [OF inv a, of r] ledger_invD(4) [OF inv b, of r] ledger_invD(4) [OF inv, of k x r]
      eq nat x(2) f n \<open>i \<noteq> j\<close> is_native_def [of x] is_native_def [of a] is_native_def [of b]
    by (elim disjE conjE) (simp_all split: if_splits)
qed

lemma close_inv:
  assumes inv: "ledger_inv L" and a: "accts L i = Some a" and e: "is_native a \<or> ta_amount a = 0" and "i \<noteq> j"
    and f: "f i = 0" "f j = funds L j + funds L i" "\<And>k. k \<noteq> i \<Longrightarrow> k \<noteq> j \<Longrightarrow> f k = funds L k"
  shows "ledger_inv (L\<lparr>accts := (accts L)(i := None), funds := f\<rparr>)"
proof (rule ledger_invI)
  let ?L = "L\<lparr>accts := (accts L)(i := None), funds := f\<rparr>"
  have acct: "k \<noteq> i \<and> accts L k = Some x" if "accts ?L k = Some x" for k x
    using that by (auto split: if_splits)
  show "unat (m_supply x) = circulating ?L k" if "mints ?L k = Some x" "k \<noteq> native_mint_id" for k x
    using that ledger_invD(1) [OF inv, of k x] ledger_invD(2) [OF inv a] e circulating_upd [of L i None k] a
    by (auto split: if_splits)
  show "is_native x = (ta_mint x = native_mint_id)" if "accts ?L k = Some x" for k x
    using acct [OF that] ledger_invD(2) [OF inv, of k x] by simp
  show "\<exists>m. mints ?L (ta_mint x) = Some m \<and> m_is_initialized m" if x: "accts ?L k = Some x" "\<not> is_native x" for k x
    using acct [OF x(1)] ledger_invD(3) [OF inv, of k x] x(2) by simp
  show "unat r + unat (ta_amount x) \<le> funds ?L k" if x: "accts ?L k = Some x" "ta_is_native x = Some r" for k x r
    using acct [OF x(1)] ledger_invD(4) [OF inv, of k x r] x(2) f by (cases "k = j") simp_all
qed

lemma outside_inv:
  assumes inv: "ledger_inv L" and A: "accts L' = accts L"
    and M: "\<And>k. mints L' k = mints L k
       \<or> (mints L k = None \<or> (\<exists>m. mints L k = Some m \<and> \<not> m_is_initialized m))
         \<and> (mints L' k = None \<or> (\<exists>m. mints L' k = Some m \<and> \<not> m_is_initialized m \<and> m_supply m = 0))"
    and F: "\<And>k. accts L k \<noteq> None \<Longrightarrow> funds L k \<le> funds L' k"
  shows "ledger_inv L'"
proof (rule ledger_invI)
  have c: "circulating L' = circulating L" using A by (rule circulating_cong)
  show "unat (m_supply x) = circulating L' k" if x: "mints L' k = Some x" "k \<noteq> native_mint_id" for k x
  proof (cases "mints L' k = mints L k")
    case True
    then show ?thesis using x ledger_invD(1) [OF inv] c by simp
  next
    case False
    with M [of k] x(1) have "m_supply x = 0" "\<And>m. mints L k = Some m \<Longrightarrow> \<not> m_is_initialized m" by auto
    then show ?thesis using circulating_none [OF inv] x(2) c by simp
  qed
  show "is_native x = (ta_mint x = native_mint_id)" if "accts L' k = Some x" for k x
    using that ledger_invD(2) [OF inv] A by simp
  show "\<exists>m. mints L' (ta_mint x) = Some m \<and> m_is_initialized m" if "accts L' k = Some x" "\<not> is_native x" for k x
  proof -
    have "accts L k = Some x" using that(1) A by simp
    from ledger_invD(3) [OF inv this that(2)] obtain m where "mints L (ta_mint x) = Some m" "m_is_initialized m"
      by blast
    then show ?thesis using M [of "ta_mint x"] by auto
  qed
  show "unat r + unat (ta_amount x) \<le> funds L' k" if "accts L' k = Some x" "ta_is_native x = Some r" for k x r
    using that ledger_invD(4) [OF inv, of k x r] F [of k] A by simp
qed

lemma ledger_step_inv:
  assumes "ledger_step L L'" and inv: "ledger_inv L"
  shows "ledger_inv L'"
  using assms(1)
proof (cases rule: ledger_step.cases)
  case Idle
  have c: "circulating L' = circulating L" using Idle(1) by (rule circulating_cong)
  show ?thesis
  proof (rule ledger_invI)
    show "unat r + unat (ta_amount a) \<le> funds L' k" if "accts L' k = Some a" "ta_is_native a = Some r" for k a r
      using Idle ledger_invD(4) [OF inv] that by (metis option.distinct(1) order_trans)
  qed (use ledger_invD(1-3) [OF inv] in \<open>simp_all only: c Idle(1,2)\<close>)
next
  case (New_Mint k m m')
  then show ?thesis using write_mint_inv [OF inv New_Mint(2)] by simp
next
  case (New_Account k a m)
  then show ?thesis
    by (simp only: New_Account(1), intro new_account_inv [OF inv New_Account(2)]) (auto simp: is_native_def)
next
  case (New_Native k a r)
  then show ?thesis
    by (simp only: New_Native(1), intro new_account_inv [OF inv New_Native(2)]) (auto simp: is_native_def)
next
  case (Update k a a')
  have "ledger_inv (L\<lparr>accts := (accts L)(k \<mapsto> a'), mints := mints L, funds := funds L\<rparr>)"
    using Update ledger_invD(1,4) [OF inv]
    by (intro write_account_inv [OF inv Update(2)]) (auto simp: same_holding_def changed_amount_def)
  then show ?thesis using Update by simp
next
  case (Update_Mint k m m')
  then show ?thesis using write_mint_inv [OF inv Update_Mint(2)] by simp
next
  case (Sync k a r n)
  have "ledger_inv (L\<lparr>accts := (accts L)(k \<mapsto> a\<lparr>ta_amount := n\<rparr>), mints := mints L, funds := funds L\<rparr>)"
    using Sync(3,4) ledger_invD(1) [OF inv] ledger_invD(2) [OF inv Sync(2)]
    by (intro write_account_inv [OF inv Sync(2)]) (auto simp: changed_amount_def is_native_def)
  then show ?thesis using Sync by simp
next
  case (Move i j a b a' b' n f)
  from move_inv [OF inv Move(2-10)] show ?thesis by (simp only: Move(1))
next
  case (Mint_To k a m a' n m')
  have "ledger_inv (L\<lparr>accts := (accts L)(k \<mapsto> a'), mints := (mints L)(ta_mint a \<mapsto> m'), funds := funds L\<rparr>)"
    using Mint_To ledger_invD(1) [OF inv] ledger_invD(4) [OF inv]
    by (intro write_account_inv [OF inv Mint_To(2)]) (auto simp: is_native_def split: if_splits)
  then show ?thesis using Mint_To by simp
next
  case (Burn k a m a' n m')
  have "ledger_inv (L\<lparr>accts := (accts L)(k \<mapsto> a'), mints := (mints L)(ta_mint a \<mapsto> m'), funds := funds L\<rparr>)"
    using Burn ledger_invD(1) [OF inv] ledger_invD(4) [OF inv]
    by (intro write_account_inv [OF inv Burn(2)]) (auto simp: is_native_def split: if_splits)
  then show ?thesis using Burn by simp
next
  case (Close i a j f)
  have "ledger_inv (L\<lparr>accts := (accts L)(i := None), funds := f\<rparr>)"
    by (rule close_inv [OF inv Close(2-6)]) (rule Close(7))
  then show ?thesis by (simp only: Close(1))
next
  case Outside
  from outside_inv [OF inv Outside] show ?thesis .
qed

text \<open>Ledgers that are reached from one with the invariant.\<close>

inductive ledger_reach :: "ledger \<Rightarrow> ledger \<Rightarrow> bool" where
  Start: "ledger_reach L L"
| Step: "ledger_reach L L' \<Longrightarrow> ledger_step L' L'' \<Longrightarrow> ledger_reach L L''"

lemma ledger_reach_inv: "ledger_reach L L' \<Longrightarrow> ledger_inv L \<Longrightarrow> ledger_inv L'"
  by (induction rule: ledger_reach.induct) (auto intro: ledger_step_inv)

end
