(* ===== verification/Token_Ledger.thy ===== *)
theory Token_Ledger
  imports Token_Processor
begin

text \<open>
  What the token handlers do, on an abstract ledger. The ledger of a store has the token accounts
  and the mints that its bytes denote. Writes of the handlers become updates of the ledger
  (\<open>view_simps\<close>), and each handler has an effect lemma: what a successful run requires of the ledger
  and how it changes it.
\<close>

section \<open>The ledger of a store\<close>

definition ta_view :: "store \<Rightarrow> pubkey \<Rightarrow> token_account option" where
  "ta_view s k = (case unpack TokenAccount (data (s k)) of Ok a \<Rightarrow> Some a | _ \<Rightarrow> None)"

definition mint_view :: "store \<Rightarrow> pubkey \<Rightarrow> mint option" where
  "mint_view s k = (case unpack_unchecked Mint (data (s k)) of Ok m \<Rightarrow> Some m | _ \<Rightarrow> None)"

named_theorems view_simps \<open>the ledger after a write\<close>

lemma ta_view_Some: "ta_view s k = Some a \<longleftrightarrow> unpack TokenAccount (data (s k)) = Ok a"
  by (auto simp: ta_view_def split: result.splits)

lemma mint_view_Some: "mint_view s k = Some m \<longleftrightarrow> unpack_unchecked Mint (data (s k)) = Ok m"
  by (auto simp: mint_view_def split: result.splits)

lemma unpack_ka_TokenAccount [ok_simps]:
  "unpack_ka TokenAccount s ka = Ok a \<longleftrightarrow> ta_view s (unsigned_key ka) = Some a"
  by (simp add: unpack_ka_def ta_view_Some)

lemma unpack_ka_Mint [ok_simps]:
  "unpack_ka Mint s ka = Ok m \<longleftrightarrow> mint_view s (unsigned_key ka) = Some m \<and> m_is_initialized m"
  by (simp add: unpack_ka_def mint_view_Some unpack_Ok_iff)

lemma unpack_unchecked_ka_Mint [ok_simps]:
  "unpack_unchecked_ka Mint s ka = Ok m \<longleftrightarrow> mint_view s (unsigned_key ka) = Some m"
  by (simp add: unpack_unchecked_ka_def mint_view_Some)

lemma ta_view_initialized: "ta_view s k = Some a \<Longrightarrow> ta_is_initialized a"
  by (simp add: ta_view_Some unpack_Ok_iff)

lemma ta_view_wrong_length: "length (data (s k)) \<noteq> 165 \<Longrightarrow> ta_view s k = None"
  by (simp add: ta_view_def unpack_def unpack_unchecked_def)

lemma mint_view_wrong_length: "length (data (s k)) \<noteq> 124 \<Longrightarrow> mint_view s k = None"
  by (simp add: mint_view_def unpack_unchecked_def)

lemma ta_view_cong: "data (s k) = data (s' k) \<Longrightarrow> ta_view s k = ta_view s' k"
  by (simp add: ta_view_def)

lemma mint_view_cong: "data (s k) = data (s' k) \<Longrightarrow> mint_view s k = mint_view s' k"
  by (simp add: mint_view_def)

text \<open>The views are disjoint: no account is read as a token account and as a mint.\<close>

lemma views_disjoint: "ta_view s k = Some a \<Longrightarrow> mint_view s k = None"
  by (rule mint_view_wrong_length) (auto simp: ta_view_Some dest: unpack_length)

section \<open>Writes\<close>

lemma pack_TokenAccount_view:
  assumes "pack_ka TokenAccount a s ka = Ok s'" and "ta_is_initialized a"
  shows "ta_view s' = (ta_view s)(unsigned_key ka \<mapsto> a)" and "mint_view s' = mint_view s"
    and "owner (s' k) = owner (s k)" and "lamports (s' k) = lamports (s k)"
    and "k \<noteq> unsigned_key ka \<Longrightarrow> s' k = s k"
proof -
  from assms(1) obtain d where s': "s' = s(unsigned_key ka := (cell s ka)\<lparr>data := d\<rparr>)"
    and d: "unpack_unchecked TokenAccount d = Ok a" "length d = 165"
      "length (data (cell s ka)) = 165"
    by (rule ta_format.pack_ka_Ok) simp
  show "ta_view s' = (ta_view s)(unsigned_key ka \<mapsto> a)"
    using d(1) assms(2) by (auto simp: s' ta_view_def unpack_def fun_eq_iff)
  show "mint_view s' = mint_view s"
    using d(2,3) by (auto simp: s' mint_view_def unpack_unchecked_def)
qed (use assms(1) in \<open>auto simp: pack_ka_def ok_simps store_simps\<close>)

lemma pack_Mint_view:
  assumes "pack_ka Mint m s ka = Ok s'"
  shows "ta_view s' = ta_view s" and "mint_view s' = (mint_view s)(unsigned_key ka \<mapsto> mint_canon m)"
    and "owner (s' k) = owner (s k)" and "lamports (s' k) = lamports (s k)"
    and "k \<noteq> unsigned_key ka \<Longrightarrow> s' k = s k"
proof -
  from assms(1) obtain d where s': "s' = s(unsigned_key ka := (cell s ka)\<lparr>data := d\<rparr>)"
    and d: "unpack_unchecked Mint d = Ok (mint_canon m)" "length d = 124"
      "length (data (cell s ka)) = 124"
    by (rule mint_format.pack_ka_Ok) simp
  show "ta_view s' = ta_view s"
    using d(2,3) by (auto simp: s' ta_view_def unpack_def unpack_unchecked_def)
  show "mint_view s' = (mint_view s)(unsigned_key ka \<mapsto> mint_canon m)"
    using d(1) by (auto simp: s' mint_view_def)
qed (use assms(1) in \<open>auto simp: pack_ka_def ok_simps store_simps\<close>)

lemma pack_Multisig_view:
  assumes "pack_ka Multisig m s ka = Ok s'"
  shows "ta_view s' = ta_view s" and "mint_view s' = mint_view s"
    and "owner (s' k) = owner (s k)" and "lamports (s' k) = lamports (s k)"
proof -
  from assms(1) obtain d where s': "s' = s(unsigned_key ka := (cell s ka)\<lparr>data := d\<rparr>)"
    and d: "length d = 355" "length (data (cell s ka)) = 355"
    by (rule multisig_format.pack_ka_Ok) simp
  show "ta_view s' = ta_view s" "mint_view s' = mint_view s"
    using d by (auto simp: s' ta_view_def mint_view_def unpack_def unpack_unchecked_def)
qed (use assms(1) in \<open>auto simp: pack_ka_def ok_simps store_simps\<close>)

lemma set_lamports_view [view_simps]:
  "ta_view (ka_set_lamports s ka l) = ta_view s" "mint_view (ka_set_lamports s ka l) = mint_view s"
  "owner (ka_set_lamports s ka l k) = owner (s k)"
  by (auto simp: store_simps ta_view_def mint_view_def)

text \<open>Zeroed data is an uninitialized token account.\<close>

lemma unpack_zeroed: "unpack TokenAccount (replicate 165 0) = Err UninitializedAccount"
proof -
  have "slice_at n k (replicate 165 0) = replicate k (0::u8)" if "n + k \<le> 165" for n k
    using that by (simp add: slice_at_def)
  moreover have "unpack_option_key (replicate 36 0) = Ok None"
      and "unpack_option_u64 (replicate 12 0) = Ok None"
    by (simp_all add: unpack_option_key_def unpack_option_u64_def slice_at_def numeral_eq_Suc)
  ultimately obtain a where "ta_unpack_from_slice (replicate 165 0) = Ok a"
      and "ta_state a = Uninitialized"
    by (simp add: ta_unpack_from_slice_def try_from_primitive_def)
  then show ?thesis
    by (simp add: unpack_def unpack_unchecked_def TokenAccount_def ta_is_initialized_def)
qed

end
