(* ===== verification/Token_Authority.thy ===== *)
theory Token_Authority
  imports Token_Ledger
begin

text \<open>
  Who may act on a token account: \<open>validate_owner\<close> accepts only the expected key, signing itself or,
  for a multisignature account of the program, through at least \<open>m\<close> of its registered signers.
\<close>

definition signed_positions :: "multisig \<Rightarrow> keyed_account list \<Rightarrow> nat set" where
  "signed_positions ms signers =
     {i. i < unat (ms_n ms) \<and>
         (\<exists>sg \<in> set signers. is_signer sg \<and> unsigned_key sg = ms_signers ms ! i)}"

definition authorized :: "pubkey \<Rightarrow> store \<Rightarrow> pubkey \<Rightarrow> keyed_account \<Rightarrow> keyed_account list \<Rightarrow> bool" where
  "authorized program_id s expected owner_info signers \<longleftrightarrow>
     unsigned_key owner_info = expected \<and>
     (if owner (cell s owner_info) = program_id \<and> length (data (cell s owner_info)) = 355
      then \<exists>ms. unpack Multisig (data (cell s owner_info)) = Ok ms
                \<and> unat (ms_m ms) \<le> card (signed_positions ms signers)
      else is_signer owner_info)"

text \<open>The invariant of the matching loops: \<open>num\<close> counts the flags, and a flag is raised only for a
  registered position whose key has signed.\<close>

definition match_inv :: "multisig \<Rightarrow> keyed_account list \<Rightarrow> u8 \<times> bool list \<Rightarrow> bool" where
  "match_inv ms signers st \<longleftrightarrow>
     length (snd st) = MAX_SIGNERS \<and> fst st = of_nat (length (filter id (snd st))) \<and>
     (\<forall>i < MAX_SIGNERS. snd st ! i \<longrightarrow> i \<in> signed_positions ms signers)"

lemma count_raise_flag:
  "i < length xs \<Longrightarrow> \<not> xs ! i \<Longrightarrow> length (filter id (xs[i := True])) = Suc (length (filter id xs))"
proof (induction xs arbitrary: i)
  case (Cons x xs)
  then show ?case by (cases i) auto
qed simp

lemma signed_positions_mono:
  "set signers \<subseteq> set signers' \<Longrightarrow> signed_positions ms signers \<subseteq> signed_positions ms signers'"
  by (auto simp: signed_positions_def)

lemma match_inv_mono:
  "match_inv ms signers st \<Longrightarrow> set signers \<subseteq> set signers' \<Longrightarrow> match_inv ms signers' st"
  unfolding match_inv_def using signed_positions_mono by blast

lemma match_signer_inv:
  assumes "match_signer signer pos keys st = Ok st'"
    and "match_inv ms signers st" and "signer \<in> set signers"
    and "keys = drop pos (take (unat (ms_n ms)) (ms_signers ms))"
    and "length (ms_signers ms) = MAX_SIGNERS" and "unat (ms_n ms) \<le> MAX_SIGNERS"
  shows "match_inv ms signers st'"
  using assms
proof (induction signer pos keys st rule: match_signer.induct)
  case (2 signer pos key keys num matched)
  let ?ks = "take (unat (ms_n ms)) (ms_signers ms)"
  have lt: "pos < length ?ks"
    using "2.prems"(4) by (metis drop_eq_Nil2 leI list.distinct(1))
  then have "drop pos ?ks = ?ks ! pos # drop (Suc pos) ?ks"
    by (rule Cons_nth_drop_Suc [symmetric])
  then have pos: "pos < unat (ms_n ms)" and key: "key = ms_signers ms ! pos"
      and tl: "keys = drop (Suc pos) ?ks"
    using "2.prems"(4) lt by auto
  show ?case
  proof (cases "key = unsigned_key signer \<and> \<not> matched ! pos")
    case True
    then have run: "is_signer signer"
      "match_signer signer (Suc pos) keys (num + 1, matched[pos := True]) = Ok st'"
      using "2.prems"(1) by (auto split: if_splits)
    have "match_inv ms signers (num + 1, matched[pos := True])"
      using "2.prems"(2,3,6) True run(1) pos key
      by (auto simp: match_inv_def count_raise_flag nth_list_update signed_positions_def)
    then show ?thesis
      using "2.IH"(1) "2.prems"(3,5,6) True run tl by simp
  next
    case False
    then show ?thesis
      using "2.IH"(2) "2.prems" tl by (simp split: if_splits)
  qed
qed simp

lemma match_signers_inv:
  assumes "match_signers ms extra st = Ok st'"
    and "match_inv ms signers st" and "set extra \<subseteq> set signers"
    and "length (ms_signers ms) = MAX_SIGNERS"
  shows "match_inv ms signers st'"
  using assms
proof (induction ms extra st rule: match_signers.induct)
  case (2 ms signer extra st)
  then obtain st1 where run: "unat (ms_n ms) \<le> MAX_SIGNERS"
      "match_signer signer 0 (take (unat (ms_n ms)) (ms_signers ms)) st = Ok st1"
      "match_signers ms extra st1 = Ok st'"
    by (auto simp: ok_simps split: if_splits)
  have "match_inv ms signers st1"
    using match_signer_inv [OF run(2)] 2 run(1) by simp
  then show ?case
    using 2 run by simp
qed simp

lemma unpack_Multisig_signers: "unpack Multisig d = Ok ms \<Longrightarrow> length (ms_signers ms) = MAX_SIGNERS"
  by (auto simp: unpack_Ok_iff unpack_unchecked_def Multisig_def multisig_unpack_from_slice_def
      ok_simps split: if_splits)

lemma match_inv_card:
  assumes "match_inv ms signers (num, matched)"
  shows "unat num \<le> card (signed_positions ms signers)"
proof -
  let ?raised = "{i. i < length matched \<and> id (matched ! i)}"
  have "length (filter id matched) = card ?raised"
    by (rule length_filter_conv_card)
  moreover have "length (filter id matched) \<le> 11"
    using assms length_filter_le [of id matched] by (simp add: match_inv_def MAX_SIGNERS_def)
  moreover have "?raised \<subseteq> signed_positions ms signers"
    using assms by (auto simp: match_inv_def)
  then have "card ?raised \<le> card (signed_positions ms signers)"
    by (rule card_mono [rotated]) (simp add: signed_positions_def)
  ultimately show ?thesis
    using assms by (simp add: match_inv_def unat_of_nat)
qed

lemma validate_owner_sound:
  assumes "validate_owner program_id s expected owner_info signers = Ok ()"
  shows "authorized program_id s expected owner_info signers"
proof (cases "owner (cell s owner_info) = program_id \<and> length (data (cell s owner_info)) = 355")
  case True
  then obtain ms num matched where run: "unsigned_key owner_info = expected"
      "unpack Multisig (data (cell s owner_info)) = Ok ms"
      "match_signers ms signers (0, replicate MAX_SIGNERS False) = Ok (num, matched)"
      "\<not> num < ms_m ms"
    using assms by (auto simp: validate_owner_def ok_simps store_simps unpack_ka_def split: if_splits)
  have "match_inv ms signers (0, replicate MAX_SIGNERS False)"
    by (simp add: match_inv_def)
  then have "match_inv ms signers (num, matched)"
    using match_signers_inv [OF run(3)] unpack_Multisig_signers [OF run(2)] by simp
  then have "unat num \<le> card (signed_positions ms signers)"
    by (rule match_inv_card)
  then show ?thesis
    using True run by (auto simp: authorized_def word_less_nat_alt)
next
  case False
  then show ?thesis
    using assms by (auto simp: validate_owner_def authorized_def store_simps ok_simps split: if_splits)
qed

end
