(* ===== verification/Token_Effects.thy ===== *)
theory Token_Effects
  imports Token_Authority
begin

text \<open>
  The effect lemmas of the token handlers: each successful run, as requirements on the ledger, the
  authority that was checked, and an update of the ledger. Everything the properties of the token
  program need about the handlers is in these lemmas.
\<close>

lemma check_account_owner_Ok [ok_simps]:
  "check_account_owner program_id s ka = Ok u \<longleftrightarrow> owner (cell s ka) = program_id"
  by (auto simp: check_account_owner_def store_simps)

lemma next_expected_mint_Ok:
  "next_expected_mint ed it = Ok (e, it') \<longleftrightarrow>
     (case ed of None \<Rightarrow> e = None \<and> it' = it | Some d \<Rightarrow> \<exists>ka. it = ka # it' \<and> e = Some (ka, d))"
  by (auto simp: next_expected_mint_def ok_simps split: option.splits)

section \<open>Debits\<close>

lemma debit_authority_fields:
  assumes "debit_authority program_id s acct auth it amount keep = Ok acct'"
  shows "ta_mint acct' = ta_mint acct" "ta_owner acct' = ta_owner acct"
    "ta_amount acct' = ta_amount acct" "ta_state acct' = ta_state acct"
    "ta_is_native acct' = ta_is_native acct" "ta_close_authority acct' = ta_close_authority acct"
  using assms by (auto simp: debit_authority_def ok_simps Let_def split: if_splits)

text \<open>A debit is authorized by the owner, or by the delegate within its allowance.\<close>

definition debit_authorized ::
  "pubkey \<Rightarrow> store \<Rightarrow> token_account \<Rightarrow> keyed_account \<Rightarrow> keyed_account list \<Rightarrow> u64 \<Rightarrow> bool" where
  "debit_authorized program_id s acct auth signers amount \<longleftrightarrow>
     authorized program_id s (ta_owner acct) auth signers \<or>
     (\<exists>d. ta_delegate acct = Some d \<and> authorized program_id s d auth signers
          \<and> amount \<le> ta_delegated_amount acct)"

lemma debit_authority_sound:
  "debit_authority program_id s acct auth it amount keep = Ok acct' \<Longrightarrow>
     debit_authorized program_id s acct auth it amount"
  by (auto simp: debit_authority_def debit_authorized_def ok_simps not_less
      dest: validate_owner_sound split: if_splits option.splits)

text \<open>Acting as the delegate uses up the allowance, and a spent allowance ends the delegation.\<close>

lemma debit_authority_delegate:
  assumes "debit_authority program_id s acct auth it amount False = Ok acct'"
    and "ta_delegate acct = Some (unsigned_key auth)"
  shows "unat (ta_delegated_amount acct) = unat amount + unat (ta_delegated_amount acct')"
    and "ta_delegate acct' = (if ta_delegated_amount acct' = 0 then None else ta_delegate acct)"
proof -
  from assms obtain rest where "unat (ta_delegated_amount acct) = unat amount + unat rest"
    and "acct' = (if rest = 0 then acct\<lparr>ta_delegated_amount := rest, ta_delegate := None\<rparr>
                  else acct\<lparr>ta_delegated_amount := rest\<rparr>)"
    by (auto simp: debit_authority_def ok_simps Let_def)
  then show "unat (ta_delegated_amount acct) = unat amount + unat (ta_delegated_amount acct')"
    and "ta_delegate acct' = (if ta_delegated_amount acct' = 0 then None else ta_delegate acct)"
    by simp_all
qed

lemma debit_authority_owner:
  assumes "debit_authority program_id s acct auth it amount keep = Ok acct'"
    and "ta_delegate acct \<noteq> Some (unsigned_key auth)"
  shows "acct' = acct"
  using assms by (auto simp: debit_authority_def ok_simps split: option.splits)

section \<open>Transfer\<close>

text \<open>The lamports of a wrapped account move with its tokens.\<close>

definition native_move :: "store \<Rightarrow> pubkey \<Rightarrow> pubkey \<Rightarrow> u64 \<Rightarrow> bool \<Rightarrow> store \<Rightarrow> bool" where
  "native_move s src dst amount native s' \<longleftrightarrow>
     (if native
      then unat (lamports (s src)) = unat amount + unat (lamports (s' src))
           \<and> unat (lamports (s' dst)) = unat (lamports (s dst)) + unat amount
           \<and> (\<forall>k. k \<noteq> src \<longrightarrow> k \<noteq> dst \<longrightarrow> lamports (s' k) = lamports (s k))
      else \<forall>k. lamports (s' k) = lamports (s k))"

lemma commit_transfer_Ok:
  assumes "commit_transfer s source_info dest_info src dst amount = Ok s'"
    and "ta_is_initialized src" and "ta_is_initialized dst"
    and "unsigned_key source_info \<noteq> unsigned_key dest_info"
  shows "\<exists>a b. unat (ta_amount src) = unat amount + unat a \<and> unat b = unat (ta_amount dst) + unat amount
    \<and> ta_view s' = (ta_view s)(unsigned_key source_info \<mapsto> src\<lparr>ta_amount := a\<rparr>,
                               unsigned_key dest_info \<mapsto> dst\<lparr>ta_amount := b\<rparr>)
    \<and> mint_view s' = mint_view s \<and> (\<forall>k. owner (s' k) = owner (s k))
    \<and> (\<forall>k. k \<noteq> unsigned_key source_info \<longrightarrow> k \<noteq> unsigned_key dest_info \<longrightarrow> s' k = s k)
    \<and> native_move s (unsigned_key source_info) (unsigned_key dest_info) amount (is_native src) s'"
proof -
  let ?ks = "unsigned_key source_info" and ?kd = "unsigned_key dest_info"
  from assms(1) obtain a b s1 s2 where amounts: "unat (ta_amount src) = unat amount + unat a"
      "unat b = unat (ta_amount dst) + unat amount"
    and s1: "(if is_native src
       then and_then (ok_or (token_err Overflow) (checked_sub (ka_lamports s source_info) amount)) (\<lambda>l.
            let s = ka_set_lamports s source_info l in
            and_then (ok_or (token_err Overflow) (checked_add (ka_lamports s dest_info) amount)) (\<lambda>l.
            Ok (ka_set_lamports s dest_info l)))
       else Ok s) = Ok s1"
    and p1: "pack_ka TokenAccount (src\<lparr>ta_amount := a\<rparr>) s1 source_info = Ok s2"
    and p2: "pack_ka TokenAccount (dst\<lparr>ta_amount := b\<rparr>) s2 dest_info = Ok s'"
    unfolding commit_transfer_def by (auto simp: ok_simps Let_def is_native_def)
  have init: "ta_is_initialized (src\<lparr>ta_amount := a\<rparr>)" "ta_is_initialized (dst\<lparr>ta_amount := b\<rparr>)"
    using assms(2,3) by (simp_all add: ta_is_initialized_def)
  note v1 = pack_TokenAccount_view [OF p1 init(1)] and v2 = pack_TokenAccount_view [OF p2 init(2)]
  have s1_view: "ta_view s1 = ta_view s" "mint_view s1 = mint_view s" "\<And>k. owner (s1 k) = owner (s k)"
    using s1 by (auto simp: ok_simps view_simps Let_def split: if_splits)
  have s1_frame: "\<And>k. k \<noteq> ?ks \<Longrightarrow> k \<noteq> ?kd \<Longrightarrow> s1 k = s k"
    using s1 by (auto simp: ok_simps store_simps Let_def split: if_splits)
  have "native_move s ?ks ?kd amount (is_native src) s1"
    using s1 assms(4) by (auto simp: native_move_def ok_simps store_simps Let_def split: if_splits)
  then have "native_move s ?ks ?kd amount (is_native src) s'"
    by (simp add: native_move_def v1 v2)
  then show ?thesis
    using amounts v1 v2 s1_view s1_frame by (intro exI [of _ a] exI [of _ b]) simp
qed

lemma process_transfer_Ok:
  assumes "process_transfer program_id s accounts amount ed = Ok s'"
  obtains source_info mint_infos dest_info authority_info it src src1 dst where
    "accounts = source_info # mint_infos @ dest_info # authority_info # it"
    and "length mint_infos = (if ed = None then 0 else 1)"
    and "ta_view s (unsigned_key source_info) = Some src"
    and "ta_view s (unsigned_key dest_info) = Some dst"
    and "\<not> is_frozen src" and "\<not> is_frozen dst"
    and "amount \<le> ta_amount src" and "ta_mint src = ta_mint dst"
    and "debit_authority program_id s src authority_info it amount
           (unsigned_key source_info = unsigned_key dest_info) = Ok src1"
    and "unsigned_key source_info = unsigned_key dest_info \<or> amount = 0 \<Longrightarrow>
           owner (cell s source_info) = program_id \<and> owner (cell s dest_info) = program_id"
    and "unsigned_key source_info = unsigned_key dest_info \<Longrightarrow> s' = s"
    and "unsigned_key source_info \<noteq> unsigned_key dest_info \<Longrightarrow>
           commit_transfer s source_info dest_info src1 dst amount = Ok s'"
proof -
  from assms obtain source_info it1 e it2 dest_info it3 authority_info it src dst src1 u where
    accts: "next_keyed_account accounts = Ok (source_info, it1)"
      "next_expected_mint ed it1 = Ok (e, it2)" "next_keyed_account it2 = Ok (dest_info, it3)"
      "next_keyed_account it3 = Ok (authority_info, it)"
    and src: "unpack_ka TokenAccount s source_info = Ok src"
      "unpack_ka TokenAccount s dest_info = Ok dst" "\<not> (is_frozen src \<or> is_frozen dst)"
      "\<not> ta_amount src < amount" "\<not> \<not> cmp_pubkeys (ta_mint src) (ta_mint dst)"
    and debit: "debit_authority program_id s src authority_info it amount
           (cmp_pubkeys (unsigned_key source_info) (unsigned_key dest_info)) = Ok src1"
    and checked: "(if cmp_pubkeys (unsigned_key source_info) (unsigned_key dest_info) \<or> amount = 0
         then and_then (check_account_owner program_id s source_info) (\<lambda>_.
              check_account_owner program_id s dest_info) else Ok ()) = Ok u"
    and rest: "(if cmp_pubkeys (unsigned_key source_info) (unsigned_key dest_info) then Ok s
         else commit_transfer s source_info dest_info src1 dst amount) = Ok s'"
    unfolding process_transfer_def Let_def
    by (elim ok_elims) blast
  obtain mint_infos where "it1 = mint_infos @ it2" "length mint_infos = (if ed = None then 0 else 1)"
    using accts(2) by (cases ed) (force simp: next_expected_mint_Ok)+
  then show thesis
    using accts src debit checked rest
    by (intro that [of source_info mint_infos dest_info authority_info it src dst src1])
       (auto simp: ok_simps split: if_splits)
qed

section \<open>Handlers that write one account\<close>

definition ta_write :: "store \<Rightarrow> pubkey \<Rightarrow> token_account \<Rightarrow> store \<Rightarrow> bool" where
  "ta_write s k a s' \<longleftrightarrow>
     ta_view s' = (ta_view s)(k \<mapsto> a) \<and> mint_view s' = mint_view s
     \<and> (\<forall>j. owner (s' j) = owner (s j) \<and> lamports (s' j) = lamports (s j))
     \<and> (\<forall>j. j \<noteq> k \<longrightarrow> s' j = s j)"

definition mint_write :: "store \<Rightarrow> pubkey \<Rightarrow> mint \<Rightarrow> store \<Rightarrow> bool" where
  "mint_write s k m s' \<longleftrightarrow>
     ta_view s' = ta_view s \<and> mint_view s' = (mint_view s)(k \<mapsto> mint_canon m)
     \<and> (\<forall>j. owner (s' j) = owner (s j) \<and> lamports (s' j) = lamports (s j))
     \<and> (\<forall>j. j \<noteq> k \<longrightarrow> s' j = s j)"

lemma pack_ta_write:
  "pack_ka TokenAccount a s ka = Ok s' \<Longrightarrow> ta_is_initialized a \<Longrightarrow> ta_write s (unsigned_key ka) a s'"
  by (simp add: ta_write_def pack_TokenAccount_view)

lemma pack_mint_write: "pack_ka Mint m s ka = Ok s' \<Longrightarrow> mint_write s (unsigned_key ka) m s'"
  by (simp add: mint_write_def pack_Mint_view)

lemma process_approve_Ok:
  assumes "process_approve program_id s accounts amount ed = Ok s'"
  obtains source_info mint_infos delegate_info owner_info it a where
    "accounts = source_info # mint_infos @ delegate_info # owner_info # it"
    and "length mint_infos = (if ed = None then 0 else 1)"
    and "ta_view s (unsigned_key source_info) = Some a" and "\<not> is_frozen a"
    and "authorized program_id s (ta_owner a) owner_info it"
    and "ta_write s (unsigned_key source_info)
           (a\<lparr>ta_delegate := Some (unsigned_key delegate_info), ta_delegated_amount := amount\<rparr>) s'"
proof -
  from assms obtain source_info it1 e it2 delegate_info it3 owner_info it a u where
    accts: "next_keyed_account accounts = Ok (source_info, it1)"
      "next_expected_mint ed it1 = Ok (e, it2)" "next_keyed_account it2 = Ok (delegate_info, it3)"
      "next_keyed_account it3 = Ok (owner_info, it)"
    and a: "unpack_ka TokenAccount s source_info = Ok a" "\<not> is_frozen a"
      "validate_owner program_id s (ta_owner a) owner_info it = Ok u"
    and w: "pack_ka TokenAccount
      (a\<lparr>ta_delegate := Some (unsigned_key delegate_info), ta_delegated_amount := amount\<rparr>)
      s source_info = Ok s'"
    unfolding process_approve_def by (elim ok_elims) blast
  obtain mint_infos where "it1 = mint_infos @ it2" "length mint_infos = (if ed = None then 0 else 1)"
    using accts(2) by (cases ed) (force simp: next_expected_mint_Ok)+
  moreover have "ta_is_initialized a"
    using a(1) by (auto simp: ok_simps dest: ta_view_initialized)
  ultimately show thesis
    using accts a pack_ta_write [OF w]
    by (intro that [of source_info mint_infos delegate_info owner_info it a])
       (auto simp: ok_simps ta_is_initialized_def dest: validate_owner_sound)
qed

lemma process_revoke_Ok:
  assumes "process_revoke program_id s accounts = Ok s'"
  obtains source_info owner_info it a where "accounts = source_info # owner_info # it"
    and "ta_view s (unsigned_key source_info) = Some a" and "\<not> is_frozen a"
    and "authorized program_id s (ta_owner a) owner_info it"
    and "ta_write s (unsigned_key source_info) (a\<lparr>ta_delegate := None, ta_delegated_amount := 0\<rparr>) s'"
proof -
  from assms obtain source_info it1 owner_info it a u where
    accts: "next_keyed_account accounts = Ok (source_info, it1)"
      "next_keyed_account it1 = Ok (owner_info, it)"
    and a: "unpack_ka TokenAccount s source_info = Ok a" "\<not> is_frozen a"
      "validate_owner program_id s (ta_owner a) owner_info it = Ok u"
    and w: "pack_ka TokenAccount (a\<lparr>ta_delegate := None, ta_delegated_amount := 0\<rparr>)
      s source_info = Ok s'"
    unfolding process_revoke_def by (elim ok_elims) blast
  have "ta_is_initialized a"
    using a(1) by (auto simp: ok_simps dest: ta_view_initialized)
  then show thesis
    using accts a pack_ta_write [OF w]
    by (intro that [of source_info owner_info it a])
       (auto simp: ok_simps ta_is_initialized_def dest: validate_owner_sound)
qed

lemma process_toggle_freeze_account_Ok:
  assumes "process_toggle_freeze_account program_id s accounts freeze = Ok s'"
  obtains source_info mint_info authority_info it a m f where
    "accounts = source_info # mint_info # authority_info # it"
    and "ta_view s (unsigned_key source_info) = Some a" and "is_frozen a = (\<not> freeze)"
    and "\<not> is_native a" and "ta_mint a = unsigned_key mint_info"
    and "mint_view s (unsigned_key mint_info) = Some m" and "m_is_initialized m"
    and "m_freeze_authority m = Some f" and "authorized program_id s f authority_info it"
    and "ta_write s (unsigned_key source_info)
           (a\<lparr>ta_state := if freeze then Frozen else Initialized\<rparr>) s'"
proof -
  from assms obtain source_info it1 mint_info it2 authority_info it a m u where
    accts: "next_keyed_account accounts = Ok (source_info, it1)"
      "next_keyed_account it1 = Ok (mint_info, it2)" "next_keyed_account it2 = Ok (authority_info, it)"
    and a: "unpack_ka TokenAccount s source_info = Ok a"
      "\<not> (freeze \<and> is_frozen a \<or> \<not> freeze \<and> \<not> is_frozen a)" "\<not> is_native a"
      "\<not> \<not> cmp_pubkeys (unsigned_key mint_info) (ta_mint a)" "unpack_ka Mint s mint_info = Ok m"
      "(case m_freeze_authority m of
         Some authority \<Rightarrow> validate_owner program_id s authority authority_info it
       | None \<Rightarrow> Err (token_err MintCannotFreeze)) = Ok u"
    and w: "pack_ka TokenAccount (a\<lparr>ta_state := if freeze then Frozen else Initialized\<rparr>)
      s source_info = Ok s'"
    unfolding process_toggle_freeze_account_def by (elim ok_elims) blast
  obtain f where "m_freeze_authority m = Some f" "validate_owner program_id s f authority_info it = Ok u"
    using a(6) by (auto split: option.splits)
  then show thesis
    using accts a(1-5) pack_ta_write [OF w]
    by (intro that [of source_info mint_info authority_info it a m f])
       (auto simp: ok_simps ta_is_initialized_def dest: validate_owner_sound)
qed

lemma process_sync_native_Ok:
  assumes "process_sync_native program_id s accounts = Ok s'"
  obtains native_info it a reserve n where "accounts = native_info # it"
    and "owner (cell s native_info) = program_id"
    and "ta_view s (unsigned_key native_info) = Some a" and "ta_is_native a = Some reserve"
    and "unat (lamports (cell s native_info)) = unat reserve + unat n" and "ta_amount a \<le> n"
    and "ta_write s (unsigned_key native_info) (a\<lparr>ta_amount := n\<rparr>) s'"
proof -
  from assms obtain native_info it a u where
    accts: "next_keyed_account accounts = Ok (native_info, it)"
      "check_account_owner program_id s native_info = Ok u"
    and a: "unpack_ka TokenAccount s native_info = Ok a"
    and rest: "(case ta_is_native a of
         Some reserve \<Rightarrow>
           and_then (ok_or (token_err Overflow) (checked_sub (ka_lamports s native_info) reserve)) (\<lambda>new_amount.
             if new_amount < ta_amount a then Err (token_err InvalidState)
             else pack_ka TokenAccount (a\<lparr>ta_amount := new_amount\<rparr>) s native_info)
       | None \<Rightarrow> Err (token_err NonNativeNotSupported)) = Ok s'"
    unfolding process_sync_native_def by (elim ok_elims) blast
  then obtain reserve n where n: "ta_is_native a = Some reserve"
      "unat (lamports (cell s native_info)) = unat reserve + unat n" "ta_amount a \<le> n"
      "pack_ka TokenAccount (a\<lparr>ta_amount := n\<rparr>) s native_info = Ok s'"
    by (auto simp: ok_simps ka_lamports_def not_less split: option.splits)
  have "ta_is_initialized a"
    using a by (auto simp: ok_simps dest: ta_view_initialized)
  then show thesis
    using accts a n pack_ta_write [OF n(4)]
    by (intro that [of native_info it a reserve n]) (auto simp: ok_simps ta_is_initialized_def)
qed

end
