(* ===== verification/Token_Lifecycle.thy ===== *)
theory Token_Lifecycle
  imports Token_Effects
begin

text \<open>
  Effect lemmas, continued: the handlers that create, mint, burn and close, and the ones that change
  authorities.
\<close>

section \<open>Initialization\<close>

lemma process_initialize_mint_Ok:
  assumes "process_initialize_mint s accounts name symbol decimals mint_auth freeze_auth = Ok s'"
  obtains mint_info it m where "accounts = mint_info # it"
    and "mint_view s (unsigned_key mint_info) = Some m" and "\<not> m_is_initialized m"
    and "mint_write s (unsigned_key mint_info)
           (m\<lparr>m_mint_authority := Some mint_auth, m_decimals := decimals, m_name := name,
              m_symbol := symbol, m_is_initialized := True, m_freeze_authority := freeze_auth\<rparr>) s'"
proof -
  from assms obtain mint_info it m where
    "next_keyed_account accounts = Ok (mint_info, it)"
    "unpack_unchecked_ka Mint s mint_info = Ok m" "\<not> m_is_initialized m"
    "pack_ka Mint
       (m\<lparr>m_mint_authority := Some mint_auth, m_decimals := decimals, m_name := name,
          m_symbol := symbol, m_is_initialized := True, m_freeze_authority := freeze_auth\<rparr>)
       s mint_info = Ok s'"
    unfolding process_initialize_mint_def by (elim ok_elims) blast
  then show thesis
    by (intro that) (auto simp: ok_simps dest: pack_mint_write)
qed

lemma process_initialize_account_aux_Ok:
  assumes "process_initialize_account_aux program_id s accounts owner_opt = Ok s'"
  obtains new_account_info mint_info it a where
    "accounts = new_account_info # mint_info # it"
    and "ta_view s (unsigned_key new_account_info) = None"
    and "ta_mint a = unsigned_key mint_info" and "ta_is_initialized a" and "ta_delegate a = None"
    and "\<not> is_frozen a"
    and "case owner_opt of Some o' \<Rightarrow> ta_owner a = o' | None \<Rightarrow> it \<noteq> [] \<and> ta_owner a = unsigned_key (hd it)"
    and "is_native a \<longleftrightarrow> unsigned_key mint_info = native_mint_id"
    and "\<not> is_native a \<Longrightarrow> ta_amount a = 0 \<and> owner (s (unsigned_key mint_info)) = program_id
           \<and> (\<exists>m. mint_view s (unsigned_key mint_info) = Some m \<and> m_is_initialized m)"
    and "is_native a \<Longrightarrow>
           ta_is_native a = Some (minimum_balance rent_default (ka_data_len s new_account_info))
           \<and> unat (lamports (s (unsigned_key new_account_info)))
           = unat (minimum_balance rent_default (ka_data_len s new_account_info)) + unat (ta_amount a)"
    and "ta_write s (unsigned_key new_account_info) a s'"
proof -
  from assms obtain new_account_info it1 mint_info it owner' acct u acct2 where
    accts: "next_keyed_account accounts = Ok (new_account_info, it1)"
      "next_keyed_account it1 = Ok (mint_info, it)"
    and ow: "(case owner_opt of
                 Some o' \<Rightarrow> Ok o'
               | None \<Rightarrow> and_then (next_keyed_account it) (\<lambda>(ka, it). Ok (unsigned_key ka))) = Ok owner'"
    and a: "unpack_unchecked_ka TokenAccount s new_account_info = Ok acct" "\<not> ta_is_initialized acct"
    and m: "(if \<not> cmp_pubkeys (unsigned_key mint_info) native_mint_id
             then and_then (check_account_owner program_id s mint_info) (\<lambda>_.
                  and_then (map_err (\<lambda>_. token_err InvalidMint) (unpack_ka Mint s mint_info)) (\<lambda>_. Ok ()))
             else Ok ()) = Ok u"
    and a2: "(if cmp_pubkeys (unsigned_key mint_info) native_mint_id
              then and_then (ok_or (token_err Overflow)
                       (checked_sub (ka_lamports s new_account_info)
                          (minimum_balance rent_default (ka_data_len s new_account_info)))) (\<lambda>amount.
                   Ok (acct\<lparr>ta_mint := unsigned_key mint_info, ta_owner := owner',
                         ta_delegate := None, ta_delegated_amount := 0, ta_state := Initialized,
                         ta_is_native := Some (minimum_balance rent_default (ka_data_len s new_account_info)),
                         ta_amount := amount\<rparr>))
              else Ok (acct\<lparr>ta_mint := unsigned_key mint_info, ta_owner := owner',
                         ta_delegate := None, ta_delegated_amount := 0, ta_state := Initialized,
                         ta_is_native := None, ta_amount := 0\<rparr>)) = Ok acct2"
    and w: "pack_ka TokenAccount acct2 s new_account_info = Ok s'"
    unfolding process_initialize_account_aux_def Let_def by (elim ok_elims) blast
  have "ta_view s (unsigned_key new_account_info) = None"
    using a by (auto simp: unpack_unchecked_ka_def ta_view_def unpack_def ok_simps split: result.splits)
  moreover have "case owner_opt of Some o' \<Rightarrow> owner' = o' | None \<Rightarrow> it \<noteq> [] \<and> owner' = unsigned_key (hd it)"
    using ow by (auto simp: ok_simps split: option.splits)
  moreover have "\<not> cmp_pubkeys (unsigned_key mint_info) native_mint_id \<Longrightarrow>
      owner (s (unsigned_key mint_info)) = program_id
      \<and> (\<exists>m. mint_view s (unsigned_key mint_info) = Some m \<and> m_is_initialized m)"
    using m by (auto simp: ok_simps check_account_owner_Ok)
  moreover have "ta_owner acct2 = owner'" "ta_mint acct2 = unsigned_key mint_info"
      "ta_delegate acct2 = None" "ta_state acct2 = Initialized"
      "is_native acct2 \<longleftrightarrow> unsigned_key mint_info = native_mint_id"
      "\<not> is_native acct2 \<Longrightarrow> ta_amount acct2 = 0"
      "is_native acct2 \<Longrightarrow>
         ta_is_native acct2 = Some (minimum_balance rent_default (ka_data_len s new_account_info))
         \<and> unat (lamports (s (unsigned_key new_account_info)))
         = unat (minimum_balance rent_default (ka_data_len s new_account_info)) + unat (ta_amount acct2)"
    using a2 by (auto simp: ok_simps is_native_def ka_lamports_def split: if_splits)
  ultimately show thesis
    using accts pack_ta_write [OF w]
    by (intro that [of new_account_info mint_info it acct2])
       (auto simp: ok_simps ta_is_initialized_def is_frozen_def)
qed

lemma process_initialize_multisig_Ok:
  assumes "process_initialize_multisig s accounts m = Ok s'"
  shows "ta_view s' = ta_view s" and "mint_view s' = mint_view s"
    and "owner (s' k) = owner (s k)" and "lamports (s' k) = lamports (s k)"
proof -
  from assms obtain ms multisig_info where "pack_ka Multisig ms s multisig_info = Ok s'"
    unfolding process_initialize_multisig_def Let_def by (elim ok_elims) blast
  then show "ta_view s' = ta_view s" "mint_view s' = mint_view s"
      "owner (s' k) = owner (s k)" "lamports (s' k) = lamports (s k)"
    by (simp_all add: pack_Multisig_view)
qed

section \<open>Authorities\<close>

text \<open>An account write of \<open>SetAuthority\<close> keeps everything but the authorities.\<close>

lemma set_account_authority_Ok:
  assumes "set_account_authority program_id s a ty new_authority authority_info it = Ok a'"
  shows "\<not> is_frozen a" and "ta_amount a' = ta_amount a" and "ta_mint a' = ta_mint a"
    and "ta_state a' = ta_state a" and "ta_is_native a' = ta_is_native a"
    and "authorized program_id s
           (if ty = AccountOwner then ta_owner a else unwrap_or (ta_close_authority a) (ta_owner a))
           authority_info it"
    and "if ty = AccountOwner
         then new_authority = Some (ta_owner a') \<and> ta_delegate a' = None \<and> ta_delegated_amount a' = 0
         else ty = CloseAccountAuthority \<and> a' = a\<lparr>ta_close_authority := new_authority\<rparr>"
  using assms
  by (auto simp: set_account_authority_def ok_simps Let_def
      split: authority_type.splits option.splits if_splits dest: validate_owner_sound)

lemma set_mint_authority_Ok:
  assumes "set_mint_authority program_id s m ty new_authority authority_info it = Ok m'"
  obtains au where "ty = MintTokens" and "m_mint_authority m = Some au"
      and "authorized program_id s au authority_info it" and "m' = m\<lparr>m_mint_authority := new_authority\<rparr>"
  | au where "ty = FreezeAccountAuthority" and "m_freeze_authority m = Some au"
      and "authorized program_id s au authority_info it" and "m' = m\<lparr>m_freeze_authority := new_authority\<rparr>"
  using assms
  by (cases ty) (auto simp: set_mint_authority_def ok_simps dest: validate_owner_sound)

lemma process_set_authority_Ok:
  assumes "process_set_authority program_id s accounts ty new_authority = Ok s'"
  obtains account_info authority_info it a a' where
      "accounts = account_info # authority_info # it"
      and "ta_view s (unsigned_key account_info) = Some a"
      and "set_account_authority program_id s a ty new_authority authority_info it = Ok a'"
      and "ta_write s (unsigned_key account_info) a' s'"
  | account_info authority_info it m m' where
      "accounts = account_info # authority_info # it"
      and "mint_view s (unsigned_key account_info) = Some m" and "m_is_initialized m"
      and "set_mint_authority program_id s m ty new_authority authority_info it = Ok m'"
      and "mint_write s (unsigned_key account_info) m' s'"
proof -
  from assms obtain account_info it1 authority_info it where
    accts: "next_keyed_account accounts = Ok (account_info, it1)"
      "next_keyed_account it1 = Ok (authority_info, it)"
    and cases: "(if ka_data_len s account_info = pk_len TokenAccount
       then and_then (unpack_ka TokenAccount s account_info) (\<lambda>acct.
            and_then (set_account_authority program_id s acct ty new_authority
                        authority_info it) (\<lambda>acct.
            pack_ka TokenAccount acct s account_info))
       else if ka_data_len s account_info = pk_len Mint
       then and_then (unpack_ka Mint s account_info) (\<lambda>mint.
            and_then (set_mint_authority program_id s mint ty new_authority
                        authority_info it) (\<lambda>mint.
            pack_ka Mint mint s account_info))
       else Err InvalidArgument) = Ok s'"
    unfolding process_set_authority_def by (elim and_then_pair_OkE) blast
  have a: "accounts = account_info # authority_info # it"
    using accts by (simp add: ok_simps)
  consider (account) acct acct' where "unpack_ka TokenAccount s account_info = Ok acct"
      "set_account_authority program_id s acct ty new_authority authority_info it = Ok acct'"
      "pack_ka TokenAccount acct' s account_info = Ok s'"
    | (mint) m m' where "unpack_ka Mint s account_info = Ok m"
      "set_mint_authority program_id s m ty new_authority authority_info it = Ok m'"
      "pack_ka Mint m' s account_info = Ok s'"
    using cases by (auto split: if_splits elim!: and_then_OkE)
  then show thesis
  proof cases
    case account
    then have "ta_is_initialized acct'"
      using ta_view_initialized [of s "unsigned_key account_info" acct]
      by (auto simp: ok_simps ta_is_initialized_def set_account_authority_Ok(4) [OF account(2)])
    with account that(1) [OF a] show thesis
      by (auto simp: ok_simps dest: pack_ta_write)
  next
    case mint
    with that(2) [OF a] show thesis
      by (auto simp: ok_simps dest: pack_mint_write)
  qed
qed

section \<open>Mint and burn\<close>

lemma process_mint_to_Ok:
  assumes "process_mint_to program_id s accounts amount ed = Ok s'"
  obtains mint_info dest_info owner_info it a m au n sup s1 where
    "accounts = mint_info # dest_info # owner_info # it"
    and "ta_view s (unsigned_key dest_info) = Some a" and "\<not> is_frozen a" and "\<not> is_native a"
    and "ta_mint a = unsigned_key mint_info"
    and "mint_view s (unsigned_key mint_info) = Some m" and "m_is_initialized m"
    and "m_mint_authority m = Some au" and "authorized program_id s au owner_info it"
    and "unat n = unat (ta_amount a) + unat amount" and "unat sup = unat (m_supply m) + unat amount"
    and "amount = 0 \<Longrightarrow> owner (cell s mint_info) = program_id \<and> owner (cell s dest_info) = program_id"
    and "ta_write s (unsigned_key dest_info) (a\<lparr>ta_amount := n\<rparr>) s1"
    and "mint_write s1 (unsigned_key mint_info) (m\<lparr>m_supply := sup\<rparr>) s'"
proof -
  from assms obtain mint_info it1 dest_info it2 owner_info it a m u u' n sup s1 where
    accts: "next_keyed_account accounts = Ok (mint_info, it1)"
      "next_keyed_account it1 = Ok (dest_info, it2)" "next_keyed_account it2 = Ok (owner_info, it)"
    and a: "unpack_ka TokenAccount s dest_info = Ok a" "\<not> is_frozen a" "\<not> is_native a"
      "\<not> \<not> cmp_pubkeys (unsigned_key mint_info) (ta_mint a)" "unpack_ka Mint s mint_info = Ok m"
    and au: "(case m_mint_authority m of
         Some mint_authority \<Rightarrow> validate_owner program_id s mint_authority owner_info it
       | None \<Rightarrow> Err (token_err FixedSupply)) = Ok u"
    and z: "(if amount = 0
       then and_then (check_account_owner program_id s mint_info) (\<lambda>_.
            check_account_owner program_id s dest_info)
       else Ok ()) = Ok u'"
    and n: "ok_or (token_err Overflow) (checked_add (ta_amount a) amount) = Ok n"
      "ok_or (token_err Overflow) (checked_add (m_supply m) amount) = Ok sup"
    and w: "pack_ka TokenAccount (a\<lparr>ta_amount := n\<rparr>) s dest_info = Ok s1"
      "pack_ka Mint (m\<lparr>m_supply := sup\<rparr>) s1 mint_info = Ok s'"
    unfolding process_mint_to_def by (elim ok_elims) blast
  obtain au where "m_mint_authority m = Some au" "validate_owner program_id s au owner_info it = Ok u"
    using au by (auto split: option.splits)
  moreover have "ta_is_initialized a"
    using a(1) by (auto simp: ok_simps dest: ta_view_initialized)
  moreover have "amount = 0 \<Longrightarrow> owner (cell s mint_info) = program_id \<and> owner (cell s dest_info) = program_id"
    using z by (auto simp: ok_simps check_account_owner_Ok)
  ultimately show thesis
    using accts a n pack_ta_write [OF w(1)] pack_mint_write [OF w(2)]
    by (intro that [of mint_info dest_info owner_info it a m au n sup s1])
       (auto simp: ok_simps ta_is_initialized_def dest: validate_owner_sound)
qed

lemma process_burn_Ok:
  assumes "process_burn program_id s accounts amount ed = Ok s'"
  obtains source_info mint_info authority_info it a a1 m n sup s1 where
    "accounts = source_info # mint_info # authority_info # it"
    and "ta_view s (unsigned_key source_info) = Some a" and "\<not> is_frozen a" and "\<not> is_native a"
    and "ta_mint a = unsigned_key mint_info"
    and "mint_view s (unsigned_key mint_info) = Some m" and "m_is_initialized m"
    and "debit_authority program_id s a authority_info it amount False = Ok a1"
    and "unat (ta_amount a) = unat amount + unat n" and "unat (m_supply m) = unat amount + unat sup"
    and "amount = 0 \<Longrightarrow> owner (cell s source_info) = program_id \<and> owner (cell s mint_info) = program_id"
    and "ta_write s (unsigned_key source_info) (a1\<lparr>ta_amount := n\<rparr>) s1"
    and "mint_write s1 (unsigned_key mint_info) (m\<lparr>m_supply := sup\<rparr>) s'"
proof -
  from assms obtain source_info it1 mint_info it2 authority_info it a a1 m u' n sup s1 where
    accts: "next_keyed_account accounts = Ok (source_info, it1)"
      "next_keyed_account it1 = Ok (mint_info, it2)" "next_keyed_account it2 = Ok (authority_info, it)"
    and a: "unpack_ka TokenAccount s source_info = Ok a" "\<not> is_frozen a" "\<not> is_native a"
      "\<not> \<not> cmp_pubkeys (unsigned_key mint_info) (ta_mint a)" "unpack_ka Mint s mint_info = Ok m"
    and au: "debit_authority program_id s a authority_info it amount False = Ok a1"
    and z: "(if amount = 0
       then and_then (check_account_owner program_id s source_info) (\<lambda>_.
            check_account_owner program_id s mint_info)
       else Ok ()) = Ok u'"
    and n: "ok_or (token_err Overflow) (checked_sub (ta_amount a1) amount) = Ok n"
      "ok_or (token_err Overflow) (checked_sub (m_supply m) amount) = Ok sup"
    and w: "pack_ka TokenAccount (a1\<lparr>ta_amount := n\<rparr>) s source_info = Ok s1"
      "pack_ka Mint (m\<lparr>m_supply := sup\<rparr>) s1 mint_info = Ok s'"
    unfolding process_burn_def by (elim ok_elims) blast
  have "ta_is_initialized a1"
    using a(1) ta_view_initialized [of s "unsigned_key source_info" a] debit_authority_fields [OF au]
    by (auto simp: ok_simps ta_is_initialized_def)
  moreover have "amount = 0 \<Longrightarrow> owner (cell s source_info) = program_id \<and> owner (cell s mint_info) = program_id"
    using z by (auto simp: ok_simps check_account_owner_Ok)
  ultimately show thesis
    using accts a au n pack_ta_write [OF w(1)] pack_mint_write [OF w(2)] debit_authority_fields [OF au]
    by (intro that [of source_info mint_info authority_info it a m a1 n sup s1])
       (auto simp: ok_simps ta_is_initialized_def)
qed

section \<open>Closing\<close>

lemma process_close_account_Ok:
  assumes "process_close_account program_id s accounts = Ok s'"
  obtains source_info dest_info authority_info it a where
    "accounts = source_info # dest_info # authority_info # it"
    and "unsigned_key source_info \<noteq> unsigned_key dest_info"
    and "ta_view s (unsigned_key source_info) = Some a" and "is_native a \<or> ta_amount a = 0"
    and "authorized program_id s (unwrap_or (ta_close_authority a) (ta_owner a)) authority_info it"
    and "ta_view s' = (ta_view s)(unsigned_key source_info := None)" and "mint_view s' = mint_view s"
    and "\<And>k. owner (s' k) = owner (s k)"
    and "lamports (s' (unsigned_key source_info)) = 0"
    and "unat (lamports (s' (unsigned_key dest_info)))
         = unat (lamports (s (unsigned_key dest_info))) + unat (lamports (s (unsigned_key source_info)))"
    and "data (s' (unsigned_key source_info)) = replicate 165 0"
    and "data (s' (unsigned_key dest_info)) = data (s (unsigned_key dest_info))"
    and "\<And>k. k \<noteq> unsigned_key source_info \<Longrightarrow> k \<noteq> unsigned_key dest_info \<Longrightarrow> s' k = s k"
proof -
  from assms obtain source_info it1 dest_info it2 authority_info it a u l where
    accts: "next_keyed_account accounts = Ok (source_info, it1)"
      "next_keyed_account it1 = Ok (dest_info, it2)" "next_keyed_account it2 = Ok (authority_info, it)"
    and ne: "\<not> cmp_pubkeys (unsigned_key source_info) (unsigned_key dest_info)"
    and a: "unpack_ka TokenAccount s source_info = Ok a" "\<not> (\<not> is_native a \<and> ta_amount a \<noteq> 0)"
    and au: "validate_owner program_id s (unwrap_or (ta_close_authority a) (ta_owner a))
               authority_info it = Ok u"
    and l: "ok_or (token_err Overflow)
              (checked_add (ka_lamports s dest_info) (ka_lamports s source_info)) = Ok l"
    and s': "Ok (ka_set_data (ka_set_lamports (ka_set_lamports s dest_info l) source_info 0) source_info
               (unsafe_memset
                 (data (cell (ka_set_lamports (ka_set_lamports s dest_info l) source_info 0) source_info))
                 0 (pk_len TokenAccount))) = Ok s'"
    unfolding process_close_account_def Let_def by (elim ok_elims) blast
  have len: "length (data (s (unsigned_key source_info))) = 165"
    using a(1) by (auto simp: ok_simps ta_view_Some dest: unpack_length)
  have s'': "s' = s(unsigned_key dest_info := (s (unsigned_key dest_info))\<lparr>lamports := l\<rparr>,
               unsigned_key source_info := (s (unsigned_key source_info))\<lparr>lamports := 0, data := replicate 165 0\<rparr>)"
    using s' ne len by (auto simp: store_simps unsafe_memset_def ok_simps)
  show thesis
  proof (rule that [of source_info dest_info authority_info it a])
    show "ta_view s' = (ta_view s)(unsigned_key source_info := None)"
      by (auto simp: s'' ta_view_def unpack_zeroed fun_eq_iff)
    show "mint_view s' = mint_view s"
      using len by (auto simp: s'' mint_view_def unpack_unchecked_def fun_eq_iff)
  qed (use accts ne a au l in \<open>auto simp: ok_simps s'' ka_lamports_def dest: validate_owner_sound\<close>)
qed

end
