(* ===== verification/Token_Refinement.thy ===== *)
theory Token_Refinement
  imports Token_Spec Token_Lifecycle
begin

text \<open>
  The token program refines its specification. The ledger of a store has the accounts and mints that
  the token program owns; an account of another program that merely looks like a token account is
  not part of it. Under the runtime's rule that a program cannot change the data of accounts it does
  not own, every successful instruction is a step of the ledger.
\<close>

section \<open>The ledger of a store\<close>

definition ledger_of :: "store \<Rightarrow> ledger" where
  "ledger_of s =
     \<lparr>accts = (\<lambda>k. if owner (s k) = token_program_id then ta_view s k else None),
      mints = (\<lambda>k. if owner (s k) = token_program_id then mint_view s k else None),
      funds = (\<lambda>k. unat (lamports (s k)))\<rparr>"

definition external_kept :: "store \<Rightarrow> store \<Rightarrow> bool" where
  "external_kept s s' \<longleftrightarrow>
     (\<forall>k. owner (s k) \<noteq> token_program_id \<longrightarrow>
        data (s' k) = data (s k) \<and> owner (s' k) = owner (s k) \<and> lamports (s k) \<le> lamports (s' k))"

lemma ledger_of_sel [simp]:
  "accts (ledger_of s) k = (if owner (s k) = token_program_id then ta_view s k else None)"
  "mints (ledger_of s) k = (if owner (s k) = token_program_id then mint_view s k else None)"
  "funds (ledger_of s) k = unat (lamports (s k))"
  by (simp_all add: ledger_of_def)

lemma external_views:
  assumes "external_kept s s'" and "owner (s k) \<noteq> token_program_id"
  shows "ta_view s' k = ta_view s k" and "mint_view s' k = mint_view s k"
  using assms by (auto simp: external_kept_def intro: ta_view_cong mint_view_cong)

lemma ledger_eqI:
  "(\<And>k. accts L k = accts L' k) \<Longrightarrow> (\<And>k. mints L k = mints L' k) \<Longrightarrow> (\<And>k. funds L k = funds L' k) \<Longrightarrow>
   L = (L' :: ledger)"
  by (cases L; cases L') (auto simp: fun_eq_iff)

lemma ta_write_ledger:
  assumes "ta_write s k a s'"
  shows "ledger_of s' = (if owner (s k) = token_program_id
    then (ledger_of s)\<lparr>accts := (accts (ledger_of s))(k \<mapsto> a)\<rparr> else ledger_of s)"
  using assms unfolding ta_write_def by (intro ledger_eqI) auto

lemma mint_write_ledger:
  assumes "mint_write s k m s'"
  shows "ledger_of s' = (if owner (s k) = token_program_id
    then (ledger_of s)\<lparr>mints := (mints (ledger_of s))(k \<mapsto> mint_canon m)\<rparr> else ledger_of s)"
  using assms unfolding mint_write_def by (intro ledger_eqI) auto

lemma mint_canon_fields [simp]:
  "m_supply (mint_canon m) = m_supply m" "m_is_initialized (mint_canon m) = m_is_initialized m"
  by (simp_all add: mint_canon_def)

lemma idle_refl [simp]: "ledger_step L L"
  by (rule ledger_step.Idle) simp_all

section \<open>Single writes\<close>

lemma ta_write_step:
  assumes "ta_write s k a' s'" and "ta_view s k = Some a" and "same_holding a a'"
  shows "ledger_step (ledger_of s) (ledger_of s')"
  using ta_write_ledger [OF assms(1)] assms(2,3)
  by (auto intro!: ledger_step.Update)

lemma mint_write_step:
  assumes "mint_write s k m' s'" and "mint_view s k = Some m" and "m_is_initialized m" "m_is_initialized m'"
    and "m_supply m' = m_supply m"
  shows "ledger_step (ledger_of s) (ledger_of s')"
  using mint_write_ledger [OF assms(1)] assms(2-5)
  by (auto intro!: ledger_step.Update_Mint)

lemma approve_step:
  "process_approve token_program_id s accounts amount ed = Ok s' \<Longrightarrow> ledger_step (ledger_of s) (ledger_of s')"
  by (erule process_approve_Ok) (erule ta_write_step, auto simp: same_holding_def)

lemma revoke_step:
  "process_revoke token_program_id s accounts = Ok s' \<Longrightarrow> ledger_step (ledger_of s) (ledger_of s')"
  by (erule process_revoke_Ok) (erule ta_write_step, auto simp: same_holding_def)

lemma freeze_step:
  "process_toggle_freeze_account token_program_id s accounts freeze = Ok s' \<Longrightarrow>
   ledger_step (ledger_of s) (ledger_of s')"
  by (erule process_toggle_freeze_account_Ok) (erule ta_write_step, auto simp: same_holding_def)

lemma set_authority_step:
  assumes "process_set_authority token_program_id s accounts ty new_authority = Ok s'"
  shows "ledger_step (ledger_of s) (ledger_of s')"
  using assms
proof (cases rule: process_set_authority_Ok)
  case (1 account_info authority_info it a a')
  then show ?thesis
    by (auto simp: same_holding_def set_account_authority_Ok(2,3,5) intro!: ta_write_step)
next
  case (2 account_info authority_info it m m')
  from 2(4) have "m_supply m' = m_supply m" "m_is_initialized m' = m_is_initialized m"
    by (auto elim!: set_mint_authority_Ok)
  with 2 show ?thesis
    by (auto intro!: mint_write_step)
qed

lemma sync_step:
  "process_sync_native token_program_id s accounts = Ok s' \<Longrightarrow> ledger_step (ledger_of s) (ledger_of s')"
  by (erule process_sync_native_Ok) (auto simp: ta_write_ledger intro!: ledger_step.Sync)

lemma initialize_mint_step:
  "process_initialize_mint s accounts name symbol decimals mint_auth freeze_auth = Ok s' \<Longrightarrow>
   ledger_step (ledger_of s) (ledger_of s')"
  by (erule process_initialize_mint_Ok) (auto simp: mint_write_ledger intro!: ledger_step.New_Mint)

lemma initialize_account_step:
  assumes "process_initialize_account_aux token_program_id s accounts owner_opt = Ok s'"
  shows "ledger_step (ledger_of s) (ledger_of s')"
  using assms
proof (rule process_initialize_account_aux_Ok)
  fix new_account_info mint_info :: keyed_account and it a
  let ?k = "unsigned_key new_account_info"
  assume a: "ta_view s ?k = None" "ta_mint a = unsigned_key mint_info"
      "is_native a \<longleftrightarrow> unsigned_key mint_info = native_mint_id"
    and m: "\<not> is_native a \<Longrightarrow> ta_amount a = 0 \<and> owner (s (unsigned_key mint_info)) = token_program_id
         \<and> (\<exists>m. mint_view s (unsigned_key mint_info) = Some m \<and> m_is_initialized m)"
    and n: "is_native a \<Longrightarrow> ta_is_native a = Some (minimum_balance rent_default (ka_data_len s new_account_info))
         \<and> unat (lamports (s ?k))
           = unat (minimum_balance rent_default (ka_data_len s new_account_info)) + unat (ta_amount a)"
    and w: "ta_write s ?k a s'"
  show ?thesis
  proof (cases "owner (s ?k) = token_program_id")
    case True
    have L: "ledger_of s' = (ledger_of s)\<lparr>accts := (accts (ledger_of s))(?k \<mapsto> a)\<rparr>"
      using ta_write_ledger [OF w] True by simp
    show ?thesis
    proof (cases "is_native a")
      case True
      with n a show ?thesis
        unfolding L by (intro ledger_step.New_Native) auto
    next
      case False
      with m obtain x where "mint_view s (unsigned_key mint_info) = Some x" "m_is_initialized x" by auto
      with False m a show ?thesis
        unfolding L by (intro ledger_step.New_Account [where m = x]) auto
    qed
  qed (simp add: ta_write_ledger [OF w])
qed

lemma initialize_multisig_step:
  assumes "process_initialize_multisig s accounts m = Ok s'"
  shows "ledger_step (ledger_of s) (ledger_of s')"
proof -
  have "ledger_of s' = ledger_of s"
    using process_initialize_multisig_Ok [OF assms] by (intro ledger_eqI) auto
  then show ?thesis by simp
qed

section \<open>Transfer, mint, burn and close\<close>

text \<open>An account whose token amount or supply changed is owned by the program.\<close>

lemma written_is_owned:
  assumes "external_kept s s'"
  shows "ta_view s k = Some a \<Longrightarrow> ta_view s' k = Some a' \<Longrightarrow> ta_amount a' \<noteq> ta_amount a \<Longrightarrow>
           owner (s k) = token_program_id"
    and "mint_view s k = Some m \<Longrightarrow> mint_view s' k = Some m' \<Longrightarrow> m_supply m' \<noteq> m_supply m \<Longrightarrow>
           owner (s k) = token_program_id"
  using external_views [OF assms, of k] by (cases "owner (s k) = token_program_id"; force)+

lemma transfer_step:
  assumes "process_transfer token_program_id s accounts amount ed = Ok s'" and ext: "external_kept s s'"
  shows "ledger_step (ledger_of s) (ledger_of s')"
  using assms(1)
proof (rule process_transfer_Ok)
  fix source_info dest_info :: keyed_account and authority_info it src src1 dst
  let ?i = "unsigned_key source_info" and ?j = "unsigned_key dest_info"
  assume src: "ta_view s ?i = Some src" and dst: "ta_view s ?j = Some dst" and mint: "ta_mint src = ta_mint dst"
    and debit: "debit_authority token_program_id s src authority_info it amount (?i = ?j) = Ok src1"
    and own: "?i = ?j \<or> amount = 0 \<Longrightarrow> owner (cell s source_info) = token_program_id
           \<and> owner (cell s dest_info) = token_program_id"
    and self: "?i = ?j \<Longrightarrow> s' = s"
    and commit: "?i \<noteq> ?j \<Longrightarrow> commit_transfer s source_info dest_info src1 dst amount = Ok s'"
  show ?thesis
  proof (cases "?i = ?j")
    case True
    then show ?thesis using self by simp
  next
    case False
    note f = debit_authority_fields [OF debit]
    have "ta_is_initialized src1" "ta_is_initialized dst"
      using ta_view_initialized [OF src] ta_view_initialized [OF dst] f(4) by (simp_all add: ta_is_initialized_def)
    from commit_transfer_Ok [OF commit [OF False] this False] obtain a b where
      n: "unat (ta_amount src1) = unat amount + unat a" "unat b = unat (ta_amount dst) + unat amount"
      and v: "ta_view s' = (ta_view s)(?i \<mapsto> src1\<lparr>ta_amount := a\<rparr>, ?j \<mapsto> dst\<lparr>ta_amount := b\<rparr>)"
        "mint_view s' = mint_view s" "\<forall>k. owner (s' k) = owner (s k)"
      and nm: "native_move s ?i ?j amount (is_native src1) s'"
      by blast
    have owned: "owner (s ?i) = token_program_id" "owner (s ?j) = token_program_id"
    proof -
      have "owner (s ?i) = token_program_id \<and> owner (s ?j) = token_program_id"
      proof (cases "amount = 0")
        case True
        then show ?thesis using own by simp
      next
        case False
        then have "unat amount \<noteq> 0" by (simp add: unat_eq_0)
        then have "a \<noteq> ta_amount src" "b \<noteq> ta_amount dst" using n f(3) by auto
        then show ?thesis
          using written_is_owned(1) [OF ext src] written_is_owned(1) [OF ext dst] v(1) \<open>?i \<noteq> ?j\<close> by auto
      qed
      then show "owner (s ?i) = token_program_id" "owner (s ?j) = token_program_id" by simp_all
    qed
    have "ledger_of s' = (ledger_of s)\<lparr>accts := (accts (ledger_of s))
        (?i \<mapsto> src1\<lparr>ta_amount := a\<rparr>, ?j \<mapsto> dst\<lparr>ta_amount := b\<rparr>), funds := funds (ledger_of s')\<rparr>"
      using v owned by (intro ledger_eqI) auto
    moreover have "ledger_step (ledger_of s) ((ledger_of s)\<lparr>accts := (accts (ledger_of s))
        (?i \<mapsto> src1\<lparr>ta_amount := a\<rparr>, ?j \<mapsto> dst\<lparr>ta_amount := b\<rparr>), funds := funds (ledger_of s')\<rparr>)"
      using False owned src dst mint f n nm
      by (intro ledger_step.Move [where n = "unat amount" and a = src and b = dst])
         (auto simp: changed_amount_def native_move_def is_native_def fun_eq_iff)
    ultimately show ?thesis by simp
  qed
qed

text \<open>Minting and burning write an account and its mint; both are owned by the program.\<close>

lemma supply_writes:
  assumes ext: "external_kept s s'" and w: "ta_write s i a' s1" "mint_write s1 j m' s'"
    and a: "ta_view s i = Some a" and m: "mint_view s j = Some m"
    and z: "n = 0 \<Longrightarrow> owner (s i) = token_program_id \<and> owner (s j) = token_program_id"
    and c: "n \<noteq> 0 \<Longrightarrow> ta_amount a' \<noteq> ta_amount a \<and> m_supply m' \<noteq> m_supply m"
  shows "owner (s i) = token_program_id" and "owner (s j) = token_program_id"
    and "ledger_of s' = (ledger_of s)\<lparr>accts := (accts (ledger_of s))(i \<mapsto> a'),
           mints := (mints (ledger_of s))(j \<mapsto> mint_canon m')\<rparr>"
proof -
  have v: "ta_view s' i = Some a'" "mint_view s' j = Some (mint_canon m')"
    using w by (auto simp: ta_write_def mint_write_def)
  have "owner (s i) = token_program_id \<and> owner (s j) = token_program_id"
  proof (cases "n = 0")
    case False
    with c v written_is_owned(1) [OF ext a] written_is_owned(2) [OF ext m] show ?thesis by auto
  qed (use z in simp)
  then show o: "owner (s i) = token_program_id" "owner (s j) = token_program_id" by simp_all
  have "owner (s1 k) = owner (s k)" for k
    using w(1) by (simp add: ta_write_def)
  with o show "ledger_of s' = (ledger_of s)\<lparr>accts := (accts (ledger_of s))(i \<mapsto> a'),
           mints := (mints (ledger_of s))(j \<mapsto> mint_canon m')\<rparr>"
    by (simp add: ta_write_ledger [OF w(1)] mint_write_ledger [OF w(2)] fun_eq_iff)
qed

lemma mint_to_step:
  assumes "process_mint_to token_program_id s accounts amount ed = Ok s'" and ext: "external_kept s s'"
  shows "ledger_step (ledger_of s) (ledger_of s')"
  using assms(1)
proof (rule process_mint_to_Ok)
  fix mint_info dest_info :: keyed_account and a m n sup s1
  let ?i = "unsigned_key dest_info" and ?j = "unsigned_key mint_info"
  assume a: "ta_view s ?i = Some a" "\<not> is_native a" "ta_mint a = ?j"
    and m: "mint_view s ?j = Some m" "m_is_initialized m"
    and n: "unat n = unat (ta_amount a) + unat amount" "unat sup = unat (m_supply m) + unat amount"
    and z: "amount = 0 \<Longrightarrow> owner (cell s mint_info) = token_program_id \<and> owner (cell s dest_info) = token_program_id"
    and w: "ta_write s ?i (a\<lparr>ta_amount := n\<rparr>) s1" "mint_write s1 ?j (m\<lparr>m_supply := sup\<rparr>) s'"
  have "unat amount \<noteq> 0 \<Longrightarrow> n \<noteq> ta_amount a \<and> sup \<noteq> m_supply m" using n by auto
  note L = supply_writes [OF ext w a(1) m(1), of "unat amount"]
  have o: "owner (s ?i) = token_program_id" "owner (s ?j) = token_program_id"
    and L': "ledger_of s' = (ledger_of s)\<lparr>accts := (accts (ledger_of s))(?i \<mapsto> a\<lparr>ta_amount := n\<rparr>),
           mints := (mints (ledger_of s))(ta_mint a \<mapsto> mint_canon (m\<lparr>m_supply := sup\<rparr>))\<rparr>"
    using L z \<open>unat amount \<noteq> 0 \<Longrightarrow> _\<close> a(3) by (simp_all add: unat_eq_0)
  show ?thesis
    unfolding L'
    by (rule ledger_step.Mint_To [where n = "unat amount" and m = m]) (use o a m n in \<open>auto simp: changed_amount_def\<close>)
qed

lemma burn_step:
  assumes "process_burn token_program_id s accounts amount ed = Ok s'" and ext: "external_kept s s'"
  shows "ledger_step (ledger_of s) (ledger_of s')"
  using assms(1)
proof (rule process_burn_Ok)
  fix source_info mint_info authority_info :: keyed_account and it a a1 m n sup s1
  let ?i = "unsigned_key source_info" and ?j = "unsigned_key mint_info"
  assume a: "ta_view s ?i = Some a" "\<not> is_native a" "ta_mint a = ?j"
    and m: "mint_view s ?j = Some m" "m_is_initialized m"
    and debit: "debit_authority token_program_id s a authority_info it amount False = Ok a1"
    and n: "unat (ta_amount a) = unat amount + unat n" "unat (m_supply m) = unat amount + unat sup"
    and z: "amount = 0 \<Longrightarrow> owner (cell s source_info) = token_program_id \<and> owner (cell s mint_info) = token_program_id"
    and w: "ta_write s ?i (a1\<lparr>ta_amount := n\<rparr>) s1" "mint_write s1 ?j (m\<lparr>m_supply := sup\<rparr>) s'"
  note f = debit_authority_fields [OF debit]
  have "unat amount \<noteq> 0 \<Longrightarrow> n \<noteq> ta_amount a \<and> sup \<noteq> m_supply m" using n by auto
  note L = supply_writes [OF ext w a(1) m(1), of "unat amount"]
  have o: "owner (s ?i) = token_program_id" "owner (s ?j) = token_program_id"
    and L': "ledger_of s' = (ledger_of s)\<lparr>accts := (accts (ledger_of s))(?i \<mapsto> a1\<lparr>ta_amount := n\<rparr>),
           mints := (mints (ledger_of s))(ta_mint a \<mapsto> mint_canon (m\<lparr>m_supply := sup\<rparr>))\<rparr>"
    using L z \<open>unat amount \<noteq> 0 \<Longrightarrow> _\<close> a(3) by (simp_all add: unat_eq_0)
  show ?thesis
    unfolding L'
    by (rule ledger_step.Burn [where n = "unat amount" and m = m]) (use o a m n f in \<open>auto simp: changed_amount_def\<close>)
qed

lemma close_step:
  assumes "process_close_account token_program_id s accounts = Ok s'" and ext: "external_kept s s'"
  shows "ledger_step (ledger_of s) (ledger_of s')"
  using assms(1)
proof (rule process_close_account_Ok)
  fix source_info dest_info :: keyed_account and a
  let ?i = "unsigned_key source_info" and ?j = "unsigned_key dest_info"
  assume ne: "?i \<noteq> ?j" and a: "ta_view s ?i = Some a" "is_native a \<or> ta_amount a = 0"
    and v: "ta_view s' = (ta_view s)(?i := None)" "mint_view s' = mint_view s" "\<And>k. owner (s' k) = owner (s k)"
    and l: "lamports (s' ?i) = 0"
      "unat (lamports (s' ?j)) = unat (lamports (s ?j)) + unat (lamports (s ?i))"
    and fr: "\<And>k. k \<noteq> ?i \<Longrightarrow> k \<noteq> ?j \<Longrightarrow> s' k = s k"
  show ?thesis
  proof (cases "owner (s ?i) = token_program_id")
    case True
    have "ledger_of s' = (ledger_of s)\<lparr>accts := (accts (ledger_of s))(?i := None), funds := funds (ledger_of s')\<rparr>"
      using v by (intro ledger_eqI) auto
    moreover have "ledger_step (ledger_of s)
        ((ledger_of s)\<lparr>accts := (accts (ledger_of s))(?i := None), funds := funds (ledger_of s')\<rparr>)"
      using True a ne l fr by (intro ledger_step.Close [where a = a and j = ?j]) auto
    ultimately show ?thesis by simp
  next
    case False
    then have "unat (lamports (s ?i)) = 0"
      using ext l(1) by (auto simp: external_kept_def)
    show ?thesis
    proof (rule ledger_step.Idle)
      show "accts (ledger_of s') = accts (ledger_of s)" "mints (ledger_of s') = mints (ledger_of s)"
        using v False by (auto simp: fun_eq_iff)
      fix k assume "accts (ledger_of s) k \<noteq> None"
      then have "k \<noteq> ?i" using False by auto
      then show "funds (ledger_of s) k \<le> funds (ledger_of s') k"
        using l fr by (cases "k = ?j") auto
    qed
  qed
qed

section \<open>Every instruction is a step\<close>

lemma token_instruction_step:
  assumes "process_token_instruction token_program_id s accounts ix = Ok s'" and "external_kept s s'"
  shows "ledger_step (ledger_of s) (ledger_of s')"
  using assms
  by (cases ix)
     (auto simp: process_initialize_account_def process_initialize_account2_def
       intro: approve_step revoke_step freeze_step set_authority_step sync_step initialize_mint_step
         initialize_account_step initialize_multisig_step transfer_step mint_to_step burn_step close_step)

end
