(* ===== verification/Token_Changes.thy ===== *)
theory Token_Changes
  imports Token_Lifecycle
begin

text \<open>
  What an instruction of the token program can do to one token account and to one mint, and who has
  to act for it. The relations \<open>ta_change\<close> and \<open>mint_change\<close> list the possible effects; every successful
  instruction is one of them at every key.
\<close>

section \<open>Acting authorities\<close>

text \<open>Some account of the instruction acts for \<open>who\<close>, by signature or through a multisignature
  account whose signers are among the instruction's accounts.\<close>

definition acts :: "pubkey \<Rightarrow> store \<Rightarrow> keyed_account list \<Rightarrow> pubkey \<Rightarrow> bool" where
  "acts program_id s accounts who \<longleftrightarrow>
     (\<exists>info signers. info \<in> set accounts \<and> set signers \<subseteq> set accounts
        \<and> authorized program_id s who info signers)"

lemma actsI:
  "authorized program_id s who info signers \<Longrightarrow> info \<in> set accounts \<Longrightarrow> set signers \<subseteq> set accounts \<Longrightarrow>
   acts program_id s accounts who"
  unfolding acts_def by blast

definition may_debit :: "pubkey \<Rightarrow> store \<Rightarrow> keyed_account list \<Rightarrow> token_account \<Rightarrow> nat \<Rightarrow> bool" where
  "may_debit program_id s accounts a n \<longleftrightarrow>
     acts program_id s accounts (ta_owner a)
     \<or> (\<exists>d. ta_delegate a = Some d \<and> acts program_id s accounts d \<and> n \<le> unat (ta_delegated_amount a))"

lemma debit_may_debit:
  assumes "debit_authority program_id s a auth it amount keep = Ok a'" and "auth \<in> set accounts" and "set it \<subseteq> set accounts"
  shows "may_debit program_id s accounts a (unat amount)"
  using debit_authority_sound [OF assms(1)] assms(2,3)
  by (auto simp: debit_authorized_def may_debit_def word_le_nat_alt intro: actsI)

section \<open>What an instruction does to one token account\<close>

text \<open>
  The possible effects of an instruction on the token account at a key, with the authority each of
  them takes. \<open>ta_change\<close> is what every handler does to an existing account.
\<close>

inductive ta_change :: "pubkey \<Rightarrow> store \<Rightarrow> keyed_account list \<Rightarrow> token_account \<Rightarrow> token_account option \<Rightarrow> bool"
  for program_id s accounts a where
  Kept: "ta_change program_id s accounts a (Some a)"
| Debit: "\<not> is_frozen a \<Longrightarrow> may_debit program_id s accounts a n \<Longrightarrow> unat (ta_amount a) = n + unat (ta_amount a') \<Longrightarrow>
    ta_mint a' = ta_mint a \<Longrightarrow> ta_owner a' = ta_owner a \<Longrightarrow> ta_state a' = ta_state a \<Longrightarrow>
    ta_change program_id s accounts a (Some a')"
| Credit: "\<not> is_frozen a \<Longrightarrow> ta_amount a \<le> n \<Longrightarrow> ta_change program_id s accounts a (Some (a\<lparr>ta_amount := n\<rparr>))"
| Synced: "is_native a \<Longrightarrow> ta_amount a \<le> n \<Longrightarrow> ta_change program_id s accounts a (Some (a\<lparr>ta_amount := n\<rparr>))"
| Delegated: "\<not> is_frozen a \<Longrightarrow> acts program_id s accounts (ta_owner a) \<Longrightarrow>
    ta_change program_id s accounts a (Some (a\<lparr>ta_delegate := d, ta_delegated_amount := n\<rparr>))"
| Reassigned: "\<not> is_frozen a \<Longrightarrow> acts program_id s accounts (ta_owner a) \<Longrightarrow> ta_amount a' = ta_amount a \<Longrightarrow>
    ta_mint a' = ta_mint a \<Longrightarrow> ta_state a' = ta_state a \<Longrightarrow> ta_delegate a' = None \<Longrightarrow> ta_delegated_amount a' = 0 \<Longrightarrow>
    ta_change program_id s accounts a (Some a')"
| Closer: "\<not> is_frozen a \<Longrightarrow> acts program_id s accounts (unwrap_or (ta_close_authority a) (ta_owner a)) \<Longrightarrow>
    ta_change program_id s accounts a (Some (a\<lparr>ta_close_authority := d\<rparr>))"
| Frozen_State: "\<not> is_native a \<Longrightarrow> mint_view s (ta_mint a) = Some m \<Longrightarrow> m_freeze_authority m = Some f \<Longrightarrow>
    acts program_id s accounts f \<Longrightarrow> ta_change program_id s accounts a (Some (a\<lparr>ta_state := st\<rparr>))"
| Closed: "is_native a \<or> ta_amount a = 0 \<Longrightarrow>
    acts program_id s accounts (unwrap_or (ta_close_authority a) (ta_owner a)) \<Longrightarrow>
    ta_change program_id s accounts a None"

inductive_cases ta_changeE: "ta_change program_id s accounts a r"

lemma ta_write_change:
  assumes "ta_write s j b s'" and "ta_view s k = Some a" and "k = j \<Longrightarrow> ta_change program_id s0 accounts a (Some b)"
  shows "ta_change program_id s0 accounts a (ta_view s' k)"
  using assms by (cases "k = j") (auto simp: ta_write_def intro: Kept)

lemma mint_write_change:
  "mint_write s j b s' \<Longrightarrow> ta_view s k = Some a \<Longrightarrow> ta_change program_id s0 accounts a (ta_view s' k)"
  by (auto simp: mint_write_def intro: Kept)

lemma set_account_authority_shape:
  assumes "set_account_authority program_id s a ty new_authority authority_info it = Ok a'"
    and "authority_info \<in> set accounts" and "set it \<subseteq> set accounts"
  shows "ta_change program_id s accounts a (Some a')"
proof (cases ty)
  case AccountOwner
  note f = set_account_authority_Ok [OF assms(1), unfolded AccountOwner, simplified]
  from f show ?thesis using assms(2,3)
    by (intro Reassigned) (auto intro: actsI)
next
  case CloseAccountAuthority
  note f = set_account_authority_Ok(1,6) [OF assms(1), unfolded CloseAccountAuthority, simplified]
  have "a' = a\<lparr>ta_close_authority := new_authority\<rparr>"
    using assms(1) CloseAccountAuthority by (auto simp: set_account_authority_def ok_simps split: if_splits)
  then show ?thesis using f assms(2,3) by (auto intro!: Closer intro: actsI)
qed (use assms(1) in \<open>auto simp: set_account_authority_def ok_simps split: if_splits\<close>)

lemma transfer_change:
  assumes "process_transfer program_id s accounts amount ed = Ok s'" and k: "ta_view s k = Some a"
  shows "ta_change program_id s accounts a (ta_view s' k)"
  using assms(1)
proof (rule process_transfer_Ok)
  fix source_info dest_info authority_info :: keyed_account and mint_infos it src src1 dst
  assume accts: "accounts = source_info # mint_infos @ dest_info # authority_info # it"
    and v: "ta_view s (unsigned_key source_info) = Some src" "ta_view s (unsigned_key dest_info) = Some dst"
    and fr: "\<not> is_frozen src" "\<not> is_frozen dst"
    and debit: "debit_authority program_id s src authority_info it amount
           (unsigned_key source_info = unsigned_key dest_info) = Ok src1"
    and self: "unsigned_key source_info = unsigned_key dest_info \<Longrightarrow> s' = s"
    and commit: "unsigned_key source_info \<noteq> unsigned_key dest_info \<Longrightarrow>
           commit_transfer s source_info dest_info src1 dst amount = Ok s'"
  show ?thesis
  proof (cases "unsigned_key source_info = unsigned_key dest_info")
    case True
    with self k show ?thesis by (auto intro: Kept)
  next
    case False
    note f = debit_authority_fields [OF debit]
    have i: "ta_is_initialized src1" "ta_is_initialized dst"
      using ta_view_initialized [OF v(1)] ta_view_initialized [OF v(2)] f(4) by (simp_all add: ta_is_initialized_def)
    obtain x y where n: "unat (ta_amount src1) = unat amount + unat x" "unat y = unat (ta_amount dst) + unat amount"
      and view: "ta_view s' = (ta_view s)(unsigned_key source_info \<mapsto> src1\<lparr>ta_amount := x\<rparr>, unsigned_key dest_info \<mapsto> dst\<lparr>ta_amount := y\<rparr>)"
      using commit_transfer_Ok [OF commit [OF False] i False] by auto
    have au: "may_debit program_id s accounts src (unat amount)"
      by (rule debit_may_debit [OF debit]) (use accts in auto)
    consider "k = unsigned_key dest_info" | "k = unsigned_key source_info" "k \<noteq> unsigned_key dest_info"
      | "k \<noteq> unsigned_key source_info" "k \<noteq> unsigned_key dest_info" by blast
    then show ?thesis
    proof cases
      case 1
      then show ?thesis using k v fr n by (auto simp: view word_le_nat_alt intro: Credit)
    next
      case 2
      then show ?thesis using k v fr n au f by (auto simp: view intro: Debit [where n = "unat amount"])
    qed (use k in \<open>auto simp: view intro: Kept\<close>)
  qed
qed

lemma init_account_change:
  assumes "process_initialize_account_aux program_id s accounts owner_opt = Ok s'" and k: "ta_view s k = Some a"
  shows "ta_change program_id s accounts a (ta_view s' k)"
  using assms(1) by (rule process_initialize_account_aux_Ok) (erule ta_write_change [OF _ k], use k in simp)

lemma mint_to_change:
  assumes "process_mint_to program_id s accounts amount ed = Ok s'" and k: "ta_view s k = Some a"
  shows "ta_change program_id s accounts a (ta_view s' k)"
  using assms(1)
proof (rule process_mint_to_Ok)
  fix dest_info mint_info :: keyed_account and b n m s1
  assume b: "ta_view s (unsigned_key dest_info) = Some b" "\<not> is_frozen b" "unat n = unat (ta_amount b) + unat amount"
    and w: "ta_write s (unsigned_key dest_info) (b\<lparr>ta_amount := n\<rparr>) s1" "mint_write s1 (unsigned_key mint_info) m s'"
  have "ta_change program_id s accounts a (ta_view s1 k)"
    using b k by (intro ta_write_change [OF w(1) k]) (auto simp: word_le_nat_alt intro!: Credit)
  then show ?thesis using w(2) by (simp add: mint_write_def)
qed

lemma burn_change:
  assumes "process_burn program_id s accounts amount ed = Ok s'" and k: "ta_view s k = Some a"
  shows "ta_change program_id s accounts a (ta_view s' k)"
  using assms(1)
proof (rule process_burn_Ok)
  fix source_info mint_info authority_info :: keyed_account and it b b1 n m s1
  assume accts: "accounts = source_info # mint_info # authority_info # it"
    and b: "ta_view s (unsigned_key source_info) = Some b" "\<not> is_frozen b" "unat (ta_amount b) = unat amount + unat n"
    and debit: "debit_authority program_id s b authority_info it amount False = Ok b1"
    and w: "ta_write s (unsigned_key source_info) (b1\<lparr>ta_amount := n\<rparr>) s1" "mint_write s1 (unsigned_key mint_info) m s'"
  have "may_debit program_id s accounts b (unat amount)"
    by (rule debit_may_debit [OF debit]) (use accts in auto)
  then have "ta_change program_id s accounts a (ta_view s1 k)"
    using b k debit_authority_fields [OF debit]
    by (intro ta_write_change [OF w(1) k]) (auto intro!: Debit [where n = "unat amount"])
  then show ?thesis using w(2) by (simp add: mint_write_def)
qed

lemma token_instruction_change:
  assumes "process_token_instruction program_id s accounts ix = Ok s'" and k: "ta_view s k = Some a"
  shows "ta_change program_id s accounts a (ta_view s' k)"
proof -
  have approve: "ta_change program_id s accounts a (ta_view s' k)" if "process_approve program_id s accounts n ed = Ok s'" for n ed
    using that by (rule process_approve_Ok) (erule ta_write_change [OF _ k], use k in \<open>auto intro!: Delegated intro: actsI\<close>)
  have revoke: "ta_change program_id s accounts a (ta_view s' k)" if "process_revoke program_id s accounts = Ok s'"
    using that by (rule process_revoke_Ok) (erule ta_write_change [OF _ k], use k in \<open>auto intro!: Delegated intro: actsI\<close>)
  have freeze: "ta_change program_id s accounts a (ta_view s' k)" if "process_toggle_freeze_account program_id s accounts b = Ok s'" for b
    using that by (rule process_toggle_freeze_account_Ok) (erule ta_write_change [OF _ k], use k in \<open>auto intro!: Frozen_State intro: actsI\<close>)
  have sync: "ta_change program_id s accounts a (ta_view s' k)" if "process_sync_native program_id s accounts = Ok s'"
    using that by (rule process_sync_native_Ok) (erule ta_write_change [OF _ k], use k in \<open>auto simp: is_native_def intro!: Synced\<close>)
  have close: "ta_change program_id s accounts a (ta_view s' k)" if "process_close_account program_id s accounts = Ok s'"
    using that by (rule process_close_account_Ok) (use k in \<open>auto intro!: Closed Kept intro: actsI\<close>)
  have init_mint: "ta_change program_id s accounts a (ta_view s' k)" if "process_initialize_mint s accounts n y d m f = Ok s'" for n y d m f
    using that by (rule process_initialize_mint_Ok) (erule mint_write_change [OF _ k])
  have set: "ta_change program_id s accounts a (ta_view s' k)" if "process_set_authority program_id s accounts ty na = Ok s'" for ty na
    using that
    by (rule process_set_authority_Ok)
       (use k in \<open>auto elim!: ta_write_change mint_write_change intro!: set_account_authority_shape\<close>)
  have multi: "ta_change program_id s accounts a (ta_view s' k)" if "process_initialize_multisig s accounts m = Ok s'" for m
    using process_initialize_multisig_Ok(1) [OF that] k by (auto intro: Kept)
  show ?thesis
    using assms(1)
    by (cases ix)
       (simp_all add: approve revoke freeze sync close init_mint set multi transfer_change [OF _ k] mint_to_change [OF _ k]
         burn_change [OF _ k] init_account_change [OF _ k] process_initialize_account_def process_initialize_account2_def)
qed

section \<open>What an instruction does to one mint\<close>

inductive mint_change :: "pubkey \<Rightarrow> store \<Rightarrow> keyed_account list \<Rightarrow> mint \<Rightarrow> mint \<Rightarrow> bool"
  for program_id s accounts m where
  Mint_Kept: "mint_change program_id s accounts m m"
| Mint_Created: "\<not> m_is_initialized m \<Longrightarrow> m_is_initialized m' \<Longrightarrow> m_supply m' = m_supply m \<Longrightarrow>
    mint_change program_id s accounts m m'"
| Minted: "m_is_initialized m \<Longrightarrow> m_mint_authority m = Some au \<Longrightarrow> acts program_id s accounts au \<Longrightarrow> m_supply m \<le> n \<Longrightarrow>
    mint_change program_id s accounts m (mint_canon (m\<lparr>m_supply := n\<rparr>))"
| Burned: "m_is_initialized m \<Longrightarrow> n \<le> m_supply m \<Longrightarrow>
    mint_change program_id s accounts m (mint_canon (m\<lparr>m_supply := n\<rparr>))"
| Mint_Reassigned: "m_is_initialized m \<Longrightarrow> m_mint_authority m = Some au \<Longrightarrow> acts program_id s accounts au \<Longrightarrow>
    mint_change program_id s accounts m (mint_canon (m\<lparr>m_mint_authority := new\<rparr>))"
| Freeze_Reassigned: "m_is_initialized m \<Longrightarrow> m_freeze_authority m = Some au \<Longrightarrow> acts program_id s accounts au \<Longrightarrow>
    mint_change program_id s accounts m (mint_canon (m\<lparr>m_freeze_authority := new\<rparr>))"

inductive_cases mint_changeE: "mint_change program_id s accounts m m'"

lemma mint_canon_sel [simp]:
  "m_supply (mint_canon m) = m_supply m" "m_is_initialized (mint_canon m) = m_is_initialized m"
  "m_mint_authority (mint_canon m) = m_mint_authority m" "m_freeze_authority (mint_canon m) = m_freeze_authority m"
  "m_decimals (mint_canon m) = m_decimals m"
  by (simp_all add: mint_canon_def)

lemma mint_write_mint:
  assumes "mint_write s j b s'" and "mint_view s k = Some m"
    and "k = j \<Longrightarrow> mint_change program_id s0 accounts m (mint_canon b)"
  shows "\<exists>m'. mint_view s' k = Some m' \<and> mint_change program_id s0 accounts m m'"
  using assms by (cases "k = j") (auto simp: mint_write_def intro: Mint_Kept)

lemma mint_kept:
  "mint_view s' = mint_view s \<Longrightarrow> mint_view s k = Some m \<Longrightarrow>
   \<exists>m'. mint_view s' k = Some m' \<and> mint_change program_id s0 accounts m m'"
  by (auto intro: Mint_Kept)

lemma mint_to_mint:
  assumes "process_mint_to program_id s accounts amount ed = Ok s'" and k: "mint_view s k = Some m"
  shows "\<exists>m'. mint_view s' k = Some m' \<and> mint_change program_id s accounts m m'"
  using assms(1)
proof (rule process_mint_to_Ok)
  fix dest_info mint_info owner_info :: keyed_account and it a b au n sup s1
  assume accts: "accounts = mint_info # dest_info # owner_info # it"
    and b: "mint_view s (unsigned_key mint_info) = Some b" "m_is_initialized b" "m_mint_authority b = Some au"
      "authorized program_id s au owner_info it" "unat sup = unat (m_supply b) + unat amount"
    and w: "ta_write s (unsigned_key dest_info) a s1" "mint_write s1 (unsigned_key mint_info) (b\<lparr>m_supply := sup\<rparr>) s'"
  have "mint_view s1 k = Some m" using w(1) k by (simp add: ta_write_def)
  moreover have "mint_change program_id s accounts m (mint_canon (b\<lparr>m_supply := sup\<rparr>))" if "k = unsigned_key mint_info"
    using b k that accts by (auto simp: word_le_nat_alt intro!: Minted intro: actsI)
  ultimately show ?thesis by (rule mint_write_mint [OF w(2)])
qed

lemma burn_mint:
  assumes "process_burn program_id s accounts amount ed = Ok s'" and k: "mint_view s k = Some m"
  shows "\<exists>m'. mint_view s' k = Some m' \<and> mint_change program_id s accounts m m'"
  using assms(1)
proof (rule process_burn_Ok)
  fix source_info mint_info :: keyed_account and a b sup s1
  assume b: "mint_view s (unsigned_key mint_info) = Some b" "m_is_initialized b" "unat (m_supply b) = unat amount + unat sup"
    and w: "ta_write s (unsigned_key source_info) a s1" "mint_write s1 (unsigned_key mint_info) (b\<lparr>m_supply := sup\<rparr>) s'"
  have "mint_view s1 k = Some m" using w(1) k by (simp add: ta_write_def)
  moreover have "mint_change program_id s accounts m (mint_canon (b\<lparr>m_supply := sup\<rparr>))" if "k = unsigned_key mint_info"
    using b k that by (auto simp: word_le_nat_alt intro!: Burned)
  ultimately show ?thesis by (rule mint_write_mint [OF w(2)])
qed

lemma transfer_mint:
  assumes "process_transfer program_id s accounts amount ed = Ok s'"
  shows "mint_view s' = mint_view s"
  using assms
proof (rule process_transfer_Ok)
  fix source_info dest_info authority_info :: keyed_account and it src src1 dst
  assume v: "ta_view s (unsigned_key source_info) = Some src" "ta_view s (unsigned_key dest_info) = Some dst"
    and debit: "debit_authority program_id s src authority_info it amount
           (unsigned_key source_info = unsigned_key dest_info) = Ok src1"
    and self: "unsigned_key source_info = unsigned_key dest_info \<Longrightarrow> s' = s"
    and commit: "unsigned_key source_info \<noteq> unsigned_key dest_info \<Longrightarrow>
           commit_transfer s source_info dest_info src1 dst amount = Ok s'"
  have "ta_is_initialized src1" "ta_is_initialized dst"
    using ta_view_initialized [OF v(1)] ta_view_initialized [OF v(2)] debit_authority_fields(4) [OF debit]
    by (simp_all add: ta_is_initialized_def)
  with self commit show ?thesis
    using commit_transfer_Ok [of s source_info dest_info src1 dst amount s']
    by (cases "unsigned_key source_info = unsigned_key dest_info") auto
qed

lemma set_authority_mint:
  assumes "process_set_authority program_id s accounts ty new = Ok s'" and k: "mint_view s k = Some m"
  shows "\<exists>m'. mint_view s' k = Some m' \<and> mint_change program_id s accounts m m'"
  using assms(1)
proof (rule process_set_authority_Ok)
  fix account_info authority_info :: keyed_account and it b b'
  assume accts: "accounts = account_info # authority_info # it"
    and b: "mint_view s (unsigned_key account_info) = Some b" "m_is_initialized b"
    and set: "set_mint_authority program_id s b ty new authority_info it = Ok b'"
    and w: "mint_write s (unsigned_key account_info) b' s'"
  have "mint_change program_id s accounts b (mint_canon b')"
    using set by (rule set_mint_authority_Ok)
      (use b accts in \<open>auto intro!: Mint_Reassigned Freeze_Reassigned intro: actsI\<close>)
  then show ?thesis
    using b k by (intro mint_write_mint [OF w k]) simp
qed (use k in \<open>auto simp: ta_write_def intro: Mint_Kept\<close>)

lemma token_instruction_mint:
  assumes "process_token_instruction program_id s accounts ix = Ok s'" and k: "mint_view s k = Some m"
  shows "\<exists>m'. mint_view s' k = Some m' \<and> mint_change program_id s accounts m m'"
proof -
  let ?P = "\<exists>m'. mint_view s' k = Some m' \<and> mint_change program_id s accounts m m'"
  have approve: ?P if "process_approve program_id s accounts n ed = Ok s'" for n ed
    using that by (rule process_approve_Ok) (intro mint_kept [OF _ k], simp add: ta_write_def)
  have revoke: ?P if "process_revoke program_id s accounts = Ok s'"
    using that by (rule process_revoke_Ok) (intro mint_kept [OF _ k], simp add: ta_write_def)
  have freeze: ?P if "process_toggle_freeze_account program_id s accounts b = Ok s'" for b
    using that by (rule process_toggle_freeze_account_Ok) (intro mint_kept [OF _ k], simp add: ta_write_def)
  have sync: ?P if "process_sync_native program_id s accounts = Ok s'"
    using that by (rule process_sync_native_Ok) (intro mint_kept [OF _ k], simp add: ta_write_def)
  have close: ?P if "process_close_account program_id s accounts = Ok s'"
    using that by (rule process_close_account_Ok) (intro mint_kept [OF _ k])
  have init: ?P if "process_initialize_account_aux program_id s accounts ow = Ok s'" for ow
    using that by (rule process_initialize_account_aux_Ok) (intro mint_kept [OF _ k], simp add: ta_write_def)
  have init_mint: ?P if "process_initialize_mint s accounts n y d m f = Ok s'" for n y d m f
    using that by (rule process_initialize_mint_Ok) (erule mint_write_mint [OF _ k], use k in \<open>auto intro!: Mint_Created\<close>)
  have multi: ?P if "process_initialize_multisig s accounts m = Ok s'" for m
    using process_initialize_multisig_Ok(2) [OF that] by (rule mint_kept [OF _ k])
  have move: ?P if "process_transfer program_id s accounts n ed = Ok s'" for n ed
    using transfer_mint [OF that] by (rule mint_kept [OF _ k])
  show ?P
    using assms(1)
    by (cases ix)
       (simp_all add: approve revoke freeze sync close init init_mint set_authority_mint [OF _ k] multi move
         mint_to_mint [OF _ k] burn_mint [OF _ k] process_initialize_account_def process_initialize_account2_def)
qed

end
