(* ===== verification/Token_Properties.thy ===== *)
theory Token_Properties
  imports Token_Changes
begin

text \<open>
  The properties of the token program: who can move, mint, burn or close tokens, what each of the
  instructions changes, that a transfer whose conditions hold succeeds, and where handlers panic.
\<close>

section \<open>Sample ledgers\<close>

definition acct_bytes :: "token_account \<Rightarrow> u8 list" where
  "acct_bytes a = (case pack TokenAccount a (replicate 165 0) of Ok d \<Rightarrow> d | _ \<Rightarrow> [])"

definition mint_bytes :: "mint \<Rightarrow> u8 list" where
  "mint_bytes m = (case pack Mint m (replicate 124 0) of Ok d \<Rightarrow> d | _ \<Rightarrow> [])"

lemma pack_acct_bytes: "pack TokenAccount a (replicate 165 0) = Ok (acct_bytes a)"
  by (simp add: acct_bytes_def pack_def TokenAccount_def ta_pack_into_slice_def)

lemma unpack_acct_bytes: "ta_is_initialized a \<Longrightarrow> unpack TokenAccount (acct_bytes a) = Ok a"
  using ta_format.unpack_after_pack [OF pack_acct_bytes] by simp

lemma length_acct_bytes [simp]: "length (acct_bytes a) = 165"
  using ta_format.length_after_pack [OF pack_acct_bytes] by simp

lemma unpack_mint_bytes:
  assumes "string_len (m_name m) \<le> 32" and "string_len (m_symbol m) \<le> 10"
  shows "unpack_unchecked Mint (mint_bytes m) = Ok (mint_canon m)" and "length (mint_bytes m) = 124"
proof -
  have "pack Mint m (replicate 124 0) = Ok (mint_bytes m)"
    using assms by (simp add: mint_bytes_def pack_def Mint_def mint_pack_into_slice_def puffed_out_string_def
        MAX_NAME_LENGTH_def MAX_SYMBOL_LENGTH_def)
  from mint_format.unpack_unchecked_after_pack [OF this] mint_format.length_after_pack [OF this]
  show "unpack_unchecked Mint (mint_bytes m) = Ok (mint_canon m)" "length (mint_bytes m) = 124" by simp_all
qed

definition holder :: "pubkey \<Rightarrow> pubkey \<Rightarrow> u64 \<Rightarrow> token_account" where
  "holder mt ow n = \<lparr>ta_mint = mt, ta_owner = ow, ta_amount = n, ta_delegate = None, ta_state = Initialized,
     ta_is_native = None, ta_delegated_amount = 0, ta_close_authority = None\<rparr>"

definition sample_mint :: "pubkey option \<Rightarrow> u64 \<Rightarrow> mint" where
  "sample_mint au n = \<lparr>m_mint_authority = au, m_name = string_zeroes 32, m_symbol = string_zeroes 10, m_supply = n, m_decimals = 9,
     m_is_initialized = True, m_freeze_authority = None\<rparr>"

definition token_cell :: "u8 list \<Rightarrow> account" where
  "token_cell d = \<lparr>lamports = 9, data = d, owner = token_program_id, executable = False, rent_epoch = 0\<rparr>"

text \<open>Mint 50 has a fixed supply, held by accounts 51, 52 and the frozen 53; mint 54 has an authority, and
  account 55 belongs to it. Every other account is empty.\<close>

definition sample_store :: store where
  "sample_store k =
     (if k = 50 then token_cell (mint_bytes (sample_mint None 37))
      else if k = 51 then token_cell (acct_bytes (holder 50 61 20))
      else if k = 52 then token_cell (acct_bytes (holder 50 62 10))
      else if k = 53 then token_cell (acct_bytes (holder 50 63 7\<lparr>ta_state := Frozen\<rparr>))
      else if k = 54 then token_cell (mint_bytes (sample_mint (Some 64) 3))
      else if k = 55 then token_cell (acct_bytes (holder 54 65 3))
      else \<lparr>lamports = 5, data = [], owner = 0, executable = False, rent_epoch = 0\<rparr>)"

definition ka :: "bool \<Rightarrow> pubkey \<Rightarrow> keyed_account" where
  "ka sg k = \<lparr>is_signer = sg, is_writable = True, unsigned_key = k\<rparr>"

lemma ka_sel [simp]: "is_signer (ka sg k) = sg" "unsigned_key (ka sg k) = k"
  by (simp_all add: ka_def)

lemma holder_sel [simp]:
  "ta_is_initialized (holder mt ow n)" "\<not> is_frozen (holder mt ow n)" "\<not> is_native (holder mt ow n)"
  "ta_mint (holder mt ow n) = mt" "ta_owner (holder mt ow n) = ow" "ta_amount (holder mt ow n) = n"
  "ta_delegate (holder mt ow n) = None" "ta_close_authority (holder mt ow n) = None"
  "ta_is_initialized (holder mt ow n\<lparr>ta_state := Frozen\<rparr>)" "holder mt ow n\<lparr>ta_amount := m\<rparr> = holder mt ow m"
  by (simp_all add: holder_def ta_is_initialized_def is_frozen_def is_native_def)

lemma sample_mint_bytes:
  "unpack_unchecked Mint (mint_bytes (sample_mint au n)) = Ok (sample_mint au n)"
  "length (mint_bytes (sample_mint au n)) = 124"
proof -
  have "mint_canon (sample_mint au n) = sample_mint au n"
    by (simp add: mint_canon_def sample_mint_def)
  then show "unpack_unchecked Mint (mint_bytes (sample_mint au n)) = Ok (sample_mint au n)"
      "length (mint_bytes (sample_mint au n)) = 124"
    using unpack_mint_bytes [of "sample_mint au n"] by (simp_all add: sample_mint_def)
qed

lemma sample_views:
  "ta_view sample_store 51 = Some (holder 50 61 20)" "ta_view sample_store 52 = Some (holder 50 62 10)"
  "ta_view sample_store 53 = Some (holder 50 63 7\<lparr>ta_state := Frozen\<rparr>)" "ta_view sample_store 55 = Some (holder 54 65 3)"
  "mint_view sample_store 50 = Some (sample_mint None 37)" "mint_view sample_store 54 = Some (sample_mint (Some 64) 3)"
  by (simp_all add: ta_view_Some mint_view_Some sample_store_def token_cell_def unpack_acct_bytes sample_mint_bytes)

lemma sample_owners: "owner (sample_store 51) = token_program_id" "owner (sample_store 52) = token_program_id"
  by (simp_all add: sample_store_def token_cell_def)

lemma signer_validates:
  "owner (s k) \<noteq> program_id \<Longrightarrow> validate_owner program_id s k (ka True k) signers = Ok ()"
  by (simp add: validate_owner_def ka_owner_def signer_key_def)

lemma sample_signers:
  "validate_owner token_program_id sample_store 61 (ka True 61) signers = Ok ()"
  "validate_owner token_program_id sample_store 64 (ka True 64) signers = Ok ()"
  by (simp_all add: signer_validates sample_store_def token_program_id_def)

section \<open>Transfers\<close>

lemma pack_ka_TokenAccount: 
  "length (data (cell s i)) = 165 \<Longrightarrow> \<exists>s'. pack_ka TokenAccount a s i = Ok s'"
  by (simp add: pack_ka_def pack_def TokenAccount_def ta_pack_into_slice_def)

lemma commit_transfer_runs:
  fixes source_info dest_info :: keyed_account
  assumes ne: "unsigned_key source_info \<noteq> unsigned_key dest_info"
    and l: "length (data (cell s source_info)) = 165" "length (data (cell s dest_info)) = 165"
    and n: "amount \<le> ta_amount src" "unat (ta_amount dst) + unat amount < 2 ^ 64"
    and nat: "is_native src \<Longrightarrow> amount \<le> lamports (cell s source_info)
           \<and> unat (lamports (cell s dest_info)) + unat amount < 2 ^ 64"
  shows "\<exists>s'. commit_transfer s source_info dest_info src dst amount = Ok s'"
proof -
  let ?x = "ta_amount src - amount" and ?y = "ta_amount dst + amount"
  have amounts: "checked_sub (ta_amount src) amount = Some ?x" "checked_add (ta_amount dst) amount = Some ?y"
    using n by (simp_all add: checked_sub_def checked_add_def)
  obtain s1 where s1: "(if is_native src
       then and_then (ok_or (token_err Overflow) (checked_sub (ka_lamports s source_info) amount)) (\<lambda>l.
            let s = ka_set_lamports s source_info l in
            and_then (ok_or (token_err Overflow) (checked_add (ka_lamports s dest_info) amount)) (\<lambda>l.
            Ok (ka_set_lamports s dest_info l)))
       else Ok s) = Ok s1" and "\<And>k. data (s1 k) = data (s k)"
  proof (cases "is_native src")
    case True
    then show ?thesis
      using nat ne
      by (intro that [of "ka_set_lamports (ka_set_lamports s source_info (lamports (cell s source_info) - amount))
             dest_info (lamports (cell s dest_info) + amount)"]) (auto simp: checked_sub_def checked_add_def ka_lamports_def store_simps Let_def)
  qed (use that in simp)
  then obtain s2 where s2: "pack_ka TokenAccount (src\<lparr>ta_amount := ?x\<rparr>) s1 source_info = Ok s2"
    using pack_ka_TokenAccount [of s1 source_info] l(1) by auto
  then have "length (data (cell s2 dest_info)) = 165"
    using l(2) ne \<open>\<And>k. data (s1 k) = data (s k)\<close> by (auto simp: pack_ka_def ok_simps store_simps)
  then obtain s' where "pack_ka TokenAccount (dst\<lparr>ta_amount := ?y\<rparr>) s2 dest_info = Ok s'"
    using pack_ka_TokenAccount by blast
  then show ?thesis
    using s1 s2 amounts by (simp add: commit_transfer_def Let_def is_native_def)
qed

lemma transfer_runs:
  fixes source_info dest_info authority_info :: keyed_account
  assumes v: "ta_view s (unsigned_key source_info) = Some src" "ta_view s (unsigned_key dest_info) = Some dst"
    and ne: "unsigned_key source_info \<noteq> unsigned_key dest_info"
    and "\<not> is_frozen src" "\<not> is_frozen dst" "ta_mint src = ta_mint dst"
    and n: "amount \<le> ta_amount src" "unat (ta_amount dst) + unat amount < 2 ^ 64"
    and "ta_delegate src \<noteq> Some (unsigned_key authority_info)"
    and "validate_owner program_id s (ta_owner src) authority_info signers = Ok ()"
    and "owner (s (unsigned_key source_info)) = program_id" "owner (s (unsigned_key dest_info)) = program_id"
    and nat: "is_native src \<Longrightarrow> amount \<le> lamports (s (unsigned_key source_info))
           \<and> unat (lamports (s (unsigned_key dest_info))) + unat amount < 2 ^ 64"
  shows "\<exists>s'. process_transfer program_id s (source_info # dest_info # authority_info # signers) amount None = Ok s'"
proof -
  have l: "length (data (cell s source_info)) = 165" "length (data (cell s dest_info)) = 165"
    using v by (auto simp: ta_view_Some dest!: unpack_length)
  have debit: "debit_authority program_id s src authority_info signers amount False = Ok src"
    using assms(9,10) by (auto simp: debit_authority_def split: option.splits)
  obtain s' where "commit_transfer s source_info dest_info src dst amount = Ok s'"
    using commit_transfer_runs [OF ne l n] nat by blast
  with assms debit show ?thesis
    by (simp add: process_transfer_def next_expected_mint_def check_expected_mint_def check_account_owner_def
        ka_owner_def unpack_ka_def ta_view_Some Let_def not_less)
qed

text \<open>C17: A transfer of tokens between two accounts of a mint, by the owner of the first, succeeds when
  neither is frozen and the amounts fit. It moves exactly the amount, and for wrapped accounts the
  same number of lamports; every other account of the store is unchanged.\<close>

theorem transfer_complete:
  fixes source_info dest_info authority_info :: keyed_account
  assumes v: "ta_view s (unsigned_key source_info) = Some src" "ta_view s (unsigned_key dest_info) = Some dst"
    and ne: "unsigned_key source_info \<noteq> unsigned_key dest_info"
    and "\<not> is_frozen src" "\<not> is_frozen dst" "ta_mint src = ta_mint dst"
    and "amount \<le> ta_amount src" "unat (ta_amount dst) + unat amount < 2 ^ 64"
    and del: "ta_delegate src \<noteq> Some (unsigned_key authority_info)"
    and "validate_owner program_id s (ta_owner src) authority_info signers = Ok ()"
    and "owner (s (unsigned_key source_info)) = program_id" "owner (s (unsigned_key dest_info)) = program_id"
    and "is_native src \<Longrightarrow> amount \<le> lamports (s (unsigned_key source_info))
           \<and> unat (lamports (s (unsigned_key dest_info))) + unat amount < 2 ^ 64"
  shows "\<exists>s'. process_token_instruction program_id s (source_info # dest_info # authority_info # signers) (Transfer amount) = Ok s'
    \<and> ta_view s' = (ta_view s)(unsigned_key source_info \<mapsto> src\<lparr>ta_amount := ta_amount src - amount\<rparr>,
                               unsigned_key dest_info \<mapsto> dst\<lparr>ta_amount := ta_amount dst + amount\<rparr>)
    \<and> mint_view s' = mint_view s
    \<and> (\<forall>k. k \<noteq> unsigned_key source_info \<longrightarrow> k \<noteq> unsigned_key dest_info \<longrightarrow> s' k = s k)
    \<and> native_move s (unsigned_key source_info) (unsigned_key dest_info) amount (is_native src) s'"
proof -
  obtain s' where run: "process_transfer program_id s (source_info # dest_info # authority_info # signers) amount None = Ok s'"
    using transfer_runs [OF assms] by blast
  from run show ?thesis
  proof (rule process_transfer_Ok)
    fix si mis di ai it x src1 y
    assume a: "source_info # dest_info # authority_info # signers = si # mis @ di # ai # it"
        "length mis = (if None = None then 0 else 1)"
      and v': "ta_view s (unsigned_key si) = Some x" "ta_view s (unsigned_key di) = Some y"
      and debit: "debit_authority program_id s x ai it amount (unsigned_key si = unsigned_key di) = Ok src1"
      and commit: "unsigned_key si \<noteq> unsigned_key di \<Longrightarrow> commit_transfer s si di src1 y amount = Ok s'"
    have eq: "si = source_info" "di = dest_info" "ai = authority_info" "x = src" "y = dst"
      using a v v' by auto
    have "src1 = src"
      using debit_authority_owner [OF debit] del by (simp add: eq)
    then have c: "commit_transfer s source_info dest_info src dst amount = Ok s'"
      using commit ne by (simp add: eq)
    obtain p q where "unat (ta_amount src) = unat amount + unat p" "unat q = unat (ta_amount dst) + unat amount"
      and view: "ta_view s' = (ta_view s)(unsigned_key source_info \<mapsto> src\<lparr>ta_amount := p\<rparr>,
                               unsigned_key dest_info \<mapsto> dst\<lparr>ta_amount := q\<rparr>)"
      and rest: "mint_view s' = mint_view s" "\<forall>k. k \<noteq> unsigned_key source_info \<longrightarrow> k \<noteq> unsigned_key dest_info \<longrightarrow> s' k = s k"
        "native_move s (unsigned_key source_info) (unsigned_key dest_info) amount (is_native src) s'"
      using commit_transfer_Ok [OF c] v ne ta_view_initialized by blast
    then have "checked_sub (ta_amount src) amount = Some p" "checked_add (ta_amount dst) amount = Some q"
      by (simp_all add: checked_sub_eq_Some checked_add_eq_Some)
    then have "p = ta_amount src - amount" "q = ta_amount dst + amount"
      by (simp_all add: checked_sub_def checked_add_def split: if_splits)
    with view rest run show ?thesis by (intro exI [of _ s']) simp
  qed
qed

theorem transfer_complete_witness:
  "\<exists>s'. process_token_instruction token_program_id sample_store [ka False 51, ka False 52, ka True 61] (Transfer 5) = Ok s'
     \<and> ta_view s' = (ta_view sample_store)(51 \<mapsto> holder 50 61 15, 52 \<mapsto> holder 50 62 15)"
proof -
  show ?thesis
    using transfer_complete [of sample_store "ka False 51" "holder 50 61 20" "ka False 52" "holder 50 62 10" 5
        "ka True 61" token_program_id "[]"] sample_views sample_signers(1) [of "[]"] sample_owners
    by auto
qed

text \<open>The run that the following witnesses share.\<close>

lemma sample_transfer:
  obtains s' where "process_token_instruction token_program_id sample_store [ka False 51, ka False 52, ka True 61] (Transfer 5) = Ok s'"
    and "ta_view s' 51 = Some (holder 50 61 15)"
proof -
  obtain s' where s': "process_transfer token_program_id sample_store [ka False 51, ka False 52, ka True 61] 5 None = Ok s'"
    using transfer_runs [of sample_store "ka False 51" "holder 50 61 20" "ka False 52" "holder 50 62 10" 5
        "ka True 61" token_program_id "[]"] sample_views sample_signers(1) [of "[]"] sample_owners by auto
  from s' have "ta_view s' 51 = Some (holder 50 61 15)"
  proof (rule process_transfer_Ok)
    fix si mis di ai it x src1 y
    assume a: "[ka False 51, ka False 52, ka True 61] = si # mis @ di # ai # it"
        "length mis = (if None = None then 0 else 1)"
      and v: "ta_view sample_store (unsigned_key si) = Some x" "ta_view sample_store (unsigned_key di) = Some y"
      and debit: "debit_authority token_program_id sample_store x ai it 5 (unsigned_key si = unsigned_key di) = Ok src1"
      and commit: "unsigned_key si \<noteq> unsigned_key di \<Longrightarrow> commit_transfer sample_store si di src1 y 5 = Ok s'"
    have eq: "si = ka False 51" "di = ka False 52" "ai = ka True 61" "x = holder 50 61 20" "y = holder 50 62 10"
      using a v sample_views by auto
    have src1: "src1 = holder 50 61 20"
      using debit_authority_owner [OF debit] by (simp add: eq)
    obtain p where "unat (20 :: u64) = unat (5 :: u64) + unat p" "ta_view s' 51 = Some (holder 50 61 20\<lparr>ta_amount := p\<rparr>)"
      using commit_transfer_Ok [OF commit] by (auto simp: eq src1)
    moreover from this have "p = 15" by (simp add: word_unat_eq_iff)
    ultimately show ?thesis by simp
  qed
  with s' that show thesis by simp
qed

text \<open>C10: Tokens leave an account only for someone who may move them: if an instruction lowers the amount
  of an account, it was not frozen and its owner acted, or its delegate for at most the delegated
  amount; an account that is closed was empty or wrapped, and its close authority (by default its
  owner) acted.\<close>

theorem debit_needs_authority:
  assumes "process_token_instruction program_id s accounts ix = Ok s'" and "ta_view s k = Some a"
  shows "case ta_view s' k of
      None \<Rightarrow> (is_native a \<or> ta_amount a = 0) \<and> acts program_id s accounts (unwrap_or (ta_close_authority a) (ta_owner a))
    | Some a' \<Rightarrow> ta_amount a' < ta_amount a \<longrightarrow>
        \<not> is_frozen a \<and> may_debit program_id s accounts a (unat (ta_amount a) - unat (ta_amount a'))"
  using token_instruction_change [OF assms]
  by (rule ta_changeE) (auto simp: word_less_nat_alt word_le_nat_alt)

theorem debit_needs_authority_witness:
  "\<exists>s'. process_token_instruction token_program_id sample_store [ka False 51, ka False 52, ka True 61] (Transfer 5) = Ok s'
     \<and> may_debit token_program_id sample_store [ka False 51, ka False 52, ka True 61] (holder 50 61 20) 5"
proof -
  obtain s' where s': "process_token_instruction token_program_id sample_store [ka False 51, ka False 52, ka True 61] (Transfer 5) = Ok s'"
      "ta_view s' 51 = Some (holder 50 61 15)"
    by (rule sample_transfer)
  from debit_needs_authority [OF s'(1) sample_views(1)] s' show ?thesis
    by (simp add: word_less_nat_alt)
qed

text \<open>C18: The owner of a token account changes only when the owner acts, and the new owner starts without
  a delegate.\<close>

theorem ownership_needs_owner:
  assumes "process_token_instruction program_id s accounts ix = Ok s'" and "ta_view s k = Some a"
    and "ta_view s' k = Some a'" and "ta_owner a' \<noteq> ta_owner a"
  shows "acts program_id s accounts (ta_owner a) \<and> ta_delegate a' = None \<and> ta_delegated_amount a' = 0
    \<and> ta_amount a' = ta_amount a \<and> ta_mint a' = ta_mint a"
  using token_instruction_change [OF assms(1,2)] assms(3,4)
  by (auto elim!: ta_changeE)

theorem ownership_needs_owner_witness:
  "\<exists>s' a'. process_token_instruction token_program_id sample_store [ka False 51, ka True 61] (SetAuthority AccountOwner (Some 62)) = Ok s'
     \<and> ta_view s' 51 = Some a' \<and> ta_owner a' = 62 \<and> ta_amount a' = 20"
proof -
  let ?b = "(holder 50 61 20)\<lparr>ta_owner := 62, ta_delegate := None, ta_delegated_amount := 0\<rparr>"
  have l: "length (data (sample_store 51)) = 165" by (simp add: sample_store_def token_cell_def)
  obtain s' where w: "pack_ka TokenAccount ?b sample_store (ka False 51) = Ok s'"
    using pack_ka_TokenAccount [of sample_store "ka False 51"] l by auto
  have nn: "\<not> is_native ?b" "ta_is_initialized ?b" by (simp_all add: holder_def is_native_def ta_is_initialized_def)
  have run: "process_token_instruction token_program_id sample_store [ka False 51, ka True 61]
      (SetAuthority AccountOwner (Some 62)) = Ok s'"
    using w l sample_views(1) sample_signers(1) [of "[]"] nn
    by (simp add: process_set_authority_def set_account_authority_def ka_data_len_def unpack_ka_def ta_view_Some Let_def)
  have v: "ta_view s' 51 = Some ?b"
    using pack_TokenAccount_view(1) [OF w nn(2)] by simp
  from ownership_needs_owner [OF run sample_views(1) v] run v show ?thesis by auto
qed



text \<open>C20: The supply of a mint grows only when its mint authority acts.\<close>

theorem minting_needs_authority:
  assumes "process_token_instruction program_id s accounts ix = Ok s'" and "mint_view s k = Some m"
    and "mint_view s' k = Some m'" and "m_supply m < m_supply m'"
  shows "\<exists>au. m_mint_authority m = Some au \<and> acts program_id s accounts au"
  using token_instruction_mint [OF assms(1,2)] assms(3,4) by (auto elim!: mint_changeE)

theorem minting_needs_authority_witness:
  "\<exists>s'. process_token_instruction token_program_id sample_store [ka False 54, ka False 55, ka True 64] (MintTo 4) = Ok s'
     \<and> (\<exists>m'. mint_view s' 54 = Some m' \<and> m_supply m' = 7)
     \<and> acts token_program_id sample_store [ka False 54, ka False 55, ka True 64] 64"
proof -
  let ?m = "sample_mint (Some 64) 3"
  have l: "length (data (sample_store 54)) = 124" "length (data (sample_store 55)) = 165"
    by (simp_all add: sample_store_def token_cell_def sample_mint_bytes)
  obtain s1 where w1: "pack_ka TokenAccount (holder 54 65 3\<lparr>ta_amount := 7\<rparr>) sample_store (ka False 55) = Ok s1"
    using pack_ka_TokenAccount [of sample_store "ka False 55"] l by auto
  then have "length (data (s1 54)) = 124"
    using l(1) by (auto simp: pack_ka_def ok_simps store_simps)
  then obtain s' where w2: "pack_ka Mint (?m\<lparr>m_supply := 7\<rparr>) s1 (ka False 54) = Ok s'"
    by (simp add: pack_ka_def pack_def Mint_def mint_pack_into_slice_def puffed_out_string_def sample_mint_def
        MAX_NAME_LENGTH_def MAX_SYMBOL_LENGTH_def)
  have m: "m_mint_authority ?m = Some 64" "m_supply ?m = 3" "m_is_initialized ?m" by (simp_all add: sample_mint_def)
  have run: "process_token_instruction token_program_id sample_store [ka False 54, ka False 55, ka True 64] (MintTo 4) = Ok s'"
    using w1 w2 sample_views(4,6) sample_signers(2) [of "[]"] m
    by (simp add: process_mint_to_def unpack_ka_def ta_view_Some mint_view_Some unpack_def checked_add_def)
  have v: "mint_view s' 54 = Some (mint_canon (?m\<lparr>m_supply := 7\<rparr>))"
    using pack_Mint_view(2) [OF w2] by simp
  have "m_supply ?m < m_supply (mint_canon (?m\<lparr>m_supply := 7\<rparr>))" using m by simp
  from minting_needs_authority [OF run sample_views(6) v this] run v m show ?thesis by auto
qed

text \<open>C21: A mint without a mint authority has a fixed supply: no instruction brings the authority back,
  raises the supply or changes the decimals.\<close>

theorem fixed_supply:
  assumes "process_token_instruction program_id s accounts ix = Ok s'" and "mint_view s k = Some m"
    and "m_is_initialized m" and "m_mint_authority m = None"
  shows "\<exists>m'. mint_view s' k = Some m' \<and> m_is_initialized m' \<and> m_mint_authority m' = None
    \<and> m_supply m' \<le> m_supply m \<and> m_decimals m' = m_decimals m"
  using token_instruction_mint [OF assms(1,2)] assms(3,4) by (auto elim!: mint_changeE)

theorem fixed_supply_witness:
  "\<exists>s' m'. process_token_instruction token_program_id sample_store [ka False 51, ka False 52, ka True 61] (Transfer 5) = Ok s'
     \<and> mint_view s' 50 = Some m' \<and> m_mint_authority m' = None \<and> m_supply m' \<le> 37"
proof -
  obtain s' where s': "process_token_instruction token_program_id sample_store [ka False 51, ka False 52, ka True 61] (Transfer 5) = Ok s'"
    by (rule sample_transfer)
  have m: "m_is_initialized (sample_mint None 37)" "m_mint_authority (sample_mint None 37) = None"
      "m_supply (sample_mint None 37) = 37"
    by (simp_all add: sample_mint_def)
  from fixed_supply [OF s' sample_views(5) m(1,2)] s' m(3) show ?thesis by auto
qed

end
