(* ===== verification/Token_Layout.thy ===== *)
theory Token_Layout
  imports Token_Properties
begin

text \<open>
  Further properties of the token program: the layout of accounts is kept, delegates and
  multisignature owners act within their limits, the byte layouts round-trip, and the inputs on
  which handlers panic.
\<close>

section \<open>Layout of the accounts\<close>

definition same_shape :: "store \<Rightarrow> store \<Rightarrow> bool" where
  "same_shape s s' \<longleftrightarrow>
     (\<forall>k. owner (s' k) = owner (s k) \<and> executable (s' k) = executable (s k) \<and> rent_epoch (s' k) = rent_epoch (s k)
        \<and> length (data (s' k)) = length (data (s k)))"

lemma same_shape_refl [simp]: "same_shape s s"
  by (simp add: same_shape_def)

lemma same_shape_trans: "same_shape s s1 \<Longrightarrow> same_shape s1 s2 \<Longrightarrow> same_shape s s2"
  by (simp add: same_shape_def)

lemma set_lamports_shape [simp]: "same_shape s (ka_set_lamports s i l)"
  by (simp add: same_shape_def store_simps)

lemma pack_shape:
  "pack_ka TokenAccount a s i = Ok s' \<Longrightarrow> same_shape s s'"
  "pack_ka Mint m s i = Ok s' \<Longrightarrow> same_shape s s'"
  "pack_ka Multisig ms s i = Ok s' \<Longrightarrow> same_shape s s'"
  by (auto simp: same_shape_def split: if_splits
      elim!: ta_format.pack_ka_Ok mint_format.pack_ka_Ok multisig_format.pack_ka_Ok)

lemma commit_transfer_shape:
  assumes "commit_transfer s i j src dst amount = Ok s'"
  shows "same_shape s s'"
proof -
  from assms obtain s1 s2 a b where "same_shape s s1" "pack_ka TokenAccount a s1 i = Ok s2" "pack_ka TokenAccount b s2 j = Ok s'"
    unfolding commit_transfer_def Let_def
    by (auto simp: ok_simps split: if_splits) (meson same_shape_trans set_lamports_shape same_shape_refl)+
  then show ?thesis by (blast intro: same_shape_trans pack_shape)
qed

lemma close_account_shape:
  assumes "process_close_account program_id s accounts = Ok s'"
  shows "same_shape s s'"
proof -
  from assms obtain i j l a where "s' = ka_set_data (ka_set_lamports (ka_set_lamports s j l) i 0) i
        (unsafe_memset (data (cell (ka_set_lamports (ka_set_lamports s j l) i 0) i)) 0 165)"
      and "ta_view s (unsigned_key i) = Some a"
    unfolding process_close_account_def Let_def by (auto simp: ok_simps split: if_splits)
  moreover from this(2) have "length (data (cell s i)) = 165"
    by (auto simp: ta_view_Some dest: unpack_length)
  ultimately show ?thesis
    by (auto simp: same_shape_def store_simps length_unsafe_memset)
qed

lemma init_mint_shape: "process_initialize_mint s accounts n y d m f = Ok s' \<Longrightarrow> same_shape s s'"
  unfolding process_initialize_mint_def Let_def by (elim ok_elims) (rule pack_shape)

lemma init_account_shape: "process_initialize_account_aux program_id s accounts ow = Ok s' \<Longrightarrow> same_shape s s'"
  unfolding process_initialize_account_aux_def Let_def by (elim ok_elims) (rule pack_shape)

lemma init_multisig_shape: "process_initialize_multisig s accounts m = Ok s' \<Longrightarrow> same_shape s s'"
  unfolding process_initialize_multisig_def Let_def by (elim ok_elims) (rule pack_shape)

lemma transfer_shape:
  assumes "process_transfer program_id s accounts amount ed = Ok s'"
  shows "same_shape s s'"
  using assms by (rule process_transfer_Ok) (metis commit_transfer_shape same_shape_refl)

lemma approve_shape: "process_approve program_id s accounts n ed = Ok s' \<Longrightarrow> same_shape s s'"
  unfolding process_approve_def Let_def by (elim ok_elims) (rule pack_shape)

lemma revoke_shape: "process_revoke program_id s accounts = Ok s' \<Longrightarrow> same_shape s s'"
  unfolding process_revoke_def Let_def by (elim ok_elims) (rule pack_shape)

lemma set_authority_shape: "process_set_authority program_id s accounts ty new = Ok s' \<Longrightarrow> same_shape s s'"
  unfolding process_set_authority_def Let_def
  by (elim ok_elims) (auto split: if_splits elim!: and_then_OkE intro: pack_shape)

lemma mint_to_shape: "process_mint_to program_id s accounts n ed = Ok s' \<Longrightarrow> same_shape s s'"
  unfolding process_mint_to_def Let_def by (elim ok_elims) (rule same_shape_trans; rule pack_shape)

lemma burn_shape: "process_burn program_id s accounts n ed = Ok s' \<Longrightarrow> same_shape s s'"
  unfolding process_burn_def Let_def by (elim ok_elims) (rule same_shape_trans; rule pack_shape)

lemma freeze_shape: "process_toggle_freeze_account program_id s accounts b = Ok s' \<Longrightarrow> same_shape s s'"
  unfolding process_toggle_freeze_account_def Let_def by (elim ok_elims) (rule pack_shape)

lemma sync_shape: "process_sync_native program_id s accounts = Ok s' \<Longrightarrow> same_shape s s'"
  unfolding process_sync_native_def Let_def
  by (elim ok_elims) (auto simp: ok_simps split: option.splits if_splits intro: pack_shape)

lemmas handler_shapes = init_mint_shape init_account_shape init_multisig_shape transfer_shape approve_shape
  revoke_shape set_authority_shape mint_to_shape burn_shape close_account_shape freeze_shape sync_shape

lemma token_instruction_shape:
  assumes "process_token_instruction program_id s accounts ix = Ok s'"
  shows "same_shape s s'"
  using assms
  by (cases ix) (auto simp: process_initialize_account_def process_initialize_account2_def dest: handler_shapes)

section \<open>The token program changes only the accounts it is given\<close>

lemma pack_ka_frame: "pack_ka P x s i = Ok s' \<Longrightarrow> k \<noteq> unsigned_key i \<Longrightarrow> s' k = s k"
  by (auto simp: pack_ka_def ok_simps store_simps)

lemma initialize_multisig_frame:
  assumes "process_initialize_multisig s accounts m = Ok s'" and "k \<notin> unsigned_key ` set accounts"
  shows "s' k = s k"
proof -
  from assms(1) obtain multisig_info it ms where "next_keyed_account accounts = Ok (multisig_info, it)"
      "pack_ka Multisig ms s multisig_info = Ok s'"
    unfolding process_initialize_multisig_def Let_def by (elim ok_elims) blast
  with assms(2) show ?thesis
    by (auto simp: ok_simps pack_ka_frame)
qed

lemma transfer_frame:
  assumes "process_transfer program_id s accounts amount ed = Ok s'" and "k \<notin> unsigned_key ` set accounts"
  shows "s' k = s k"
  using assms(1)
proof (rule process_transfer_Ok)
  fix source_info dest_info authority_info :: keyed_account and mint_infos it src src1 dst
  assume accts: "accounts = source_info # mint_infos @ dest_info # authority_info # it"
    and src: "ta_view s (unsigned_key source_info) = Some src" "ta_view s (unsigned_key dest_info) = Some dst"
    and debit: "debit_authority program_id s src authority_info it amount
           (unsigned_key source_info = unsigned_key dest_info) = Ok src1"
    and self: "unsigned_key source_info = unsigned_key dest_info \<Longrightarrow> s' = s"
    and commit: "unsigned_key source_info \<noteq> unsigned_key dest_info \<Longrightarrow>
           commit_transfer s source_info dest_info src1 dst amount = Ok s'"
  show ?thesis
  proof (cases "unsigned_key source_info = unsigned_key dest_info")
    case False
    have "ta_is_initialized src1" "ta_is_initialized dst"
      using ta_view_initialized [OF src(1)] ta_view_initialized [OF src(2)] debit_authority_fields(4) [OF debit]
      by (simp_all add: ta_is_initialized_def)
    from commit_transfer_Ok [OF commit [OF False] this False] assms(2) accts show ?thesis by auto
  qed (simp add: self)
qed

lemma token_instruction_frame:
  assumes "process_token_instruction program_id s accounts ix = Ok s'" and "k \<notin> unsigned_key ` set accounts"
  shows "s' k = s k"
proof (cases ix)
  case (SetAuthority ty new_authority)
  then show ?thesis using assms
    by (auto simp: ta_write_def mint_write_def elim!: process_set_authority_Ok)
qed (use assms in \<open>auto simp: process_initialize_account_def process_initialize_account2_def ta_write_def mint_write_def
       dest: initialize_multisig_frame transfer_frame
       elim!: process_approve_Ok process_revoke_Ok process_toggle_freeze_account_Ok process_sync_native_Ok
         process_initialize_mint_Ok process_initialize_account_aux_Ok process_mint_to_Ok process_burn_Ok
         process_close_account_Ok\<close>)

text \<open>C24: An instruction of the token program changes neither owner, executable flag, rent epoch nor data
  length of any account, and no account outside the instruction.\<close>

theorem token_instruction_layout:
  assumes "process_token_instruction program_id s accounts ix = Ok s'"
  shows "same_shape s s' \<and> (\<forall>k. k \<notin> unsigned_key ` set accounts \<longrightarrow> s' k = s k)"
  using token_instruction_shape [OF assms] token_instruction_frame [OF assms] by blast

theorem token_instruction_layout_witness:
  "\<exists>s'. process_token_instruction token_program_id sample_store [ka False 51, ka False 52, ka True 61] (Transfer 5) = Ok s'
     \<and> same_shape sample_store s' \<and> s' 53 = sample_store 53"
proof -
  obtain s' where s': "process_token_instruction token_program_id sample_store [ka False 51, ka False 52, ka True 61] (Transfer 5) = Ok s'"
    by (rule sample_transfer)
  from token_instruction_layout [OF s'] s' show ?thesis by auto
qed

section \<open>Delegates and multisignature owners\<close>



text \<open>C23: An owner that is a multisignature account of the program is accepted only when at least \<open>m\<close> of its
  registered positions belong to accounts of the instruction that have signed.\<close>

theorem multisig_threshold:
  assumes "validate_owner program_id s expected owner_info signers = Ok ()"
    and "unpack Multisig (data (s (unsigned_key owner_info))) = Ok ms" and "owner (s (unsigned_key owner_info)) = program_id"
  shows "unsigned_key owner_info = expected \<and> unat (ms_m ms) \<le> card (signed_positions ms signers)"
  using validate_owner_sound [OF assms(1)] assms(2,3) unpack_length [OF assms(2)]
  by (auto simp: authorized_def)

text \<open>A two-of-three account.\<close>

definition two_of_three :: multisig where
  "two_of_three = \<lparr>ms_m = 2, ms_n = 3, ms_is_initialized = True, ms_signers = [71, 72, 73] @ replicate 8 0\<rparr>"

definition multisig_store :: store where
  "multisig_store k =
     (if k = 70 then token_cell (case pack Multisig two_of_three (replicate 355 0) of Ok d \<Rightarrow> d | _ \<Rightarrow> [])
      else sample_store k)"

lemma unpack_two_of_three:
  "unpack Multisig (data (multisig_store 70)) = Ok two_of_three" "length (data (multisig_store 70)) = 355"
proof -
  obtain d where d: "pack Multisig two_of_three (replicate 355 0) = Ok d"
    by (simp add: pack_def Multisig_def multisig_pack_into_slice_def two_of_three_def MAX_SIGNERS_def)
  then show "unpack Multisig (data (multisig_store 70)) = Ok two_of_three" "length (data (multisig_store 70)) = 355"
    using multisig_format.unpack_after_pack [OF d] multisig_format.length_after_pack [OF d]
    by (simp_all add: multisig_store_def token_cell_def two_of_three_def)
qed

theorem multisig_threshold_witness:
  "validate_owner token_program_id multisig_store 70 (ka False 70) [ka True 73, ka True 71] = Ok ()
   \<and> 2 \<le> card (signed_positions two_of_three [ka True 73, ka True 71])"
proof -
  have o: "owner (multisig_store 70) = token_program_id" by (simp add: multisig_store_def token_cell_def)
  have run: "validate_owner token_program_id multisig_store 70 (ka False 70) [ka True 73, ka True 71] = Ok ()"
    using unpack_two_of_three o
    by (simp add: validate_owner_def ka_owner_def ka_data_len_def unpack_ka_def)
       (simp add: two_of_three_def MAX_SIGNERS_def signer_key_def)
  with multisig_threshold [OF run, of two_of_three] unpack_two_of_three o show ?thesis
    by (simp add: two_of_three_def)
qed

section \<open>Byte layouts\<close>

text \<open>C25: Packing a token account, a mint or a multisignature account and unpacking the bytes gives the value
  again; names and symbols come back padded with zero bytes to their fixed length.\<close>

theorem token_state_roundtrip:
  "(pack TokenAccount a d = Ok e \<longrightarrow> unpack_unchecked TokenAccount e = Ok a \<and> length e = 165)
   \<and> (pack Mint m d = Ok e \<longrightarrow> unpack_unchecked Mint e = Ok (mint_canon m) \<and> length e = 124)
   \<and> (pack Multisig ms d = Ok e \<longrightarrow> unpack_unchecked Multisig e = Ok ms \<and> length e = 355)"
proof (intro conjI impI)
  assume "pack TokenAccount a d = Ok e"
  from ta_format.unpack_unchecked_after_pack [OF this] ta_format.length_after_pack [OF this]
  show "unpack_unchecked TokenAccount e = Ok a" "length e = 165" by simp_all
next
  assume "pack Mint m d = Ok e"
  from mint_format.unpack_unchecked_after_pack [OF this] mint_format.length_after_pack [OF this]
  show "unpack_unchecked Mint e = Ok (mint_canon m)" "length e = 124" by simp_all
next
  assume "pack Multisig ms d = Ok e"
  from multisig_format.unpack_unchecked_after_pack [OF this] multisig_format.length_after_pack [OF this]
  show "unpack_unchecked Multisig e = Ok ms" "length e = 355" by simp_all
qed

theorem token_state_roundtrip_witness:
  "pack TokenAccount (holder 50 61 20) (replicate 165 0) = Ok (acct_bytes (holder 50 61 20))
   \<and> unpack_unchecked TokenAccount (acct_bytes (holder 50 61 20)) = Ok (holder 50 61 20)"
  using token_state_roundtrip [of "holder 50 61 20" "replicate 165 0" "acct_bytes (holder 50 61 20)" undefined undefined]
  by (simp add: pack_acct_bytes)

section \<open>Panics\<close>

text \<open>C26: Initializing a mint with a name of more than 32 bytes or a symbol of more than 10 bytes panics:
  nothing checks the lengths before the padding is computed.\<close>

theorem initialize_mint_long_name_panics:
  assumes "mint_view s (unsigned_key mint_info) = Some m" and "\<not> m_is_initialized m"
    and "is_exempt rent_default (lamports (s (unsigned_key mint_info))) 124"
    and "string_len name > 32 \<or> string_len symbol > 10"
  shows "process_token_instruction program_id s (mint_info # it) (InitializeMint name symbol decimals auth freeze_auth) = Panic"
proof -
  have l: "length (data (s (unsigned_key mint_info))) = 124"
    using assms(1) by (auto simp: mint_view_Some dest: unpack_unchecked_length)
  have "pack_ka Mint x s mint_info = Panic" if "m_name x = name" "m_symbol x = symbol" for x
    using assms(4) l that
    by (auto simp: pack_ka_def pack_def Mint_def mint_pack_into_slice_def puffed_out_string_def MAX_NAME_LENGTH_def
        MAX_SYMBOL_LENGTH_def)
  then show ?thesis
    using assms l by (simp add: process_initialize_mint_def unpack_unchecked_ka_def mint_view_Some ka_lamports_def ka_data_len_def)
qed

text \<open>An account of zero bytes with the lamports that exempt it from rent.\<close>

definition fresh_cell :: "nat \<Rightarrow> account" where
  "fresh_cell n = \<lparr>lamports = 1680840, data = replicate n 0, owner = token_program_id, executable = False, rent_epoch = 0\<rparr>"

lemma fresh_exempt: "n \<le> 355 \<Longrightarrow> is_exempt rent_default 1680840 n"
  using minimum_balance_default [of n] by (simp add: is_exempt_def word_le_nat_alt)

lemma slice_replicate [simp]: "i + k \<le> n \<Longrightarrow> slice_at i k (replicate n 0) = replicate k (0 :: u8)"
  by (simp add: slice_at_def)

lemma fresh_mint: "\<exists>m. unpack_unchecked Mint (replicate 124 0) = Ok m \<and> \<not> m_is_initialized m"
proof -
  have "unpack_option_key (replicate 36 0) = Ok None"
    by (simp add: unpack_option_key_def slice_at_def numeral_eq_Suc)
  then show ?thesis
    by (simp add: unpack_unchecked_def Mint_def mint_unpack_from_slice_def unpack_bool_def)
qed

lemma fresh_multisig: "\<exists>ms. unpack_unchecked Multisig (replicate 355 0) = Ok ms \<and> \<not> ms_is_initialized ms"
  by (simp add: unpack_unchecked_def Multisig_def multisig_unpack_from_slice_def unpack_bool_def)

theorem initialize_mint_long_name_panics_witness:
  "process_token_instruction token_program_id (\<lambda>k. fresh_cell 124) [ka False 50]
     (InitializeMint (string_zeroes 33) (string_zeroes 3) 9 61 None) = Panic"
proof -
  obtain m where m: "unpack_unchecked Mint (replicate 124 0) = Ok m" "\<not> m_is_initialized m"
    using fresh_mint by blast
  show ?thesis
    using m fresh_exempt [of 124]
    by (intro initialize_mint_long_name_panics [of _ _ m]) (simp_all add: mint_view_Some fresh_cell_def)
qed

lemma write_signers_overflow:
  "i \<le> length ks \<Longrightarrow> length ks < i + length infos \<Longrightarrow> write_signers i infos ks = Panic"
  by (induction i infos ks rule: write_signers.induct) auto

text \<open>C27: Initializing a multisignature account with more than 11 signers panics when the number of signers
  modulo 256 is between 1 and 11: the check sees the number truncated to a byte.\<close>

theorem initialize_multisig_truncates:
  assumes "unpack_unchecked Multisig (data (s (unsigned_key multisig_info))) = Ok ms" and "\<not> ms_is_initialized ms"
    and "is_exempt rent_default (lamports (s (unsigned_key multisig_info))) 355"
    and "length signer_infos > 11" and "length signer_infos mod 256 \<in> {1..11}" and "unat m \<in> {1..11}"
  shows "process_token_instruction program_id s (multisig_info # signer_infos) (InitializeMultisig m) = Panic"
proof -
  have l: "length (data (s (unsigned_key multisig_info))) = 355"
    using unpack_unchecked_length [OF assms(1)] by simp
  have "length (ms_signers ms) = 11"
    using assms(1) by (auto simp: unpack_unchecked_def Multisig_def multisig_unpack_from_slice_def ok_simps MAX_SIGNERS_def
        split: if_splits)
  then have "write_signers 0 signer_infos (ms_signers ms) = Panic"
    using assms(4) by (intro write_signers_overflow) simp_all
  then show ?thesis
    using assms l by (simp add: process_initialize_multisig_def unpack_unchecked_ka_def ka_lamports_def ka_data_len_def
        is_valid_signer_index_def MIN_SIGNERS_def MAX_SIGNERS_def unat_of_nat Let_def)
qed

theorem initialize_multisig_truncates_witness:
  "process_token_instruction token_program_id (\<lambda>k. fresh_cell 355) (ka False 70 # replicate 257 (ka False 71))
     (InitializeMultisig 1) = Panic"
proof -
  obtain ms where "unpack_unchecked Multisig (replicate 355 0) = Ok ms" "\<not> ms_is_initialized ms"
    using fresh_multisig by blast
  then show ?thesis
    using fresh_exempt [of 355]
    by (intro initialize_multisig_truncates [where ms = ms]) (simp_all add: fresh_cell_def)
qed

section \<open>Rent\<close>

text \<open>C28: For a threshold of whole years the balance that exempts an account from rent is exactly the price of
  its bytes with the overhead, as long as the product fits the 53 bits of a double.\<close>

theorem rent_exemption_exact:
  assumes "exemption_threshold r = of_nat t"
    and "(128 + n) * unat (lamports_per_byte_year r) < 2 ^ 53"
    and "(128 + n) * unat (lamports_per_byte_year r) * t < 2 ^ 53"
    and "n < 2 ^ 32"
  shows "is_exempt r balance n \<longleftrightarrow> (128 + n) * unat (lamports_per_byte_year r) * t \<le> unat balance"
  using minimum_balance_exact [OF assms] by (simp add: is_exempt_def word_le_nat_alt)

theorem rent_exemption_exact_witness: "is_exempt rent_default 1019640 165 \<and> \<not> is_exempt rent_default 1019639 165"
proof -
  have r: "unat (lamports_per_byte_year rent_default) = 3480" "exemption_threshold rent_default = of_nat 1"
    by (simp_all add: rent_default_def default_rate)
  show ?thesis
    using rent_exemption_exact [OF r(2), of 165] by (simp add: r(1))
qed

end
