(* ===== verification/Runtime_Account.thy ===== *)
theory Runtime_Account
  imports Sdk_Account Sdk_Rent
begin

text \<open>
  The runtime's record of an account before an instruction (program-runtime/src/pre_account.rs) with
  the rules a program has to respect, and the meter of the accounts data space
  (program-runtime/src/accounts_data_meter.rs). \<open>i64\<close> values are 64-bit words read with \<open>sint\<close>.
\<close>

section \<open>The record of an account\<close>

record pre_account =
  pa_key :: pubkey
  pa_account :: account
  pa_changed :: bool

record details_timings =
  total_account_count :: u64
  total_data_size :: u64
  changed_account_count :: u64
  data_size_changed :: u64

definition pre_account_new :: "pubkey \<Rightarrow> account \<Rightarrow> pre_account" where
  "pre_account_new key acct = \<lparr>pa_key = key, pa_account = acct, pa_changed = False\<rparr>"

definition MAX_PERMITTED_DATA_LENGTH :: nat where
  "MAX_PERMITTED_DATA_LENGTH = 10 * 1024 * 1024"

text \<open>\<open>is_zeroed\<close> compares chunks of 1024 bytes with a constant array of zeros, then the remainder.\<close>

definition ZEROS_LEN :: nat where
  "ZEROS_LEN = 1024"

function is_zeroed :: "u8 list \<Rightarrow> bool" where
  "is_zeroed buf =
     (if length buf < ZEROS_LEN then buf = replicate (length buf) 0
      else take ZEROS_LEN buf = replicate ZEROS_LEN 0 \<and> is_zeroed (drop ZEROS_LEN buf))"
  by auto
termination
  by (relation "measure length") (auto simp: ZEROS_LEN_def)

declare is_zeroed.simps [simp del]

definition count_timings :: "details_timings \<Rightarrow> bool \<Rightarrow> nat \<Rightarrow> details_timings" where
  "count_timings t changed len =
     (let t = t\<lparr>total_account_count := saturating_add (total_account_count t) 1,
                total_data_size := saturating_add (total_data_size t) (of_nat len)\<rparr>
      in if changed
         then t\<lparr>changed_account_count := saturating_add (changed_account_count t) 1,
                data_size_changed := saturating_add (data_size_changed t) (of_nat len)\<rparr>
         else t)"

text \<open>The check of the data length, in its two forms: who may change the size of an account.\<close>

definition check_data_len :: "bool \<Rightarrow> pubkey \<Rightarrow> account \<Rightarrow> account \<Rightarrow> bool ix_result" where
  "check_data_len do_support_realloc program_id pre post =
     (let data_len_changed = length (data pre) \<noteq> length (data post) in
      if do_support_realloc
      then if length (data post) > MAX_PERMITTED_DATA_LENGTH then Err InvalidRealloc
           else if data_len_changed \<and> program_id \<noteq> owner pre then Err AccountDataSizeChanged
           else Ok data_len_changed
      else if data_len_changed \<and> (program_id \<noteq> system_program_id \<or> owner pre \<noteq> system_program_id)
           then Err AccountDataSizeChanged
           else Ok data_len_changed)"

definition pre_account_verify ::
  "pre_account \<Rightarrow> pubkey \<Rightarrow> bool \<Rightarrow> rent \<Rightarrow> account \<Rightarrow> details_timings \<Rightarrow> bool \<Rightarrow> bool
   \<Rightarrow> details_timings ix_result" where
  "pre_account_verify pa program_id writable rnt post timings outermost_call do_support_realloc =
     (let pre = pa_account pa;
          owner_changed = owner pre \<noteq> owner post;
          lamports_changed = lamports pre \<noteq> lamports post;
          executable_changed = executable pre \<noteq> executable post;
          rent_epoch_changed = rent_epoch pre \<noteq> rent_epoch post
      in
      if owner_changed
         \<and> (\<not> writable \<or> executable pre \<or> program_id \<noteq> owner pre \<or> \<not> is_zeroed (data post))
      then Err ModifiedProgramId
      else if program_id \<noteq> owner pre \<and> lamports pre > lamports post
      then Err ExternalAccountLamportSpend
      else if lamports_changed \<and> \<not> writable then Err ReadonlyLamportChange
      else if lamports_changed \<and> executable pre then Err ExecutableLamportChange
      else and_then (check_data_len do_support_realloc program_id pre post) (\<lambda>data_len_changed.
        if \<not> (program_id = owner pre \<and> writable \<and> \<not> executable pre) \<and> data pre \<noteq> data post
        then if executable pre then Err ExecutableDataModified
             else if writable then Err ExternalAccountDataModified
             else Err ReadonlyDataModified
        else if executable_changed \<and> \<not> is_exempt rnt (lamports post) (length (data post))
        then Err ExecutableAccountNotRentExempt
        else if executable_changed \<and> (\<not> writable \<or> executable pre \<or> program_id \<noteq> owner post)
        then Err ExecutableModified
        else if rent_epoch_changed then Err RentEpochModified
        else Ok (if outermost_call
                 then count_timings timings
                        (owner_changed \<or> lamports_changed \<or> data_len_changed \<or> executable_changed
                         \<or> rent_epoch_changed \<or> pa_changed pa) (length (data post))
                 else timings)))"

definition pre_account_update :: "pre_account \<Rightarrow> account \<Rightarrow> pre_account" where
  "pre_account_update pa acct =
     pa\<lparr>pa_account := acct\<lparr>rent_epoch := rent_epoch (pa_account pa)\<rparr>, pa_changed := True\<rparr>"

section \<open>The meter of the accounts data space\<close>

type_synonym i64 = "64 word"

definition i64_saturating :: "int \<Rightarrow> i64" where
  "i64_saturating r = of_int (if r > 2 ^ 63 - 1 then 2 ^ 63 - 1 else if r < - (2 ^ 63) then - (2 ^ 63) else r)"

record accounts_data_meter =
  adm_maximum :: u64
  adm_initial :: u64
  adm_delta :: i64

definition MAX_ACCOUNTS_DATA_LEN :: u64 where
  "MAX_ACCOUNTS_DATA_LEN = 128000000000"

definition adm_new :: "u64 \<Rightarrow> accounts_data_meter" where
  "adm_new initial_accounts_data_len =
     \<lparr>adm_maximum = MAX_ACCOUNTS_DATA_LEN, adm_initial = initial_accounts_data_len, adm_delta = 0\<rparr>"

definition saturating_add_signed :: "u64 \<Rightarrow> i64 \<Rightarrow> u64" where
  "saturating_add_signed lhs rhs =
     (let res = lhs + rhs; overflow = unat lhs + unat rhs \<ge> 2 ^ 64 in
      if overflow = (sint rhs < 0) then res else if overflow then - 1 else 0)"

definition adm_current :: "accounts_data_meter \<Rightarrow> u64" where
  "adm_current m = saturating_add_signed (adm_initial m) (adm_delta m)"

definition adm_remaining :: "accounts_data_meter \<Rightarrow> u64" where
  "adm_remaining m = saturating_sub (adm_maximum m) (adm_current m)"

definition adm_consume_unchecked :: "accounts_data_meter \<Rightarrow> i64 \<Rightarrow> accounts_data_meter" where
  "adm_consume_unchecked m amount = m\<lparr>adm_delta := i64_saturating (sint (adm_delta m) + sint amount)\<rparr>"

definition adm_consume :: "accounts_data_meter \<Rightarrow> i64 \<Rightarrow> accounts_data_meter ix_result" where
  "adm_consume m amount =
     (if sint amount > sint (adm_remaining m) then Err MaxAccountsDataSizeExceeded
      else Ok (adm_consume_unchecked m amount))"

section \<open>The compute meter\<close>

definition compute_consume :: "u64 \<Rightarrow> u64 \<Rightarrow> u64 \<times> unit ix_result" where
  "compute_consume remaining amount =
     (let exceeded = remaining < amount; remaining = saturating_sub remaining amount in
      (remaining, if exceeded then Err ComputationalBudgetExceeded else Ok ()))"

section \<open>Facts\<close>

lemma is_zeroed_iff: "is_zeroed buf \<longleftrightarrow> (\<forall>b\<in>set buf. b = 0)"
proof (induction buf rule: is_zeroed.induct)
  case (1 buf)
  have rep: "xs = replicate (length xs) 0 \<longleftrightarrow> (\<forall>b\<in>set xs. b = 0)" for xs :: "u8 list"
    using replicate_eqI [of xs "length xs" 0] by (metis in_set_replicate)
  show ?case
  proof (cases "length buf < ZEROS_LEN")
    case True
    then show ?thesis by (simp add: is_zeroed.simps rep)
  next
    case False
    have "set buf = set (take ZEROS_LEN buf) \<union> set (drop ZEROS_LEN buf)"
      by (metis append_take_drop_id set_append)
    moreover have "take ZEROS_LEN buf = replicate ZEROS_LEN 0 \<longleftrightarrow> (\<forall>b\<in>set (take ZEROS_LEN buf). b = 0)"
      using rep [of "take ZEROS_LEN buf"] False by simp
    ultimately show ?thesis
      using 1 [OF False] False by (subst is_zeroed.simps) auto
  qed
qed

text \<open>What a program that passes \<open>verify\<close> has respected.\<close>

lemma pre_account_verify_Ok:
  assumes "pre_account_verify pa program_id writable rnt post t outer realloc = Ok t'"
  defines "pre \<equiv> pa_account pa"
  shows "program_id \<noteq> owner pre \<Longrightarrow> data post = data pre \<and> owner post = owner pre"
    and "program_id \<noteq> owner pre \<Longrightarrow> lamports pre \<le> lamports post"
    and "\<not> writable \<Longrightarrow> lamports post = lamports pre \<and> data post = data pre \<and> owner post = owner pre
           \<and> executable post = executable pre"
    and "owner post \<noteq> owner pre \<Longrightarrow> \<forall>b\<in>set (data post). b = 0"
    and "executable pre \<Longrightarrow> post = pre"
    and "rent_epoch post = rent_epoch pre"
proof -
  note v = assms(1) [unfolded pre_account_verify_def Let_def pre_def [symmetric]]
  show "program_id \<noteq> owner pre \<Longrightarrow> data post = data pre \<and> owner post = owner pre"
    and "program_id \<noteq> owner pre \<Longrightarrow> lamports pre \<le> lamports post"
    and "\<not> writable \<Longrightarrow> lamports post = lamports pre \<and> data post = data pre \<and> owner post = owner pre
           \<and> executable post = executable pre"
    and "owner post \<noteq> owner pre \<Longrightarrow> \<forall>b\<in>set (data post). b = 0"
    and "rent_epoch post = rent_epoch pre"
    using v by (auto simp: ok_simps is_zeroed_iff split: if_splits)
  show "executable pre \<Longrightarrow> post = pre"
    using v by (intro account.equality) (auto simp: ok_simps split: if_splits)
qed

section \<open>The meter\<close>

lemma u64_bounds: "0 \<le> uint (x :: u64)" "uint (x :: u64) < 2 ^ 64"
proof -
  have "uint x < 2 ^ LENGTH(64)" by (rule unsigned_less)
  then show "uint x < 2 ^ 64" by simp
qed simp

lemma sint_u64: "sint (d :: i64) = (if uint d < 2 ^ 63 then uint d else uint d - 2 ^ 64)"
proof -
  have "sint d = (uint d + 2 ^ 63) mod 2 ^ 64 - 2 ^ 63"
    using int_word_sint [of "uint d", where 'a = 64] by simp
  moreover have "0 \<le> uint d" "uint d < 2 ^ 64"
    by (rule u64_bounds)+
  ultimately show ?thesis
    by (cases "uint d < 2 ^ 63") (simp_all add: mod_pos_pos_trivial mod_pos_geq)
qed

lemma uint_add_u64:
  "uint (a + b :: u64) = (if uint a + uint b < 2 ^ 64 then uint a + uint b else uint a + uint b - 2 ^ 64)"
  using uint_plus_if' [of a b] by simp

lemma saturating_add_signed_exact:
  "uint (saturating_add_signed a d) = max 0 (min (2 ^ 64 - 1) (uint a + sint d))"
proof -
  have b: "0 \<le> uint a" "uint a < 2 ^ 64" "0 \<le> uint d" "uint d < 2 ^ 64"
    by (rule u64_bounds)+
  have o: "unat a + unat d \<ge> 2 ^ 64 \<longleftrightarrow> uint a + uint d \<ge> 2 ^ 64"
  proof -
    have "unat a + unat d \<ge> 2 ^ 64 \<longleftrightarrow> int (unat a + unat d) \<ge> int (2 ^ 64)"
      by (simp only: of_nat_le_iff)
    then show ?thesis by simp
  qed
  have m: "uint (- 1 :: u64) = 2 ^ 64 - 1"
    by (simp add: unsigned_minus_1_eq_mask mask_eq_exp_minus_1)
  show ?thesis
  proof (cases "uint d < 2 ^ 63"; cases "uint a + uint d < 2 ^ 64")
    assume c: "uint d < 2 ^ 63" "uint a + uint d < 2 ^ 64"
    then have "sint d = uint d" "saturating_add_signed a d = a + d"
      using o by (simp_all add: sint_u64 saturating_add_signed_def Let_def)
    with b c show ?thesis by (simp add: uint_add_u64)
  next
    assume c: "uint d < 2 ^ 63" "\<not> uint a + uint d < 2 ^ 64"
    then have "sint d = uint d" "saturating_add_signed a d = - 1"
      using o by (simp_all add: sint_u64 saturating_add_signed_def Let_def)
    moreover have "2 ^ 64 - 1 \<le> uint a + uint d" using c by linarith
    ultimately show ?thesis using m by (simp only: min_absorb1) simp
  next
    assume c: "\<not> uint d < 2 ^ 63" "uint a + uint d < 2 ^ 64"
    then have "sint d = uint d - 2 ^ 64" "saturating_add_signed a d = 0"
      using o b by (simp_all add: sint_u64 saturating_add_signed_def Let_def)
    with b c show ?thesis by (simp add: max_def min_def)
  next
    assume c: "\<not> uint d < 2 ^ 63" "\<not> uint a + uint d < 2 ^ 64"
    then have "sint d = uint d - 2 ^ 64" "saturating_add_signed a d = a + d"
      using o b by (simp_all add: sint_u64 saturating_add_signed_def Let_def)
    with b c show ?thesis by (simp add: uint_add_u64)
  qed
qed

lemma i64_saturating_sint:
  "sint (i64_saturating r) = (if r > 2 ^ 63 - 1 then 2 ^ 63 - 1 else if r < - (2 ^ 63) then - (2 ^ 63) else r)"
proof -
  have "sint (of_int x :: i64) = x" if "- (2 ^ 63) \<le> x" "x < 2 ^ 63" for x
    using that int_word_sint [of x, where 'a = 64] by (simp add: mod_pos_pos_trivial)
  then show ?thesis
    by (simp add: i64_saturating_def)
qed

lemma adm_remaining_exact: "uint (adm_remaining m) = max 0 (uint (adm_maximum m) - uint (adm_current m))"
proof -
  let ?M = "adm_maximum m" and ?C = "adm_current m"
  have "int (unat (adm_remaining m)) = int (unat ?M - unat ?C)"
    by (simp only: adm_remaining_def unat_saturating_sub)
  then have r: "uint (adm_remaining m) = int (unat ?M - unat ?C)"
    by simp
  have "unat ?C \<le> unat ?M \<longleftrightarrow> uint ?C \<le> uint ?M"
    by (rule trans [OF word_le_nat_alt [symmetric] word_le_def])
  with r show ?thesis
    by (cases "unat ?C \<le> unat ?M") (simp_all add: of_nat_diff)
qed

text \<open>The meter of the accounts data space never lets the used space grow beyond its maximum:
  from a state within the maximum, a successful \<open>consume\<close> of any signed amount, saturation included,
  ends within the maximum, and it fails exactly when the amount exceeds the remaining space.\<close>

theorem data_meter_bound:
  assumes "uint (adm_maximum m) < 2 ^ 63" and "adm_current m \<le> adm_maximum m"
  shows "(case adm_consume m amount of
            Ok m' \<Rightarrow> adm_current m' \<le> adm_maximum m' \<and> sint amount \<le> uint (adm_maximum m) - uint (adm_current m)
          | Err e \<Rightarrow> e = MaxAccountsDataSizeExceeded
                     \<and> sint amount > uint (adm_maximum m) - uint (adm_current m)
          | Panic \<Rightarrow> False)"
proof -
  have le: "uint (adm_current m) \<le> uint (adm_maximum m)"
    using assms(2) by (simp add: word_le_def)
  have "uint (adm_maximum m) - uint (adm_current m) < 2 ^ 63"
    using assms(1) u64_bounds(1) [of "adm_current m"] by linarith
  with le have rem: "sint (adm_remaining m) = uint (adm_maximum m) - uint (adm_current m)"
    by (simp add: sint_u64 adm_remaining_exact)
  show ?thesis
  proof (cases "sint amount > sint (adm_remaining m)")
    case True
    then show ?thesis
      using rem by (simp add: adm_consume_def)
  next
    case False
    let ?d = "sint (adm_delta m)" and ?i = "uint (adm_initial m)" and ?a = "sint amount"
    have cur: "uint (adm_current m) = max 0 (min (2 ^ 64 - 1) (?i + ?d))"
      by (simp add: adm_current_def saturating_add_signed_exact)
    have "?i + sint (i64_saturating (?d + ?a)) \<le> uint (adm_maximum m) \<or> ?i + sint (i64_saturating (?d + ?a)) < 0"
      using False rem cur le assms(1) u64_bounds [of "adm_initial m"] sint_ge [of "adm_delta m"]
      unfolding i64_saturating_sint by (auto simp: max_def min_def split: if_splits)
    then have "adm_current (adm_consume_unchecked m amount) \<le> adm_maximum m"
      using assms(1) u64_bounds [of "adm_maximum m"]
      by (simp add: word_le_def adm_current_def adm_consume_unchecked_def saturating_add_signed_exact)
         (auto simp: max_def min_def intro: order_trans [of _ 0])
    then show ?thesis
      using False rem by (simp add: adm_consume_def) (simp add: adm_consume_unchecked_def)
  qed
qed

theorem data_meter_bound_witness:
  "adm_current (adm_new 1000) \<le> adm_maximum (adm_new 1000)
   \<and> (case adm_consume (adm_new 1000) (- 400) of Ok m' \<Rightarrow> adm_current m' \<le> adm_maximum m' | _ \<Rightarrow> False)"
proof -
  have h: "uint (adm_maximum (adm_new 1000)) < 2 ^ 63" "adm_current (adm_new 1000) \<le> adm_maximum (adm_new 1000)"
    by (simp_all add: adm_new_def MAX_ACCOUNTS_DATA_LEN_def adm_current_def saturating_add_signed_def)
  have "adm_consume (adm_new 1000) (- 400) \<noteq> Panic" "adm_consume (adm_new 1000) (- 400) \<noteq> Err e" for e
    by (simp_all add: adm_consume_def sint_u64 adm_new_def MAX_ACCOUNTS_DATA_LEN_def adm_remaining_exact
        adm_current_def saturating_add_signed_exact)
  with data_meter_bound [OF h, of "- 400"] h(2) show ?thesis
    by (auto split: result.splits)
qed

end
