(* ===== verification/Sdk_Message.thy ===== *)
theory Sdk_Message
  imports Sdk_Account
begin

text \<open>
  Instructions and legacy messages (sdk/program/src/instruction.rs and message/legacy.rs): how a list
  of instructions is compiled to a message with one list of account keys, what the header says of
  each key, the sanitization of received messages, and the way back (\<open>decompile\<close>).
  Arithmetic on the header's bytes and on \<open>usize\<close> wraps as in a release build; indexing out of range
  panics.
\<close>

section \<open>Instructions\<close>

record account_meta =
  am_pubkey :: pubkey
  am_is_signer :: bool
  am_is_writable :: bool

definition meta_new :: "pubkey \<Rightarrow> bool \<Rightarrow> account_meta" where
  "meta_new pubkey signer = \<lparr>am_pubkey = pubkey, am_is_signer = signer, am_is_writable = True\<rparr>"

definition meta_new_readonly :: "pubkey \<Rightarrow> bool \<Rightarrow> account_meta" where
  "meta_new_readonly pubkey signer = \<lparr>am_pubkey = pubkey, am_is_signer = signer, am_is_writable = False\<rparr>"

record instruction =
  ix_program_id :: pubkey
  ix_accounts :: "account_meta list"
  ix_data :: "u8 list"

record compiled_instruction =
  program_id_index :: u8
  ci_accounts :: "u8 list"
  ci_data :: "u8 list"

text \<open>
  \<open>visit_each_account\<close> calls \<open>work\<close> with a running number on every index of the instruction that has
  not occurred before; the state of the closure is passed along.
\<close>

fun visit_from ::
  "u8 list \<Rightarrow> u8 list \<Rightarrow> nat \<Rightarrow> (nat \<Rightarrow> nat \<Rightarrow> 's \<Rightarrow> 's ix_result) \<Rightarrow> 's \<Rightarrow> 's ix_result" where
  "visit_from before [] unique_index work st = Ok st"
| "visit_from before (i # is) unique_index work st =
     (if i \<in> set before then visit_from (before @ [i]) is unique_index work st
      else and_then (work unique_index (unat i) st)
             (visit_from (before @ [i]) is (Suc unique_index) work))"

definition visit_each_account ::
  "compiled_instruction \<Rightarrow> (nat \<Rightarrow> nat \<Rightarrow> 's \<Rightarrow> 's ix_result) \<Rightarrow> 's \<Rightarrow> 's ix_result" where
  "visit_each_account ci work st = visit_from [] (ci_accounts ci) 0 work st"

section \<open>Messages\<close>

type_synonym hash = "256 word"

record message_header =
  num_required_signatures :: u8
  num_readonly_signed_accounts :: u8
  num_readonly_unsigned_accounts :: u8

record message =
  header :: message_header
  account_keys :: "pubkey list"
  recent_blockhash :: hash
  instructions :: "compiled_instruction list"

text \<open>The keys of the builtin programs and of the sysvars, the base-58 literals as numbers.\<close>

definition BUILTIN_PROGRAMS_KEYS :: "pubkey list" where
  "BUILTIN_PROGRAMS_KEYS =
     [1368054751858961187610615744159202396902912294346696811737198408170517561344,
      1697283009773004509314654261529545701582471225670895602380440637121876721664,
      2501004778692694513383192626365552564445537874725049955997982167012726538240,
      2999830881511641543315636960581363899061052244619701952529276772483092971520,
      2999830883595957297425391470815370877654746576576239794379788187849801596928,
      3338071818571248938818993247932504658966148473698877128351861063997718528000,
      2392885948717956684088687687922953030871573525823955844335788270746528120832,
      token_program_id,
      3106054205080348560459599904007370377554176879276648362503783356638668259328,
      system_program_id]"

definition sysvar_ids :: "pubkey list" where
  "sysvar_ids =
     [3010411245977774767103551433779408434046391008353408711474217313814305570816,
      3010411245986328729646169808388022824879167805765813351222839694649813106688,
      3010411245988839768080938779134895012715399673910392426883968584161274363904,
      3010411246019275183202241475159751154561037627022909547359528646525818241024,
      3010411246019284437244212147455409835011261068170932596721577831542904848384,
      3010411246019292312979761209880469183404341140736143741603546036852764966912,
      3010411246020387390845657635421930170267332101929006271628180992244983005184,
      3010411246020387390882771635765924662261524573769583470181990702897938038784,
      3010411246023051902640053541412638131892130328438861384560211382976271876096,
      3010411245946659004650937024412888917526102981211644260807408457663811420160]"

definition is_sysvar_id :: "pubkey \<Rightarrow> bool" where
  "is_sysvar_id key \<longleftrightarrow> list_ex (\<lambda>k. k = key) sysvar_ids"

subsection \<open>Compilation\<close>

fun position :: "pubkey list \<Rightarrow> pubkey \<Rightarrow> nat option" where
  "position [] key = None"
| "position (k # ks) key = (if k = key then Some 0 else map_option Suc (position ks key))"

text \<open>\<open>keys.iter().position(..).unwrap() as u8\<close>\<close>

definition position_u8 :: "pubkey list \<Rightarrow> pubkey \<Rightarrow> u8 ix_result" where
  "position_u8 keys key = (case position keys key of Some i \<Rightarrow> Ok (of_nat i) | None \<Rightarrow> Panic)"

primrec try_map :: "('a \<Rightarrow> ('e, 'b) result) \<Rightarrow> 'a list \<Rightarrow> ('e, 'b list) result" where
  "try_map f [] = Ok []"
| "try_map f (x # xs) = and_then (f x) (\<lambda>y. and_then (try_map f xs) (\<lambda>ys. Ok (y # ys)))"

definition compile_instruction :: "instruction \<Rightarrow> pubkey list \<Rightarrow> compiled_instruction ix_result" where
  "compile_instruction ix keys =
     and_then (try_map (\<lambda>account_meta. position_u8 keys (am_pubkey account_meta)) (ix_accounts ix)) (\<lambda>accounts.
     and_then (position_u8 keys (ix_program_id ix)) (\<lambda>program_id_index.
     Ok \<lparr>program_id_index = program_id_index, ci_accounts = accounts, ci_data = ix_data ix\<rparr>))"

definition compile_instructions ::
  "instruction list \<Rightarrow> pubkey list \<Rightarrow> compiled_instruction list ix_result" where
  "compile_instructions ixs keys = try_map (\<lambda>ix. compile_instruction ix keys) ixs"

record instruction_keys =
  signed_keys :: "pubkey list"
  unsigned_keys :: "pubkey list"
  ik_num_readonly_signed :: u8
  ik_num_readonly_unsigned :: u8

fun program_ids_from :: "pubkey set \<Rightarrow> instruction list \<Rightarrow> pubkey list" where
  "program_ids_from seen [] = []"
| "program_ids_from seen (ix # ixs) =
     (if ix_program_id ix \<in> seen then program_ids_from seen ixs
      else ix_program_id ix # program_ids_from (insert (ix_program_id ix) seen) ixs)"

definition get_program_ids :: "instruction list \<Rightarrow> pubkey list" where
  "get_program_ids ixs = program_ids_from {} ixs"

text \<open>\<open>sort_by\<close> is stable and puts signers first and, among equals, writable accounts first.\<close>

definition meta_rank :: "account_meta \<Rightarrow> nat" where
  "meta_rank m = (if am_is_signer m then 0 else 2) + (if am_is_writable m then 0 else 1)"

text \<open>The first entry with the key of \<open>m\<close> is promoted to writable if \<open>m\<close> is; a new key is pushed.\<close>

fun push_meta :: "account_meta \<Rightarrow> account_meta list \<Rightarrow> account_meta list" where
  "push_meta m [] = [m]"
| "push_meta m (x # xs) =
     (if am_pubkey x = am_pubkey m then x\<lparr>am_is_writable := am_is_writable x \<or> am_is_writable m\<rparr> # xs
      else x # push_meta m xs)"

fun collect_keys :: "account_meta list \<Rightarrow> instruction_keys \<Rightarrow> instruction_keys" where
  "collect_keys [] ks = ks"
| "collect_keys (m # ms) ks = collect_keys ms
     (if am_is_signer m
      then ks\<lparr>signed_keys := signed_keys ks @ [am_pubkey m],
              ik_num_readonly_signed :=
                (if \<not> am_is_writable m then ik_num_readonly_signed ks + 1 else ik_num_readonly_signed ks)\<rparr>
      else ks\<lparr>unsigned_keys := unsigned_keys ks @ [am_pubkey m],
              ik_num_readonly_unsigned :=
                (if \<not> am_is_writable m then ik_num_readonly_unsigned ks + 1
                 else ik_num_readonly_unsigned ks)\<rparr>)"

definition sorted_metas :: "instruction list \<Rightarrow> pubkey option \<Rightarrow> account_meta list" where
  "sorted_metas ixs payer =
     (case payer of Some p \<Rightarrow> [\<lparr>am_pubkey = p, am_is_signer = True, am_is_writable = True\<rparr>] | None \<Rightarrow> [])
     @ sort_key meta_rank
         (concat (map ix_accounts ixs)
          @ map (\<lambda>p. \<lparr>am_pubkey = p, am_is_signer = False, am_is_writable = False\<rparr>) (get_program_ids ixs))"

definition unique_metas :: "account_meta list \<Rightarrow> account_meta list" where
  "unique_metas ms = fold push_meta ms []"

definition get_keys :: "instruction list \<Rightarrow> pubkey option \<Rightarrow> instruction_keys" where
  "get_keys ixs payer =
     collect_keys (unique_metas (sorted_metas ixs payer))
       \<lparr>signed_keys = [], unsigned_keys = [], ik_num_readonly_signed = 0, ik_num_readonly_unsigned = 0\<rparr>"

definition new_with_compiled_instructions ::
  "u8 \<Rightarrow> u8 \<Rightarrow> u8 \<Rightarrow> pubkey list \<Rightarrow> hash \<Rightarrow> compiled_instruction list \<Rightarrow> message" where
  "new_with_compiled_instructions req ro_signed ro_unsigned keys blockhash cis =
     \<lparr>header = \<lparr>num_required_signatures = req, num_readonly_signed_accounts = ro_signed,
                num_readonly_unsigned_accounts = ro_unsigned\<rparr>,
      account_keys = keys, recent_blockhash = blockhash, instructions = cis\<rparr>"

definition new_with_blockhash :: "instruction list \<Rightarrow> pubkey option \<Rightarrow> hash \<Rightarrow> message ix_result" where
  "new_with_blockhash ixs payer blockhash =
     (let ks = get_keys ixs payer;
          keys = signed_keys ks @ unsigned_keys ks
      in and_then (compile_instructions ixs keys) (\<lambda>cis.
         Ok (new_with_compiled_instructions (of_nat (length (signed_keys ks)))
               (ik_num_readonly_signed ks) (ik_num_readonly_unsigned ks) keys blockhash cis)))"

definition message_new :: "instruction list \<Rightarrow> pubkey option \<Rightarrow> message ix_result" where
  "message_new ixs payer = new_with_blockhash ixs payer 0"

subsection \<open>Queries\<close>

definition is_key_passed_to_program :: "message \<Rightarrow> nat \<Rightarrow> bool" where
  "is_key_passed_to_program m key_index \<longleftrightarrow>
     key_index < 256 \<and> list_ex (\<lambda>ix. of_nat key_index \<in> set (ci_accounts ix)) (instructions m)"

definition is_key_called_as_program :: "message \<Rightarrow> nat \<Rightarrow> bool" where
  "is_key_called_as_program m key_index \<longleftrightarrow>
     key_index < 256 \<and> list_ex (\<lambda>ix. program_id_index ix = of_nat key_index) (instructions m)"

definition is_non_loader_key :: "message \<Rightarrow> nat \<Rightarrow> bool" where
  "is_non_loader_key m key_index \<longleftrightarrow>
     \<not> is_key_called_as_program m key_index \<or> is_key_passed_to_program m key_index"

definition message_is_writable :: "message \<Rightarrow> nat \<Rightarrow> bool ix_result" where
  "message_is_writable m i =
     (let h = header m; keys = account_keys m;
          demote_program_id = is_key_called_as_program m i
      in if i < unat (num_required_signatures h - num_readonly_signed_accounts h)
            \<or> i \<ge> unat (num_required_signatures h)
              \<and> i < unat (of_nat (length keys) - ucast (num_readonly_unsigned_accounts h) :: u64)
         then if i < length keys
              then Ok (\<not> (is_sysvar_id (keys ! i) \<or> keys ! i \<in> set BUILTIN_PROGRAMS_KEYS)
                       \<and> \<not> demote_program_id)
              else Panic
         else Ok False)"

definition message_is_signer :: "message \<Rightarrow> nat \<Rightarrow> bool" where
  "message_is_signer m i \<longleftrightarrow> i < unat (num_required_signatures (header m))"

definition get_account_key :: "message \<Rightarrow> nat \<Rightarrow> pubkey option" where
  "get_account_key m i = (if i < length (account_keys m) then Some (account_keys m ! i) else None)"

definition signer_keys :: "message \<Rightarrow> pubkey list" where
  "signer_keys m =
     take (min (length (account_keys m)) (unat (num_required_signatures (header m)))) (account_keys m)"

definition has_duplicates :: "message \<Rightarrow> bool" where
  "has_duplicates m \<longleftrightarrow>
     list_ex (\<lambda>i. account_keys m ! (i - 1) \<in> set (drop i (account_keys m))) [1..<length (account_keys m)]"

definition decompile :: "message \<Rightarrow> compiled_instruction \<Rightarrow> instruction ix_result" where
  "decompile m ci =
     and_then (ok_or MissingAccount (get_account_key m (unat (program_id_index ci)))) (\<lambda>program_id.
     and_then (try_map (\<lambda>account_index.
                 let i = unat account_index in
                 and_then (message_is_writable m i) (\<lambda>w.
                 and_then (ok_or MissingAccount (get_account_key m i)) (\<lambda>key.
                 Ok \<lparr>am_pubkey = key, am_is_signer = message_is_signer m i, am_is_writable = w\<rparr>)))
                 (ci_accounts ci)) (\<lambda>accounts.
     Ok \<lparr>ix_program_id = program_id, ix_accounts = accounts, ix_data = ci_data ci\<rparr>))"

subsection \<open>Sanitization\<close>

datatype sanitize_error = IndexOutOfBounds | ValueOutOfBounds | InvalidValue

fun sanitize_instructions :: "nat \<Rightarrow> compiled_instruction list \<Rightarrow> (sanitize_error, unit) result" where
  "sanitize_instructions n [] = Ok ()"
| "sanitize_instructions n (ci # cis) =
     (if unat (program_id_index ci) \<ge> n then Err IndexOutOfBounds
      else if program_id_index ci = 0 then Err IndexOutOfBounds
      else if list_ex (\<lambda>ai. unat ai \<ge> n) (ci_accounts ci) then Err IndexOutOfBounds
      else sanitize_instructions n cis)"

definition sanitize :: "message \<Rightarrow> (sanitize_error, unit) result" where
  "sanitize m =
     (let h = header m; n = length (account_keys m) in
      if unat (num_required_signatures h) + unat (num_readonly_unsigned_accounts h) > n
      then Err IndexOutOfBounds
      else if num_readonly_signed_accounts h \<ge> num_required_signatures h then Err IndexOutOfBounds
      else sanitize_instructions n (instructions m))"

section \<open>Visiting\<close>

text \<open>The loop does its work exactly once for each index, in the order of first occurrence.\<close>

fun run_work :: "(nat \<Rightarrow> nat \<Rightarrow> 's \<Rightarrow> 's ix_result) \<Rightarrow> nat \<Rightarrow> nat list \<Rightarrow> 's \<Rightarrow> 's ix_result" where
  "run_work work n [] st = Ok st"
| "run_work work n (i # is) st = and_then (work n i st) (run_work work (Suc n) is)"

fun first_occurrences :: "'a set \<Rightarrow> 'a list \<Rightarrow> 'a list" where
  "first_occurrences seen [] = []"
| "first_occurrences seen (x # xs) =
     (if x \<in> seen then first_occurrences seen xs else x # first_occurrences (insert x seen) xs)"

lemma first_occurrences_set [simp]: "set (first_occurrences seen xs) = set xs - seen"
  by (induction seen xs rule: first_occurrences.induct) auto

lemma first_occurrences_distinct [simp]: "distinct (first_occurrences seen xs)"
  by (induction seen xs rule: first_occurrences.induct) auto

lemma visit_from_run_work:
  "visit_from before is n work st = run_work work n (map unat (first_occurrences (set before) is)) st"
proof (induction "before" "is" n work st rule: visit_from.induct)
  case (2 "before" i "is" n work st)
  then show ?case
    by (cases "work n (unat i) st") (auto simp: insert_absorb)
qed simp

definition unique_accounts :: "compiled_instruction \<Rightarrow> nat list" where
  "unique_accounts ci = map unat (first_occurrences {} (ci_accounts ci))"

lemma visit_each_account_eq: "visit_each_account ci work st = run_work work 0 (unique_accounts ci) st"
  by (simp add: visit_each_account_def visit_from_run_work unique_accounts_def)

lemma unique_accounts_set [simp]: "set (unique_accounts ci) = unat ` set (ci_accounts ci)"
  by (simp add: unique_accounts_def)

lemma unique_accounts_distinct [simp]: "distinct (unique_accounts ci)"
  by (simp add: unique_accounts_def distinct_map inj_on_def word_unat_eq_iff)

section \<open>Compilation and decompilation\<close>

lemma position_Some: "position ks k = Some i \<Longrightarrow> i < length ks \<and> ks ! i = k"
  by (induction ks arbitrary: i) (auto split: if_splits)

lemma position_None: "position ks k = None \<longleftrightarrow> k \<notin> set ks"
  by (induction ks) auto

lemma position_u8_Ok:
  assumes "k \<in> set ks" and "length ks \<le> 256"
  obtains i where "position_u8 ks k = Ok i" and "unat i < length ks" and "ks ! unat i = k"
proof -
  obtain i where i: "position ks k = Some i"
    using assms(1) position_None [of ks k] by auto
  with assms(2) position_Some [OF i] show thesis
    by (intro that [of "of_nat i"]) (simp_all add: position_u8_def unat_of_nat)
qed

lemma try_map_Ok_iff: "try_map f xs = Ok ys \<longleftrightarrow> list_all2 (\<lambda>x y. f x = Ok y) xs ys"
  by (induction xs arbitrary: ys) (auto simp: ok_simps list_all2_Cons1)

lemma try_map_total: "(\<And>x. x \<in> set xs \<Longrightarrow> \<exists>y. f x = Ok y) \<Longrightarrow> \<exists>ys. try_map f xs = Ok ys"
proof (induction xs)
  case (Cons x xs)
  obtain y where "f x = Ok y" using Cons.prems [of x] by auto
  moreover obtain ys where "try_map f xs = Ok ys" using Cons by auto
  ultimately show ?case by simp
qed simp

lemma program_ids_from_set:
  "set (program_ids_from seen ixs) = ix_program_id ` set ixs - seen"
  by (induction seen ixs rule: program_ids_from.induct) auto

lemma get_program_ids_set [simp]: "set (get_program_ids ixs) = ix_program_id ` set ixs"
  by (simp add: get_program_ids_def program_ids_from_set)

subsection \<open>The list of unique metas\<close>

lemma push_meta_keys:
  "map am_pubkey (push_meta m xs)
   = (if am_pubkey m \<in> am_pubkey ` set xs then map am_pubkey xs else map am_pubkey xs @ [am_pubkey m])"
  by (induction m xs rule: push_meta.induct) auto

lemma push_meta_new: "am_pubkey m \<notin> am_pubkey ` set xs \<Longrightarrow> push_meta m xs = xs @ [m]"
  by (induction m xs rule: push_meta.induct) auto

lemma push_meta_known:
  "am_pubkey m \<in> am_pubkey ` set xs \<Longrightarrow>
   (\<And>x. x \<in> set xs \<Longrightarrow> am_pubkey x = am_pubkey m \<Longrightarrow> am_is_writable m \<Longrightarrow> am_is_writable x) \<Longrightarrow>
   push_meta m xs = xs"
proof (induction m xs rule: push_meta.induct)
  case (2 m x xs)
  have "am_pubkey x = am_pubkey m \<Longrightarrow> x\<lparr>am_is_writable := am_is_writable x \<or> am_is_writable m\<rparr> = x"
    using "2.prems"(2) [of x] by (cases x) auto
  with 2 show ?case by auto
qed simp

lemma fold_push_keys:
  assumes "distinct (map am_pubkey xs)"
  shows "distinct (map am_pubkey (fold push_meta ms xs))"
    and "am_pubkey ` set (fold push_meta ms xs) = am_pubkey ` set xs \<union> am_pubkey ` set ms"
proof -
  have "distinct (map am_pubkey (fold push_meta ms xs))
      \<and> set (map am_pubkey (fold push_meta ms xs)) = am_pubkey ` set xs \<union> am_pubkey ` set ms"
    using assms
  proof (induction ms arbitrary: xs)
    case (Cons m ms)
    have "distinct (map am_pubkey (push_meta m xs))"
        "set (map am_pubkey (push_meta m xs)) = insert (am_pubkey m) (am_pubkey ` set xs)"
      using Cons.prems by (auto simp: push_meta_keys)
    with Cons.IH [of "push_meta m xs"] show ?case by auto
  qed simp
  then show "distinct (map am_pubkey (fold push_meta ms xs))"
    and "am_pubkey ` set (fold push_meta ms xs) = am_pubkey ` set xs \<union> am_pubkey ` set ms"
    by auto
qed

text \<open>A block of metas with the same flags is appended, without the keys already present.\<close>

lemma fold_push_block:
  assumes "\<forall>m\<in>set ms. am_is_signer m = sg \<and> am_is_writable m = w"
    and "w \<Longrightarrow> \<forall>x\<in>set xs. am_pubkey x \<in> am_pubkey ` set ms \<longrightarrow> am_is_writable x"
  shows "\<exists>vs. fold push_meta ms xs = xs @ vs \<and> (\<forall>v\<in>set vs. am_is_signer v = sg \<and> am_is_writable v = w)
      \<and> am_pubkey ` set vs = am_pubkey ` set ms - am_pubkey ` set xs"
  using assms
proof (induction ms arbitrary: xs)
  case (Cons m ms)
  show ?case
  proof (cases "am_pubkey m \<in> am_pubkey ` set xs")
    case True
    have "push_meta m xs = xs"
      using Cons.prems by (intro push_meta_known True) auto
    moreover obtain vs where "fold push_meta ms xs = xs @ vs"
        "\<forall>v\<in>set vs. am_is_signer v = sg \<and> am_is_writable v = w"
        "am_pubkey ` set vs = am_pubkey ` set ms - am_pubkey ` set xs"
      using Cons.IH [of xs] Cons.prems by auto
    ultimately show ?thesis
      using True by auto
  next
    case False
    have "push_meta m xs = xs @ [m]"
      using False by (rule push_meta_new)
    moreover obtain vs where "fold push_meta ms (xs @ [m]) = (xs @ [m]) @ vs"
        "\<forall>v\<in>set vs. am_is_signer v = sg \<and> am_is_writable v = w"
        "am_pubkey ` set vs = am_pubkey ` set ms - am_pubkey ` set (xs @ [m])"
      using Cons.IH [of "xs @ [m]"] Cons.prems by auto
    ultimately show ?thesis
      using False Cons.prems by (intro exI [of _ "m # vs"]) auto
  qed
qed simp

end
