(* ===== verification/Runtime_Invoke.thy ===== *)
theory Runtime_Invoke
  imports Runtime_Account Sdk_Message
begin

text \<open>
  The invocation of programs (program-runtime/src/invoke_context.rs): stack frames, the call of a
  builtin program, and the checks after the call. The accounts of a transaction are a list of keys;
  their contents are in the store, so that all references to an account share one cell. Programs are
  functions on the context, passed as the list of builtins. An error ends the transaction and its
  state is dropped; logs, time measurements, executors and the instruction trace are left out.
  Outstanding borrows cannot occur: no model function keeps a reference.
\<close>

section \<open>State\<close>

record stack_frame =
  number_of_program_accounts :: nat
  frame_keyed_accounts :: "keyed_account list"
  keyed_accounts_range :: "nat \<times> nat"

record feature_set =
  f_do_support_realloc :: bool
  f_cap_accounts_data_len :: bool
  f_reject_empty_instruction :: bool
  f_tx_wide_compute_cap :: bool

record invoke_context =
  invoke_stack :: "stack_frame list"
  ic_rent :: rent
  pre_accounts :: "pre_account list"
  ic_accounts :: "pubkey list"
  ic_store :: store
  max_invoke_depth :: nat
  max_units :: u64
  compute_meter :: u64
  data_meter :: accounts_data_meter
  features :: feature_set
  ic_timings :: details_timings
  return_data :: "pubkey \<times> u8 list"

type_synonym program = "nat \<Rightarrow> u8 list \<Rightarrow> invoke_context \<Rightarrow> invoke_context ix_result"

definition stack_frame_new :: "nat \<Rightarrow> keyed_account list \<Rightarrow> stack_frame" where
  "stack_frame_new n kas =
     \<lparr>number_of_program_accounts = n, frame_keyed_accounts = kas, keyed_accounts_range = (0, length kas)\<rparr>"

definition frame_program_id :: "stack_frame \<Rightarrow> pubkey option" where
  "frame_program_id frame =
     (let i = number_of_program_accounts frame - 1 in
      if i < length (frame_keyed_accounts frame)
      then Some (unsigned_key (frame_keyed_accounts frame ! i)) else None)"

text \<open>\<open>slice[i]\<close> of a vector: out of range panics.\<close>

definition index :: "'a list \<Rightarrow> nat \<Rightarrow> ('e, 'a) result" where
  "index xs i = (if i < length xs then Ok (xs ! i) else Panic)"

section \<open>Pushing a frame\<close>

definition record_pre_account :: "pubkey list \<Rightarrow> store \<Rightarrow> nat \<Rightarrow> nat \<Rightarrow> pre_account list \<Rightarrow> pre_account list ix_result" where
  "record_pre_account keys s unique_index account_index pas =
     (if account_index < length keys
      then Ok (pas @ [pre_account_new (keys ! account_index) (s (keys ! account_index))])
      else Err MissingAccount)"

definition program_keyed_account :: "pubkey list \<Rightarrow> nat \<Rightarrow> keyed_account ix_result" where
  "program_keyed_account keys account_index =
     and_then (index keys account_index) (\<lambda>key.
     Ok \<lparr>is_signer = False, is_writable = False, unsigned_key = key\<rparr>)"

definition instruction_keyed_account ::
  "message \<Rightarrow> pubkey list \<Rightarrow> nat list \<Rightarrow> u8 \<Rightarrow> keyed_account ix_result" where
  "instruction_keyed_account msg keys account_indices i =
     (let index_in_instruction = unat i in
      and_then (if account_indices = [] then Ok index_in_instruction
                else index account_indices index_in_instruction) (\<lambda>account_index.
      and_then (message_is_writable msg index_in_instruction) (\<lambda>writable.
      and_then (index keys account_index) (\<lambda>key.
      Ok \<lparr>is_signer = message_is_signer msg index_in_instruction, is_writable = writable,
          unsigned_key = key\<rparr>))))"

definition push ::
  "invoke_context \<Rightarrow> message \<Rightarrow> compiled_instruction \<Rightarrow> nat list \<Rightarrow> nat list \<Rightarrow> invoke_context ix_result" where
  "push ic msg ci program_indices account_indices =
     (if length (invoke_stack ic) > max_invoke_depth ic then Err CallDepth
      else
        and_then (if program_indices = [] then Ok None
                  else and_then (index (ic_accounts ic) (last program_indices)) (\<lambda>k. Ok (Some k)))
          (\<lambda>program_id.
        if program_id = None \<and> f_reject_empty_instruction (features ic) then Err UnsupportedProgramId
        else
          and_then (if invoke_stack ic = []
                    then let ic = (if f_tx_wide_compute_cap (features ic) then ic
                                   else ic\<lparr>compute_meter := max_units ic\<rparr>) in
                         and_then (visit_each_account ci (record_pre_account (ic_accounts ic) (ic_store ic)) [])
                           (\<lambda>pas. Ok (ic\<lparr>pre_accounts := pas\<rparr>))
                    else if list_ex (\<lambda>frame. frame_program_id frame = program_id) (invoke_stack ic)
                            \<and> frame_program_id (last (invoke_stack ic)) \<noteq> program_id
                    then Err ReentrancyNotAllowed
                    else Ok ic) (\<lambda>ic.
          and_then (try_map (program_keyed_account (ic_accounts ic)) program_indices) (\<lambda>pkas.
          and_then (try_map (instruction_keyed_account msg (ic_accounts ic) account_indices) (ci_accounts ci)) (\<lambda>ikas.
          Ok (ic\<lparr>invoke_stack := invoke_stack ic @ [stack_frame_new (length program_indices) (pkas @ ikas)]\<rparr>))))))"

definition pop :: "invoke_context \<Rightarrow> invoke_context" where
  "pop ic = ic\<lparr>invoke_stack := butlast (invoke_stack ic)\<rparr>"

section \<open>Checks after a call\<close>

text \<open>The state of the loops: the sums, the meter, the timings and the pre-accounts.\<close>

record verify_state =
  pre_sum :: u128
  post_sum :: u128
  vs_meter :: accounts_data_meter
  vs_timings :: details_timings
  vs_pre_accounts :: "pre_account list"

definition add_sums :: "u64 \<Rightarrow> u64 \<Rightarrow> verify_state \<Rightarrow> verify_state ix_result" where
  "add_sums pre post st =
     and_then (ok_or UnbalancedInstruction (checked_add (pre_sum st) (ucast pre))) (\<lambda>p.
     and_then (ok_or UnbalancedInstruction (checked_add (post_sum st) (ucast post))) (\<lambda>q.
     Ok (st\<lparr>pre_sum := p, post_sum := q\<rparr>)))"

definition consume_data_len :: "bool \<Rightarrow> nat \<Rightarrow> nat \<Rightarrow> accounts_data_meter \<Rightarrow> accounts_data_meter ix_result" where
  "consume_data_len cap pre_len post_len m =
     (let data_len_delta = i64_saturating (sint (of_nat post_len :: i64) - sint (of_nat pre_len :: i64)) in
      if cap then adm_consume m data_len_delta else Ok (adm_consume_unchecked m data_len_delta))"

definition verify_work ::
  "invoke_context \<Rightarrow> message \<Rightarrow> pubkey \<Rightarrow> nat \<Rightarrow> nat \<Rightarrow> verify_state \<Rightarrow> verify_state ix_result" where
  "verify_work ic msg program_id unique_index account_index st =
     and_then (index (ic_accounts ic) account_index) (\<lambda>key.
     and_then (index (vs_pre_accounts st) unique_index) (\<lambda>pa.
     let acct = ic_store ic key in
     and_then (message_is_writable msg account_index) (\<lambda>writable.
     and_then (pre_account_verify pa program_id writable (ic_rent ic) acct (vs_timings st) True
                 (f_do_support_realloc (features ic))) (\<lambda>t.
     and_then (add_sums (lamports (pa_account pa)) (lamports acct) (st\<lparr>vs_timings := t\<rparr>)) (\<lambda>st.
     and_then (consume_data_len (f_cap_accounts_data_len (features ic)) (length (data (pa_account pa)))
                 (length (data acct)) (vs_meter st)) (\<lambda>m.
     Ok (st\<lparr>vs_meter := m\<rparr>)))))))"

definition verify_start :: "invoke_context \<Rightarrow> verify_state" where
  "verify_start ic =
     \<lparr>pre_sum = 0, post_sum = 0, vs_meter = data_meter ic, vs_timings = ic_timings ic,
      vs_pre_accounts = pre_accounts ic\<rparr>"

definition verify_finish :: "invoke_context \<Rightarrow> verify_state \<Rightarrow> invoke_context ix_result" where
  "verify_finish ic st =
     (if pre_sum st \<noteq> post_sum st then Err UnbalancedInstruction
      else Ok (ic\<lparr>data_meter := vs_meter st, ic_timings := vs_timings st,
                  pre_accounts := vs_pre_accounts st\<rparr>))"

definition verify ::
  "invoke_context \<Rightarrow> message \<Rightarrow> compiled_instruction \<Rightarrow> nat list \<Rightarrow> invoke_context ix_result" where
  "verify ic msg ci program_indices =
     (case get_account_key msg (unat (program_id_index ci)) of
        None \<Rightarrow> Panic
      | Some program_id \<Rightarrow>
          and_then (try_map (index (ic_accounts ic)) program_indices) (\<lambda>_.
          and_then (visit_each_account ci (verify_work ic msg program_id) (verify_start ic))
            (verify_finish ic)))"

text \<open>The first pre-account with the key is verified, and replaced if the program may write it.\<close>

fun verify_matching ::
  "invoke_context \<Rightarrow> pubkey \<Rightarrow> pubkey \<Rightarrow> bool \<Rightarrow> pre_account list \<Rightarrow> pre_account list \<Rightarrow> verify_state
   \<Rightarrow> verify_state ix_result" where
  "verify_matching ic program_id key writable before [] st = Err MissingAccount"
| "verify_matching ic program_id key writable before (pa # pas) st =
     (if key = pa_key pa
      then
        let acct = ic_store ic key in
        and_then (pre_account_verify pa program_id writable (ic_rent ic) acct (vs_timings st) False
                    (f_do_support_realloc (features ic))) (\<lambda>t.
        and_then (add_sums (lamports (pa_account pa)) (lamports acct) (st\<lparr>vs_timings := t\<rparr>)) (\<lambda>st.
        let pa = (if writable \<and> \<not> executable (pa_account pa) then pre_account_update pa acct else pa) in
        and_then (consume_data_len (f_cap_accounts_data_len (features ic)) (length (data (pa_account pa)))
                    (length (data acct)) (vs_meter st)) (\<lambda>m.
        Ok (st\<lparr>vs_meter := m, vs_pre_accounts := before @ pa # pas\<rparr>))))
      else verify_matching ic program_id key writable (before @ [pa]) pas st)"

definition verify_and_update_work ::
  "invoke_context \<Rightarrow> pubkey \<Rightarrow> nat list \<Rightarrow> bool list \<Rightarrow> nat \<Rightarrow> nat \<Rightarrow> verify_state \<Rightarrow> verify_state ix_result" where
  "verify_and_update_work ic program_id account_indices write_privileges unique_index index_in_instruction st =
     (if index_in_instruction < length write_privileges \<and> index_in_instruction < length account_indices
      then and_then (index (ic_accounts ic) (account_indices ! index_in_instruction)) (\<lambda>key.
           verify_matching ic program_id key (write_privileges ! index_in_instruction) [] (vs_pre_accounts st) st)
      else Err MissingAccount)"

definition verify_and_update ::
  "invoke_context \<Rightarrow> compiled_instruction \<Rightarrow> nat list \<Rightarrow> bool list \<Rightarrow> invoke_context ix_result" where
  "verify_and_update ic ci account_indices write_privileges =
     and_then (ok_or CallDepth (if invoke_stack ic = [] then None
                                else frame_program_id (last (invoke_stack ic)))) (\<lambda>program_id.
     and_then (visit_each_account ci
                 (verify_and_update_work ic program_id account_indices write_privileges) (verify_start ic))
       (verify_finish ic))"

section \<open>Calling a program\<close>

definition get_keyed_accounts :: "invoke_context \<Rightarrow> keyed_account list ix_result" where
  "get_keyed_accounts ic =
     (if invoke_stack ic = [] then Err CallDepth
      else let frame = last (invoke_stack ic); (start, stop) = keyed_accounts_range frame in
           if start \<le> stop \<and> stop \<le> length (frame_keyed_accounts frame)
           then Ok (drop start (take stop (frame_keyed_accounts frame))) else Panic)"

definition get_instruction_keyed_accounts :: "invoke_context \<Rightarrow> keyed_account list ix_result" where
  "get_instruction_keyed_accounts ic =
     (if invoke_stack ic = [] then Err CallDepth
      else let frame = last (invoke_stack ic) in
           if number_of_program_accounts frame \<le> length (frame_keyed_accounts frame)
           then Ok (drop (number_of_program_accounts frame) (frame_keyed_accounts frame)) else Panic)"

definition get_caller :: "invoke_context \<Rightarrow> pubkey ix_result" where
  "get_caller ic =
     ok_or CallDepth (if invoke_stack ic = [] then None else frame_program_id (last (invoke_stack ic)))"

definition native_loader_id :: pubkey where
  "native_loader_id = 2501004778692694513383192626365552564445537874725049955997982167012726538240"

definition process_executable_chain ::
  "(pubkey \<times> program) list \<Rightarrow> invoke_context \<Rightarrow> u8 list \<Rightarrow> invoke_context ix_result" where
  "process_executable_chain builtins ic instruction_data =
     and_then (get_keyed_accounts ic) (\<lambda>kas.
     and_then (map_err (\<lambda>_. UnsupportedProgramId) (keyed_account_at_index kas 0)) (\<lambda>root_account.
     let root_id = unsigned_key root_account;
         owner_id = ka_owner (ic_store ic) root_account
     in if owner_id = native_loader_id
        then case map_of builtins root_id of
               Some p \<Rightarrow> p 1 instruction_data ic
             | None \<Rightarrow> Err UnsupportedProgramId
        else case map_of builtins owner_id of
               Some p \<Rightarrow> p 0 instruction_data ic
             | None \<Rightarrow> Err UnsupportedProgramId))"

definition invoke_process_instruction ::
  "(pubkey \<times> program) list \<Rightarrow> invoke_context \<Rightarrow> message \<Rightarrow> compiled_instruction \<Rightarrow> nat list \<Rightarrow> nat list
   \<Rightarrow> bool list \<Rightarrow> invoke_context ix_result" where
  "invoke_process_instruction builtins ic msg ci program_indices account_indices caller_write_privileges =
     (let is_lowest_invocation_level = invoke_stack ic = [] in
      and_then (if \<not> is_lowest_invocation_level
                then verify_and_update ic ci account_indices caller_write_privileges else Ok ic) (\<lambda>ic.
      and_then (push ic msg ci program_indices account_indices) (\<lambda>ic.
      case get_account_key msg (unat (program_id_index ci)) of
        None \<Rightarrow> Panic
      | Some program_id \<Rightarrow>
          and_then (process_executable_chain builtins (ic\<lparr>return_data := (program_id, [])\<rparr>) (ci_data ci)) (\<lambda>ic.
          and_then (if is_lowest_invocation_level then verify ic msg ci program_indices
                    else and_then (try_map (message_is_writable msg) [0..<length (account_keys msg)])
                           (verify_and_update ic ci account_indices)) (\<lambda>ic.
          Ok (pop ic))))))"

section \<open>Cross-program invocation\<close>

text \<open>\<open>get_account\<close> searches the accounts from the end.\<close>

fun last_position :: "pubkey list \<Rightarrow> pubkey \<Rightarrow> nat option" where
  "last_position [] key = None"
| "last_position (k # ks) key =
     (case last_position ks key of
        Some i \<Rightarrow> Some (Suc i)
      | None \<Rightarrow> if k = key then Some 0 else None)"

definition get_account :: "invoke_context \<Rightarrow> pubkey \<Rightarrow> nat option" where
  "get_account ic key = last_position (ic_accounts ic) key"

definition check_privileges ::
  "keyed_account list \<Rightarrow> pubkey list \<Rightarrow> account_meta \<Rightarrow> unit ix_result" where
  "check_privileges callee_keyed_accounts signers meta =
     (case find (\<lambda>ka. am_pubkey meta = unsigned_key ka) callee_keyed_accounts of
        None \<Rightarrow> Err MissingAccount
      | Some ka \<Rightarrow>
          if am_is_writable meta \<and> \<not> is_writable ka then Err PrivilegeEscalation
          else if am_is_signer meta \<and> \<not> (signer_key ka \<noteq> None \<or> am_pubkey meta \<in> set signers)
          then Err PrivilegeEscalation
          else Ok ())"

definition create_message ::
  "invoke_context \<Rightarrow> instruction \<Rightarrow> pubkey list \<Rightarrow> (message \<times> bool list \<times> nat list) ix_result" where
  "create_message ic ix signers =
     and_then (message_new [ix] None) (\<lambda>msg.
     and_then (get_instruction_keyed_accounts ic) (\<lambda>caller_keyed_accounts.
     and_then (try_map (\<lambda>key. ok_or MissingAccount
                                (find (\<lambda>ka. unsigned_key ka = key) caller_keyed_accounts)) (account_keys msg))
       (\<lambda>callee_keyed_accounts.
     and_then (try_map (check_privileges callee_keyed_accounts signers) (ix_accounts ix)) (\<lambda>_.
     let caller_write_privileges = map is_writable callee_keyed_accounts;
         callee_program_id = ix_program_id ix
     in
     and_then (ok_or MissingAccount
                 (case find (\<lambda>ka. callee_program_id = unsigned_key ka) callee_keyed_accounts of
                    Some ka \<Rightarrow> get_account ic callee_program_id
                  | None \<Rightarrow> None)) (\<lambda>program_account_index.
       if \<not> executable (ic_store ic (ic_accounts ic ! program_account_index)) then Err AccountNotExecutable
       else Ok (msg, caller_write_privileges, [program_account_index]))))))"

definition native_invoke ::
  "(pubkey \<times> program) list \<Rightarrow> invoke_context \<Rightarrow> instruction \<Rightarrow> pubkey list \<Rightarrow> invoke_context ix_result" where
  "native_invoke builtins ic ix signers =
     and_then (create_message ic ix signers) (\<lambda>(msg, caller_write_privileges, program_indices).
     and_then (try_map (\<lambda>key. ok_or MissingAccount (get_account ic key)) (account_keys msg)) (\<lambda>account_indices.
     let prev_account_sizes = map (\<lambda>i. (ic_accounts ic ! i, length (data (ic_store ic (ic_accounts ic ! i))))) account_indices
     in
     and_then (index (instructions msg) 0) (\<lambda>ci.
     and_then (invoke_process_instruction builtins ic msg ci program_indices account_indices
                 caller_write_privileges) (\<lambda>ic'.
       if list_ex (\<lambda>(key, prev_size). \<not> f_do_support_realloc (features ic')
                     \<and> prev_size \<noteq> length (data (ic_store ic' key)) \<and> prev_size \<noteq> 0) prev_account_sizes
       then Err InvalidRealloc
       else Ok ic'))))"

section \<open>What the checks guarantee\<close>

text \<open>The rules for one account of an instruction.\<close>

definition account_rules :: "pubkey \<Rightarrow> bool \<Rightarrow> account \<Rightarrow> account \<Rightarrow> bool" where
  "account_rules program_id writable pre post \<longleftrightarrow>
     (program_id \<noteq> owner pre \<longrightarrow>
        data post = data pre \<and> owner post = owner pre \<and> lamports pre \<le> lamports post)
     \<and> (\<not> writable \<longrightarrow> post = pre)
     \<and> (executable pre \<longrightarrow> post = pre)
     \<and> (owner post \<noteq> owner pre \<longrightarrow> (\<forall>b\<in>set (data post). b = 0))
     \<and> rent_epoch post = rent_epoch pre"

lemma pre_account_verify_rules:
  assumes "pre_account_verify pa program_id writable rnt post t outer realloc = Ok t'"
  shows "account_rules program_id writable (pa_account pa) post"
  using pre_account_verify_Ok [OF assms] by (auto simp: account_rules_def intro: account.equality)

lemma add_sums_Ok:
  "add_sums a b st = Ok st' \<longleftrightarrow>
   (\<exists>p q. unat p = unat (pre_sum st) + unat a \<and> unat q = unat (post_sum st) + unat b
      \<and> st' = st\<lparr>pre_sum := p, post_sum := q\<rparr>)"
proof -
  have up: "unat (ucast (x :: u64) :: u128) = unat x" for x
  proof -
    have "unat x < 2 ^ LENGTH(64)" by (rule unsigned_less)
    then have "unat x < 2 ^ LENGTH(128)" by simp
    then show ?thesis by (simp only: unsigned_ucast_eq take_bit_nat_eq_self)
  qed
  show ?thesis
    by (auto simp: add_sums_def ok_simps checked_add_eq_Some up)
qed

lemma verify_work_Ok:
  assumes "verify_work ic msg program_id n i st = Ok st'"
  shows "i < length (ic_accounts ic)" and "n < length (vs_pre_accounts st)"
    and "vs_pre_accounts st' = vs_pre_accounts st"
    and "unat (pre_sum st') = unat (pre_sum st) + unat (lamports (pa_account (vs_pre_accounts st ! n)))"
    and "unat (post_sum st') = unat (post_sum st) + unat (lamports (ic_store ic (ic_accounts ic ! i)))"
    and "\<exists>w. message_is_writable msg i = Ok w
           \<and> account_rules program_id w (pa_account (vs_pre_accounts st ! n)) (ic_store ic (ic_accounts ic ! i))"
  using assms
  by (auto simp: verify_work_def index_def Let_def ok_simps add_sums_Ok split: if_splits
      dest: pre_account_verify_rules)

lemma run_verify_work:
  assumes "run_work (verify_work ic msg program_id) n is st = Ok st'"
  shows "vs_pre_accounts st' = vs_pre_accounts st
    \<and> unat (pre_sum st') = unat (pre_sum st)
        + sum_list (map (\<lambda>pa. unat (lamports (pa_account pa))) (take (length is) (drop n (vs_pre_accounts st))))
    \<and> unat (post_sum st') = unat (post_sum st) + sum_list (map (\<lambda>i. unat (lamports (ic_store ic (ic_accounts ic ! i)))) is)
    \<and> (\<forall>j<length is. is ! j < length (ic_accounts ic) \<and> (\<exists>w. message_is_writable msg (is ! j) = Ok w
         \<and> account_rules program_id w (pa_account (vs_pre_accounts st ! (n + j)))
             (ic_store ic (ic_accounts ic ! (is ! j)))))"
  using assms
proof (induction "verify_work ic msg program_id" n "is" st rule: run_work.induct)
  case (2 n i "is" st)
  then obtain st1 where st1: "verify_work ic msg program_id n i st = Ok st1"
      "run_work (verify_work ic msg program_id) (Suc n) is st1 = Ok st'"
    by (auto simp: ok_simps)
  note w = verify_work_Ok [OF st1(1)] and IH = 2(1) [OF st1(2)]
  have "take (Suc (length is)) (drop n (vs_pre_accounts st))
      = (vs_pre_accounts st ! n) # take (length is) (drop (Suc n) (vs_pre_accounts st))"
    using w(2) by (simp add: Cons_nth_drop_Suc [symmetric])
  then show ?case
    using IH w by (auto simp: nth_Cons' less_Suc_eq_0_disj)
qed simp

lemma run_record_pre_account:
  "run_work (record_pre_account keys s) n is pas = Ok pas' \<Longrightarrow>
   pas' = pas @ map (\<lambda>i. pre_account_new (keys ! i) (s (keys ! i))) is \<and> (\<forall>i\<in>set is. i < length keys)"
proof (induction "record_pre_account keys s" n "is" pas rule: run_work.induct)
  case (2 n i "is" pas)
  then have "i < length keys"
      "run_work (record_pre_account keys s) (Suc n) is (pas @ [pre_account_new (keys ! i) (s (keys ! i))]) = Ok pas'"
    by (auto simp: ok_simps record_pre_account_def split: if_splits)
  with 2(1) [OF this(2)] show ?case by simp
qed simp

text \<open>A program that only works on the store, through the keyed accounts of its frame.\<close>

definition store_program ::
  "(store \<Rightarrow> keyed_account list \<Rightarrow> nat \<Rightarrow> u8 list \<Rightarrow> store ix_result) \<Rightarrow> program" where
  "store_program f first_instruction_account instruction_data ic =
     and_then (get_keyed_accounts ic) (\<lambda>kas.
     and_then (f (ic_store ic) kas first_instruction_account instruction_data) (\<lambda>s.
     Ok (ic\<lparr>ic_store := s\<rparr>)))"

lemma verify_Ok:
  assumes "verify ic msg ci program_indices = Ok ic'"
    and "pre_accounts ic = map (\<lambda>i. pre_account_new (ic_accounts ic ! i) (s0 (ic_accounts ic ! i))) (unique_accounts ci)"
    and "get_account_key msg (unat (program_id_index ci)) = Some program_id"
  shows "ic_store ic' = ic_store ic" and "invoke_stack ic' = invoke_stack ic"
    and "(\<Sum>i\<leftarrow>unique_accounts ci. unat (lamports (ic_store ic (ic_accounts ic ! i))))
         = (\<Sum>i\<leftarrow>unique_accounts ci. unat (lamports (s0 (ic_accounts ic ! i))))"
    and "i \<in> set (unique_accounts ci) \<Longrightarrow> i < length (ic_accounts ic) \<and> (\<exists>w. message_is_writable msg i = Ok w
           \<and> account_rules program_id w (s0 (ic_accounts ic ! i)) (ic_store ic (ic_accounts ic ! i)))"
proof -
  let ?is = "unique_accounts ci"
  from assms(1,3) obtain st where run: "run_work (verify_work ic msg program_id) 0 ?is (verify_start ic) = Ok st"
      and fin: "pre_sum st = post_sum st"
        "ic' = ic\<lparr>data_meter := vs_meter st, ic_timings := vs_timings st, pre_accounts := vs_pre_accounts st\<rparr>"
    by (auto simp: verify_def verify_finish_def visit_each_account_eq ok_simps split: if_splits)
  from fin(2) show "ic_store ic' = ic_store ic" "invoke_stack ic' = invoke_stack ic"
    by simp_all
  note r = run_verify_work [OF run, simplified verify_start_def assms(2), simplified]
  show "(\<Sum>i\<leftarrow>?is. unat (lamports (ic_store ic (ic_accounts ic ! i))))
      = (\<Sum>i\<leftarrow>?is. unat (lamports (s0 (ic_accounts ic ! i))))"
    using r fin(1) by (simp add: comp_def pre_account_new_def)
  show "i < length (ic_accounts ic) \<and> (\<exists>w. message_is_writable msg i = Ok w
      \<and> account_rules program_id w (s0 (ic_accounts ic ! i)) (ic_store ic (ic_accounts ic ! i)))" if "i \<in> set ?is"
  proof -
    obtain j where "j < length ?is" "i = ?is ! j"
      using \<open>i \<in> set ?is\<close> by (metis in_set_conv_nth)
    with r show ?thesis by (auto simp: pre_account_new_def)
  qed
qed

lemma push_top_level_Ok:
  assumes "push ic msg ci program_indices account_indices = Ok ic'" and "invoke_stack ic = []"
  obtains pkas ikas where
    "pre_accounts ic' = map (\<lambda>i. pre_account_new (ic_accounts ic ! i) (ic_store ic (ic_accounts ic ! i))) (unique_accounts ci)"
    and "invoke_stack ic' = [stack_frame_new (length program_indices) (pkas @ ikas)]"
    and "ic_store ic' = ic_store ic" and "ic_accounts ic' = ic_accounts ic"
    and "try_map (program_keyed_account (ic_accounts ic)) program_indices = Ok pkas"
    and "try_map (instruction_keyed_account msg (ic_accounts ic) account_indices) (ci_accounts ci) = Ok ikas"
  using assms
  by (auto simp: push_def visit_each_account_eq ok_simps Let_def split: if_splits dest!: run_record_pre_account)

lemma map_of_map_prod_id: "map_of (map (map_prod id g) xs) k = map_option g (map_of xs k)"
  by (induction xs) auto

lemma top_level_Ok:
  assumes "invoke_process_instruction builtins ic msg ci program_indices account_indices privileges = Ok ic'"
    and "invoke_stack ic = []" and "builtins = map (map_prod id store_program) progs"
  obtains program_id pkas ikas f s first key where
    "get_account_key msg (unat (program_id_index ci)) = Some program_id"
    and "try_map (program_keyed_account (ic_accounts ic)) program_indices = Ok pkas"
    and "try_map (instruction_keyed_account msg (ic_accounts ic) account_indices) (ci_accounts ci) = Ok ikas"
    and "map_of progs key = Some f"
    and "f (ic_store ic) (pkas @ ikas) first (ci_data ci) = Ok s"
    and "pkas @ ikas \<noteq> []"
    and "let owner_id = owner (ic_store ic (unsigned_key (hd (pkas @ ikas)))) in
         if owner_id = native_loader_id then key = unsigned_key (hd (pkas @ ikas)) \<and> first = 1
         else key = owner_id \<and> first = 0"
    and "ic_store ic' = s" and "invoke_stack ic' = []"
    and "(\<Sum>i\<leftarrow>unique_accounts ci. unat (lamports (s (ic_accounts ic ! i))))
         = (\<Sum>i\<leftarrow>unique_accounts ci. unat (lamports (ic_store ic (ic_accounts ic ! i))))"
    and "\<And>i. i \<in> set (unique_accounts ci) \<Longrightarrow> i < length (ic_accounts ic) \<and> (\<exists>w. message_is_writable msg i = Ok w
           \<and> account_rules program_id w (ic_store ic (ic_accounts ic ! i)) (s (ic_accounts ic ! i)))"
proof -
  from assms(1,2) obtain ic1 program_id ic2 ic3 where
    push: "push ic msg ci program_indices account_indices = Ok ic1"
    and pid: "get_account_key msg (unat (program_id_index ci)) = Some program_id"
    and chain: "process_executable_chain builtins (ic1\<lparr>return_data := (program_id, [])\<rparr>) (ci_data ci) = Ok ic2"
    and ver: "verify ic2 msg ci program_indices = Ok ic3" and ic': "ic' = pop ic3"
    by (auto simp: invoke_process_instruction_def Let_def ok_simps split: option.splits)
  obtain pkas ikas where p:
    "pre_accounts ic1 = map (\<lambda>i. pre_account_new (ic_accounts ic ! i) (ic_store ic (ic_accounts ic ! i))) (unique_accounts ci)"
    "invoke_stack ic1 = [stack_frame_new (length program_indices) (pkas @ ikas)]"
    "ic_store ic1 = ic_store ic" "ic_accounts ic1 = ic_accounts ic"
    "try_map (program_keyed_account (ic_accounts ic)) program_indices = Ok pkas"
    "try_map (instruction_keyed_account msg (ic_accounts ic) account_indices) (ci_accounts ci) = Ok ikas"
    by (rule push_top_level_Ok [OF push assms(2)])
  have kas: "get_keyed_accounts (ic1\<lparr>return_data := (program_id, [])\<rparr>) = Ok (pkas @ ikas)"
    by (simp add: get_keyed_accounts_def p(2) stack_frame_new_def)
  let ?ic1 = "ic1\<lparr>return_data := (program_id, [])\<rparr>" and ?kas = "pkas @ ikas"
  have ne: "?kas \<noteq> []"
    using chain by (auto simp: process_executable_chain_def kas keyed_account_at_index_def)
  then have root: "keyed_account_at_index ?kas 0 = Ok (hd ?kas)"
    by (simp add: keyed_account_at_index_def hd_conv_nth)
  define owner_id where "owner_id = owner (ic_store ic (unsigned_key (hd ?kas)))"
  define key where "key = (if owner_id = native_loader_id then unsigned_key (hd ?kas) else owner_id)"
  define first where "first = (if owner_id = native_loader_id then 1 else 0 :: nat)"
  have "ka_owner (ic_store ?ic1) (hd ?kas) = owner_id"
    by (simp add: ka_owner_def p(3) owner_id_def)
  then obtain q where q: "map_of builtins key = Some q" "q first (ci_data ci) ?ic1 = Ok ic2"
    using chain unfolding process_executable_chain_def kas and_then.simps root map_err.simps Let_def
    by (auto simp: key_def first_def split: option.splits if_splits)
  obtain f where f: "q = store_program f" "map_of progs key = Some f"
    using q(1) by (auto simp: assms(3) map_of_map_prod_id)
  obtain s where s: "f (ic_store ic) ?kas first (ci_data ci) = Ok s" "ic2 = ?ic1\<lparr>ic_store := s\<rparr>"
    using q(2) kas p(3) by (auto simp: f(1) store_program_def ok_simps)
  have "pre_accounts ic2 = map (\<lambda>i. pre_account_new (ic_accounts ic2 ! i) (ic_store ic (ic_accounts ic2 ! i))) (unique_accounts ci)"
    by (simp add: s(2) p(1,4))
  note v = verify_Ok [OF ver this pid]
  show thesis
  proof (rule that [OF pid p(5,6) f(2) s(1) ne])
    show "let owner_id = owner (ic_store ic (unsigned_key (hd ?kas))) in
         if owner_id = native_loader_id then key = unsigned_key (hd ?kas) \<and> first = 1
         else key = owner_id \<and> first = 0"
      by (simp add: key_def first_def flip: owner_id_def)
    show "ic_store ic' = s" "invoke_stack ic' = []"
      using v(1,2) by (simp_all add: ic' pop_def s(2) p(2))
    show "(\<Sum>i\<leftarrow>unique_accounts ci. unat (lamports (s (ic_accounts ic ! i))))
         = (\<Sum>i\<leftarrow>unique_accounts ci. unat (lamports (ic_store ic (ic_accounts ic ! i))))"
      using v(3) by (simp add: s(2) p(4))
    show "i < length (ic_accounts ic) \<and> (\<exists>w. message_is_writable msg i = Ok w
           \<and> account_rules program_id w (ic_store ic (ic_accounts ic ! i)) (s (ic_accounts ic ! i)))"
      if "i \<in> set (unique_accounts ci)" for i
      using v(4) [OF that] by (simp add: s(2) p(4))
  qed
qed

end
