(* ===== verification/Sdk_Message_Laws.thy ===== *)
theory Sdk_Message_Laws
  imports Sdk_Message
begin

text \<open>
  What a compiled message promises: its keys are the keys of the instructions without repetition,
  the signers come first, and each compiled instruction decompiles to the instruction it came from.
  The write flags are right for instructions that do not ask for one key both as a read-only signer
  and, elsewhere, as a writable account that does not sign.
\<close>

section \<open>Sorting in blocks\<close>

lemma sorted_blocks:
  fixes f :: "'a \<Rightarrow> nat"
  assumes "sorted (map f ys)" and "\<forall>y\<in>set ys. f y < 4"
  shows "ys = filter (\<lambda>y. f y = 0) ys @ filter (\<lambda>y. f y = 1) ys @ filter (\<lambda>y. f y = 2) ys
              @ filter (\<lambda>y. f y = 3) ys"
  using assms
proof (induction ys)
  case (Cons y ys)
  have IH: "ys = filter (\<lambda>y. f y = 0) ys @ filter (\<lambda>y. f y = 1) ys @ filter (\<lambda>y. f y = 2) ys
              @ filter (\<lambda>y. f y = 3) ys"
    by (rule Cons.IH) (use Cons.prems in auto)
  have none: "filter (\<lambda>y. f y = n) ys = []" if "n < f y" for n
    using Cons.prems(1) that by (auto simp: filter_empty_conv)
  have "f y \<in> {0, 1, 2, 3}"
    using Cons.prems(2) by auto
  then show ?case
    using IH [symmetric] none by auto
qed simp

definition rank_block :: "nat \<Rightarrow> account_meta list \<Rightarrow> account_meta list" where
  "rank_block n ms = filter (\<lambda>m. meta_rank m = n) ms"

lemma rank_block_flags:
  "m \<in> set (rank_block n ms) \<Longrightarrow> am_is_signer m = (n < 2) \<and> am_is_writable m = (n = 0 \<or> n = 2)"
  by (auto simp: rank_block_def meta_rank_def split: if_splits)

lemma sort_metas_blocks:
  "sort_key meta_rank ms = rank_block 0 ms @ rank_block 1 ms @ rank_block 2 ms @ rank_block 3 ms"
proof -
  have "\<forall>m\<in>set (sort_key meta_rank ms). meta_rank m < 4"
    by (simp add: meta_rank_def)
  from sorted_blocks [OF sorted_sort_key this] show ?thesis
    by (simp only: rank_block_def sort_key_stable)
qed

text \<open>All metas a message is compiled from, in the order of the source before sorting.\<close>

definition all_metas :: "instruction list \<Rightarrow> pubkey option \<Rightarrow> account_meta list" where
  "all_metas ixs payer =
     (case payer of Some p \<Rightarrow> [\<lparr>am_pubkey = p, am_is_signer = True, am_is_writable = True\<rparr>] | None \<Rightarrow> [])
     @ concat (map ix_accounts ixs)
     @ map (\<lambda>p. \<lparr>am_pubkey = p, am_is_signer = False, am_is_writable = False\<rparr>) (get_program_ids ixs)"

lemma sorted_metas_blocks:
  "sorted_metas ixs payer
   = (let ms = all_metas ixs payer in rank_block 0 ms @ rank_block 1 ms @ rank_block 2 ms @ rank_block 3 ms)"
  by (cases payer)
     (simp_all add: sorted_metas_def all_metas_def sort_metas_blocks rank_block_def meta_rank_def Let_def)

lemma rank_block_keys:
  "am_pubkey ` set (rank_block 0 ms) = {am_pubkey m |m. m \<in> set ms \<and> am_is_signer m \<and> am_is_writable m}"
  "am_pubkey ` set (rank_block 1 ms) = {am_pubkey m |m. m \<in> set ms \<and> am_is_signer m \<and> \<not> am_is_writable m}"
  "am_pubkey ` set (rank_block 2 ms) = {am_pubkey m |m. m \<in> set ms \<and> \<not> am_is_signer m \<and> am_is_writable m}"
  "am_pubkey ` set (rank_block 3 ms) = {am_pubkey m |m. m \<in> set ms \<and> \<not> am_is_signer m \<and> \<not> am_is_writable m}"
  by (auto simp: rank_block_def meta_rank_def split: if_splits)

lemmas rank_keys = rank_block_keys rank_block_keys(2) [unfolded One_nat_def]

section \<open>The keys\<close>

lemma collect_keys_fields:
  "signed_keys (collect_keys ms ks) = signed_keys ks @ map am_pubkey (filter am_is_signer ms)"
  "unsigned_keys (collect_keys ms ks) = unsigned_keys ks @ map am_pubkey (filter (\<lambda>m. \<not> am_is_signer m) ms)"
  "ik_num_readonly_signed (collect_keys ms ks)
   = ik_num_readonly_signed ks + of_nat (length (filter (\<lambda>m. am_is_signer m \<and> \<not> am_is_writable m) ms))"
  "ik_num_readonly_unsigned (collect_keys ms ks)
   = ik_num_readonly_unsigned ks + of_nat (length (filter (\<lambda>m. \<not> am_is_signer m \<and> \<not> am_is_writable m) ms))"
  by (induction ms ks rule: collect_keys.induct) auto

definition key_flag :: "account_meta \<Rightarrow> pubkey \<times> bool" where
  "key_flag m = (am_pubkey m, am_is_signer m)"

lemma key_flag_simps [simp]: "fst (key_flag m) = am_pubkey m" "snd (key_flag m) = am_is_signer m"
  by (simp_all add: key_flag_def)

lemma push_meta_key_flag:
  "map key_flag (push_meta m xs)
   = map key_flag xs @ (if am_pubkey m \<in> am_pubkey ` set xs then [] else [key_flag m])"
  by (induction m xs rule: push_meta.induct) (auto simp: key_flag_def)

lemma fold_push_key_flag:
  assumes "\<forall>m\<in>set ms. am_is_signer m = sg"
  shows "\<exists>vs. map key_flag (fold push_meta ms xs) = map key_flag xs @ vs \<and> (\<forall>v\<in>set vs. snd v = sg)"
  using assms
proof (induction ms arbitrary: xs)
  case (Cons m ms)
  obtain vs where "map key_flag (fold push_meta ms (push_meta m xs)) = map key_flag (push_meta m xs) @ vs"
      "\<forall>v\<in>set vs. snd v = sg"
    using Cons.IH [of "push_meta m xs"] Cons.prems by auto
  then show ?case
    using Cons.prems
    by (intro exI [of _ "(if am_pubkey m \<in> am_pubkey ` set xs then [] else [key_flag m]) @ vs"])
       (auto simp: push_meta_key_flag)
qed simp

text \<open>The unique metas are the signers and then the others, and a key signs if some meta says so.\<close>

lemma unique_metas_signers:
  obtains ss ns where "unique_metas (sorted_metas ixs payer) = ss @ ns"
    and "\<forall>m\<in>set ss. am_is_signer m" and "\<forall>m\<in>set ns. \<not> am_is_signer m"
    and "am_pubkey ` set ss = {am_pubkey m |m. m \<in> set (all_metas ixs payer) \<and> am_is_signer m}"
proof -
  let ?ms = "all_metas ixs payer"
  define A where "A = rank_block 0 ?ms @ rank_block 1 ?ms"
  define B where "B = rank_block 2 ?ms @ rank_block 3 ?ms"
  define us where "us = fold push_meta A []"
  have flags: "\<forall>m\<in>set A. am_is_signer m = True" "\<forall>m\<in>set B. am_is_signer m = False"
    by (auto simp: A_def B_def dest: rank_block_flags)
  obtain vs0 where "map key_flag us = vs0" "\<forall>v\<in>set vs0. snd v"
    using fold_push_key_flag [OF flags(1), of "[]"] by (auto simp: us_def)
  then have s: "\<forall>m\<in>set us. am_is_signer m"
    by auto
  from fold_push_key_flag [OF flags(2), of us] obtain vs where
    vs: "map key_flag (fold push_meta B us) = map key_flag us @ vs" "\<forall>v\<in>set vs. \<not> snd v"
    by auto
  from vs(1) obtain ss ns where ss: "fold push_meta B us = ss @ ns" "map key_flag ss = map key_flag us"
      "map key_flag ns = vs"
    by (auto simp: map_eq_append_conv)
  have keys: "key_flag ` set ss = key_flag ` set us"
    using arg_cong [OF ss(2), of set] by simp
  show thesis
  proof (rule that)
    show "unique_metas (sorted_metas ixs payer) = ss @ ns"
      using ss(1) by (simp add: unique_metas_def sorted_metas_blocks Let_def us_def A_def B_def)
    show "\<forall>m\<in>set ss. am_is_signer m"
      using s arg_cong [OF keys, of "image snd"] by (auto simp: image_image)
    show "\<forall>m\<in>set ns. \<not> am_is_signer m"
      using vs(2) ss(3) by auto
    show "am_pubkey ` set ss = {am_pubkey m |m. m \<in> set ?ms \<and> am_is_signer m}"
      using fold_push_keys(2) [of "[]" A] arg_cong [OF keys, of "image fst"]
      by (auto simp: image_image us_def A_def rank_keys image_Un)
  qed
qed

lemma get_keys_fields:
  fixes ixs payer
  defines "us \<equiv> unique_metas (sorted_metas ixs payer)"
  shows "signed_keys (get_keys ixs payer) @ unsigned_keys (get_keys ixs payer) = map am_pubkey us"
    and "signed_keys (get_keys ixs payer) = map am_pubkey (filter am_is_signer us)"
    and "ik_num_readonly_signed (get_keys ixs payer)
         = of_nat (length (filter (\<lambda>m. am_is_signer m \<and> \<not> am_is_writable m) us))"
    and "ik_num_readonly_unsigned (get_keys ixs payer)
         = of_nat (length (filter (\<lambda>m. \<not> am_is_signer m \<and> \<not> am_is_writable m) us))"
proof -
  obtain ss ns where us: "us = ss @ ns" "\<forall>m\<in>set ss. am_is_signer m" "\<forall>m\<in>set ns. \<not> am_is_signer m"
    unfolding us_def by (rule unique_metas_signers [of ixs payer]) blast
  show "signed_keys (get_keys ixs payer) @ unsigned_keys (get_keys ixs payer) = map am_pubkey us"
    using us by (simp add: get_keys_def collect_keys_fields flip: us_def)
qed (simp_all add: get_keys_def collect_keys_fields us_def)

lemma sorted_metas_set: "set (sorted_metas ixs payer) = set (all_metas ixs payer)"
  by (auto simp: sorted_metas_def all_metas_def)

lemma unique_metas_keys:
  "distinct (map am_pubkey (unique_metas (sorted_metas ixs payer)))"
  "am_pubkey ` set (unique_metas (sorted_metas ixs payer)) = am_pubkey ` set (all_metas ixs payer)"
  using fold_push_keys [of "[]" "sorted_metas ixs payer"]
  by (simp_all add: unique_metas_def sorted_metas_set)

lemma instruction_keys_occur:
  assumes "ix \<in> set ixs"
  shows "ix_program_id ix \<in> am_pubkey ` set (all_metas ixs payer)"
    and "m \<in> set (ix_accounts ix) \<Longrightarrow> m \<in> set (all_metas ixs payer)"
proof -
  have "\<lparr>am_pubkey = ix_program_id ix, am_is_signer = False, am_is_writable = False\<rparr> \<in> set (all_metas ixs payer)"
    using assms by (auto simp: all_metas_def)
  then show "ix_program_id ix \<in> am_pubkey ` set (all_metas ixs payer)"
    by (rule rev_image_eqI) simp
  show "m \<in> set (ix_accounts ix) \<Longrightarrow> m \<in> set (all_metas ixs payer)"
    using assms by (auto simp: all_metas_def)
qed

section \<open>Building a message\<close>

lemma compile_instruction_Ok:
  assumes "length keys \<le> 256" and "ix_program_id ix \<in> set keys"
    and "am_pubkey ` set (ix_accounts ix) \<subseteq> set keys"
  obtains ci where "compile_instruction ix keys = Ok ci" and "ci_data ci = ix_data ix"
    and "unat (program_id_index ci) < length keys" and "keys ! unat (program_id_index ci) = ix_program_id ix"
    and "list_all2 (\<lambda>i m. unat i < length keys \<and> keys ! unat i = am_pubkey m) (ci_accounts ci) (ix_accounts ix)"
proof -
  obtain p where p: "position_u8 keys (ix_program_id ix) = Ok p" "unat p < length keys"
      "keys ! unat p = ix_program_id ix"
    using position_u8_Ok [OF assms(2,1)] .
  have pos: "\<exists>i. position_u8 keys (am_pubkey m) = Ok i \<and> unat i < length keys \<and> keys ! unat i = am_pubkey m"
    if "m \<in> set (ix_accounts ix)" for m
    using that assms(1,3) position_u8_Ok [of "am_pubkey m" keys] by blast
  obtain accounts where a: "try_map (\<lambda>m. position_u8 keys (am_pubkey m)) (ix_accounts ix) = Ok accounts"
    using try_map_total [of "ix_accounts ix" "\<lambda>m. position_u8 keys (am_pubkey m)"] pos by blast
  have "list_all2 (\<lambda>i m. unat i < length keys \<and> keys ! unat i = am_pubkey m) accounts (ix_accounts ix)"
  proof (rule list_all2_all_nthI)
    show "length accounts = length (ix_accounts ix)"
      using a by (auto simp: try_map_Ok_iff dest: list_all2_lengthD)
    fix n assume n: "n < length accounts"
    then have "position_u8 keys (am_pubkey (ix_accounts ix ! n)) = Ok (accounts ! n)"
      using a by (auto simp: try_map_Ok_iff list_all2_conv_all_nth)
    moreover have "ix_accounts ix ! n \<in> set (ix_accounts ix)"
      using a n by (auto simp: try_map_Ok_iff dest: list_all2_lengthD)
    ultimately show "unat (accounts ! n) < length keys \<and> keys ! unat (accounts ! n) = am_pubkey (ix_accounts ix ! n)"
      using pos by force
  qed
  with a p that show thesis
    by (simp add: compile_instruction_def)
qed

lemma new_with_blockhash_Ok:
  fixes ixs payer
  defines "us \<equiv> unique_metas (sorted_metas ixs payer)"
  assumes "length us \<le> 256"
  obtains cis where "new_with_blockhash ixs payer blockhash = Ok
      \<lparr>header = \<lparr>num_required_signatures = of_nat (length (filter am_is_signer us)),
         num_readonly_signed_accounts = of_nat (length (filter (\<lambda>m. am_is_signer m \<and> \<not> am_is_writable m) us)),
         num_readonly_unsigned_accounts = of_nat (length (filter (\<lambda>m. \<not> am_is_signer m \<and> \<not> am_is_writable m) us))\<rparr>,
       account_keys = map am_pubkey us, recent_blockhash = blockhash, instructions = cis\<rparr>"
    and "list_all2 (\<lambda>ix ci. compile_instruction ix (map am_pubkey us) = Ok ci) ixs cis"
proof -
  have "\<exists>ci. compile_instruction ix (map am_pubkey us) = Ok ci" if "ix \<in> set ixs" for ix
  proof -
    have "set (map am_pubkey us) = am_pubkey ` set (all_metas ixs payer)"
      by (simp add: us_def unique_metas_keys)
    then have "ix_program_id ix \<in> set (map am_pubkey us)" "am_pubkey ` set (ix_accounts ix) \<subseteq> set (map am_pubkey us)"
      using instruction_keys_occur [OF that, where payer = payer] by auto
    then show ?thesis
      using compile_instruction_Ok [of "map am_pubkey us" ix] assms(2) by (metis length_map)
  qed
  then obtain cis where cis: "try_map (\<lambda>ix. compile_instruction ix (map am_pubkey us)) ixs = Ok cis"
    using try_map_total [of ixs "\<lambda>ix. compile_instruction ix (map am_pubkey us)"] by blast
  have keys: "signed_keys (get_keys ixs payer) @ unsigned_keys (get_keys ixs payer) = map am_pubkey us"
      "length (signed_keys (get_keys ixs payer)) = length (filter am_is_signer us)"
    unfolding us_def by (simp_all only: get_keys_fields(1), simp add: get_keys_fields(2))
  show thesis
  proof (rule that)
    show "list_all2 (\<lambda>ix ci. compile_instruction ix (map am_pubkey us) = Ok ci) ixs cis"
      using cis by (simp only: try_map_Ok_iff)
  qed (simp add: new_with_blockhash_def Let_def compile_instructions_def get_keys_fields(3,4)
         new_with_compiled_instructions_def keys cis flip: us_def)
qed

lemma new_with_blockhash_D:
  fixes ixs payer
  defines "us \<equiv> unique_metas (sorted_metas ixs payer)"
  assumes "new_with_blockhash ixs payer blockhash = Ok m" and "length us \<le> 256"
  obtains cis where "m =
      \<lparr>header = \<lparr>num_required_signatures = of_nat (length (filter am_is_signer us)),
         num_readonly_signed_accounts = of_nat (length (filter (\<lambda>m. am_is_signer m \<and> \<not> am_is_writable m) us)),
         num_readonly_unsigned_accounts = of_nat (length (filter (\<lambda>m. \<not> am_is_signer m \<and> \<not> am_is_writable m) us))\<rparr>,
       account_keys = map am_pubkey us, recent_blockhash = blockhash, instructions = cis\<rparr>"
    and "list_all2 (\<lambda>ix ci. compile_instruction ix (map am_pubkey us) = Ok ci) ixs cis"
proof (rule new_with_blockhash_Ok [of ixs payer blockhash])
  show "length (unique_metas (sorted_metas ixs payer)) \<le> 256"
    using assms(3) by (simp add: us_def)
qed (use assms(2) that in \<open>simp flip: us_def\<close>)

lemma distinct_iff_drop: "distinct ks \<longleftrightarrow> (\<forall>i<length ks. ks ! i \<notin> set (drop (Suc i) ks))"
  by (induction ks) (auto simp: less_Suc_eq_0_disj)

lemma has_duplicates_iff: "has_duplicates m \<longleftrightarrow> \<not> distinct (account_keys m)"
proof -
  let ?ks = "account_keys m"
  have "has_duplicates m \<longleftrightarrow> (\<exists>i. Suc i < length ?ks \<and> ?ks ! i \<in> set (drop (Suc i) ?ks))" (is "?l \<longleftrightarrow> ?r")
  proof
    assume ?l
    then obtain i where "i \<in> {1..<length ?ks}" "?ks ! (i - 1) \<in> set (drop i ?ks)"
      unfolding has_duplicates_def list_ex_iff set_upt by blast
    then show ?r by (intro exI [of _ "i - 1"]) auto
  next
    assume ?r
    then obtain i where "Suc i < length ?ks" "?ks ! i \<in> set (drop (Suc i) ?ks)" by blast
    then show ?l
      unfolding has_duplicates_def list_ex_iff set_upt by (intro bexI [of _ "Suc i"]) auto
  qed
  also have "\<dots> \<longleftrightarrow> (\<exists>i<length ?ks. ?ks ! i \<in> set (drop (Suc i) ?ks))"
  proof -
    have "Suc i < length ?ks" if "?ks ! i \<in> set (drop (Suc i) ?ks)" for i
      using that by (cases "Suc i < length ?ks") auto
    then show ?thesis by (meson Suc_lessD)
  qed
  also have "\<dots> \<longleftrightarrow> \<not> distinct ?ks"
    by (simp add: distinct_iff_drop)
  finally show ?thesis .
qed

section \<open>Permissions\<close>

lemma nth_append_signer:
  assumes "\<forall>m\<in>set ss. P m" and "\<forall>m\<in>set ns. \<not> P m" and "i < length (ss @ ns)"
  shows "i < length (filter P (ss @ ns)) \<longleftrightarrow> P ((ss @ ns) ! i)"
proof -
  have "filter P (ss @ ns) = ss"
    using assms(1,2) by (simp add: filter_id_conv)
  then show ?thesis
    using assms by (auto simp: nth_append)
qed

text \<open>The unique metas of instructions with consistent flags, in four blocks.\<close>

definition consistent_flags :: "account_meta list \<Rightarrow> bool" where
  "consistent_flags ms \<longleftrightarrow>
     (\<forall>x\<in>set ms. \<forall>y\<in>set ms. am_pubkey x = am_pubkey y \<and> am_is_signer x \<and> am_is_writable y \<longrightarrow>
        (\<exists>z\<in>set ms. am_pubkey z = am_pubkey x \<and> am_is_signer z \<and> am_is_writable z))"

lemma unique_metas_blocks:
  assumes "consistent_flags (all_metas ixs payer)"
  obtains u0 u1 u2 u3 where "unique_metas (sorted_metas ixs payer) = u0 @ u1 @ u2 @ u3"
    and "\<forall>m\<in>set u0. am_is_signer m \<and> am_is_writable m"
    and "\<forall>m\<in>set u1. am_is_signer m \<and> \<not> am_is_writable m"
    and "\<forall>m\<in>set u2. \<not> am_is_signer m \<and> am_is_writable m"
    and "\<forall>m\<in>set u3. \<not> am_is_signer m \<and> \<not> am_is_writable m"
proof -
  let ?ms = "all_metas ixs payer"
  define A0 A1 A2 A3 where A_def: "A0 = rank_block 0 ?ms" "A1 = rank_block 1 ?ms"
      "A2 = rank_block 2 ?ms" "A3 = rank_block 3 ?ms"
  have flags: "\<forall>m\<in>set A0. am_is_signer m = True \<and> am_is_writable m = True"
      "\<forall>m\<in>set A1. am_is_signer m = True \<and> am_is_writable m = False"
      "\<forall>m\<in>set A2. am_is_signer m = False \<and> am_is_writable m = True"
      "\<forall>m\<in>set A3. am_is_signer m = False \<and> am_is_writable m = False"
    by (auto simp: A_def dest: rank_block_flags)
  obtain u0 where u0: "fold push_meta A0 [] = u0" "\<forall>m\<in>set u0. am_is_signer m \<and> am_is_writable m"
      "am_pubkey ` set u0 = am_pubkey ` set A0"
    using fold_push_block [OF flags(1), of "[]"] by auto
  obtain u1 where u1: "fold push_meta A1 u0 = u0 @ u1" "\<forall>m\<in>set u1. am_is_signer m \<and> \<not> am_is_writable m"
      "am_pubkey ` set u1 = am_pubkey ` set A1 - am_pubkey ` set u0"
    using fold_push_block [OF flags(2), of u0] by auto
  have keys: "am_pubkey ` set A1 \<inter> am_pubkey ` set A2 \<subseteq> am_pubkey ` set A0"
  proof
    fix k assume "k \<in> am_pubkey ` set A1 \<inter> am_pubkey ` set A2"
    then obtain x y where x: "x \<in> set A1" "am_pubkey x = k" and y: "y \<in> set A2" "am_pubkey y = k"
      by auto
    have "x \<in> set ?ms" "y \<in> set ?ms"
      using x(1) y(1) by (auto simp: A_def rank_block_def)
    moreover have "am_is_signer x" "am_is_writable y"
      using flags(2,3) x(1) y(1) by auto
    ultimately obtain z where "z \<in> set ?ms" "am_pubkey z = k" "am_is_signer z" "am_is_writable z"
      using assms x(2) y(2) unfolding consistent_flags_def by metis
    then have "z \<in> set A0"
      by (simp add: A_def rank_block_def meta_rank_def)
    with \<open>am_pubkey z = k\<close> show "k \<in> am_pubkey ` set A0"
      by auto
  qed
  have np: "am_is_writable x" if "x \<in> set (u0 @ u1)" "am_pubkey x \<in> am_pubkey ` set A2" for x
  proof (rule ccontr)
    assume "\<not> am_is_writable x"
    with that(1) u0(2) have "am_pubkey x \<in> am_pubkey ` set u1" by auto
    then have "am_pubkey x \<in> am_pubkey ` set A1" "am_pubkey x \<notin> am_pubkey ` set A0"
      by (simp_all add: u1(3) u0(3))
    with that(2) keys show False by (meson IntI subsetD)
  qed
  have "\<forall>x\<in>set (u0 @ u1). am_pubkey x \<in> am_pubkey ` set A2 \<longrightarrow> am_is_writable x"
    using np by (intro ballI impI)
  then obtain u2 where u2: "fold push_meta A2 (u0 @ u1) = (u0 @ u1) @ u2"
      "\<forall>m\<in>set u2. \<not> am_is_signer m \<and> am_is_writable m"
    using fold_push_block [OF flags(3), of "u0 @ u1"] by auto
  obtain u3 where u3: "fold push_meta A3 ((u0 @ u1) @ u2) = ((u0 @ u1) @ u2) @ u3"
      "\<forall>m\<in>set u3. \<not> am_is_signer m \<and> \<not> am_is_writable m"
    using fold_push_block [OF flags(4), of "(u0 @ u1) @ u2"] by auto
  have "unique_metas (sorted_metas ixs payer) = u0 @ u1 @ u2 @ u3"
    by (simp only: unique_metas_def sorted_metas_blocks Let_def A_def [symmetric] fold_append comp_apply
        u0(1) u1(1) u2(1) [unfolded append_assoc] u3(1) [unfolded append_assoc] append_assoc)
  then show thesis
    by (rule that) (fact u0(2) u1(2) u2(2) u3(2))+
qed

text \<open>A unique meta is writable if and only if some meta with its key is.\<close>

lemma push_meta_writable:
  assumes "distinct (map am_pubkey xs)"
  shows "(\<exists>u\<in>set (push_meta m xs). am_pubkey u = k \<and> am_is_writable u)
     \<longleftrightarrow> (\<exists>x\<in>set xs. am_pubkey x = k \<and> am_is_writable x) \<or> am_pubkey m = k \<and> am_is_writable m"
  using assms by (induction m xs rule: push_meta.induct) auto

lemma unique_metas_writable:
  "(\<exists>u\<in>set (unique_metas ms). am_pubkey u = k \<and> am_is_writable u) \<longleftrightarrow> (\<exists>m\<in>set ms. am_pubkey m = k \<and> am_is_writable m)"
proof -
  have "(\<exists>u\<in>set (fold push_meta ms xs). am_pubkey u = k \<and> am_is_writable u)
     \<longleftrightarrow> (\<exists>x\<in>set xs. am_pubkey x = k \<and> am_is_writable x) \<or> (\<exists>m\<in>set ms. am_pubkey m = k \<and> am_is_writable m)"
    if "distinct (map am_pubkey xs)" for xs
    using that
  proof (induction ms arbitrary: xs)
    case (Cons m ms)
    have "distinct (map am_pubkey (push_meta m xs))"
      using Cons.prems by (auto simp: push_meta_keys)
    from Cons.IH [OF this] push_meta_writable [OF Cons.prems, of m k] show ?case
      by auto
  qed simp
  from this [of "[]"] show ?thesis
    by (simp add: unique_metas_def)
qed

text \<open>
  Everything a message says of its keys follows from the unique metas: which index signs, and
  which may be written, when the blocks are in order.
\<close>

lemma message_signer:
  fixes ixs payer
  defines "us \<equiv> unique_metas (sorted_metas ixs payer)"
  assumes "length (filter am_is_signer us) < 256" and "i < length us"
    and "num_required_signatures (header m) = of_nat (length (filter am_is_signer us))"
  shows "message_is_signer m i \<longleftrightarrow>
         (\<exists>x\<in>set (all_metas ixs payer). am_pubkey x = am_pubkey (us ! i) \<and> am_is_signer x)"
proof -
  obtain ss ns where us: "us = ss @ ns" "\<forall>m\<in>set ss. am_is_signer m" "\<forall>m\<in>set ns. \<not> am_is_signer m"
      "am_pubkey ` set ss = {am_pubkey m |m. m \<in> set (all_metas ixs payer) \<and> am_is_signer m}"
    unfolding us_def by (rule unique_metas_signers [of ixs payer]) blast
  have d: "distinct (map am_pubkey us)"
    by (simp add: us_def unique_metas_keys)
  have "message_is_signer m i \<longleftrightarrow> am_is_signer (us ! i)"
    using nth_append_signer [OF us(2,3), of i] assms(2-4)
    by (simp add: message_is_signer_def unat_of_nat flip: us(1))
  also have "\<dots> \<longleftrightarrow> am_pubkey (us ! i) \<in> am_pubkey ` set ss"
  proof
    show "am_is_signer (us ! i) \<Longrightarrow> am_pubkey (us ! i) \<in> am_pubkey ` set ss"
      using us(1,3) assms(3) nth_mem [of i us] by (auto simp: us(1))
    assume "am_pubkey (us ! i) \<in> am_pubkey ` set ss"
    then obtain x where "x \<in> set ss" "am_pubkey x = am_pubkey (us ! i)" by auto
    moreover from this have "x \<in> set us" by (simp add: us(1))
    moreover have "us ! i \<in> set us"
      using assms(3) by (rule nth_mem)
    moreover have "inj_on am_pubkey (set us)"
      using d by (simp add: distinct_map)
    ultimately have "x = us ! i"
      by (simp add: inj_on_eq_iff)
    with \<open>x \<in> set ss\<close> us(2) show "am_is_signer (us ! i)" by auto
  qed
  finally show ?thesis
    using us(4) by auto
qed

lemma unat_up: "unat (ucast (x :: u8) :: u64) = unat x"
proof -
  have "unat x < 2 ^ LENGTH(8)" by (rule unsigned_less)
  then have "unat x < 2 ^ LENGTH(64)" by simp
  then show ?thesis by (simp only: unsigned_ucast_eq take_bit_nat_eq_self)
qed

lemma header_is_writable:
  assumes le: "num_readonly_signed_accounts (header m) \<le> num_required_signatures (header m)"
      "unat (num_readonly_unsigned_accounts (header m)) \<le> length (account_keys m)"
    and "i < length (account_keys m)" and "length (account_keys m) < 2 ^ 64"
  shows "message_is_writable m i = Ok
    ((i < unat (num_required_signatures (header m)) - unat (num_readonly_signed_accounts (header m))
      \<or> i \<ge> unat (num_required_signatures (header m))
        \<and> i < length (account_keys m) - unat (num_readonly_unsigned_accounts (header m)))
     \<and> \<not> is_sysvar_id (account_keys m ! i) \<and> account_keys m ! i \<notin> set BUILTIN_PROGRAMS_KEYS
     \<and> \<not> is_key_called_as_program m i)"
proof -
  let ?h = "header m"
  have "unat (of_nat (length (account_keys m)) - ucast (num_readonly_unsigned_accounts ?h) :: u64)
      = length (account_keys m) - unat (num_readonly_unsigned_accounts ?h)"
    using le(2) assms(4) unat_up [of "num_readonly_unsigned_accounts ?h"]
    by (subst unat_sub) (simp_all add: word_le_nat_alt unat_of_nat)
  moreover have "unat (num_required_signatures ?h - num_readonly_signed_accounts ?h)
      = unat (num_required_signatures ?h) - unat (num_readonly_signed_accounts ?h)"
    using le(1) by (rule unat_sub)
  ultimately show ?thesis
    using assms(3) by (auto simp: message_is_writable_def Let_def)
qed

lemma sanitized_header:
  assumes "sanitize m = Ok ()"
  shows "num_readonly_signed_accounts (header m) \<le> num_required_signatures (header m)"
    and "unat (num_readonly_unsigned_accounts (header m)) \<le> length (account_keys m)"
  using assms by (auto simp: sanitize_def Let_def not_le not_less split: if_splits)

lemmas sanitized_is_writable = header_is_writable [OF sanitized_header]

lemma payer_first:
  obtains rest where "unique_metas (sorted_metas ixs (Some p)) = \<lparr>am_pubkey = p, am_is_signer = True, am_is_writable = True\<rparr> # rest"
proof -
  let ?p = "\<lparr>am_pubkey = p, am_is_signer = True, am_is_writable = True\<rparr>"
  have "\<exists>rest. fold push_meta ms (?p # xs) = ?p # rest" for ms xs
  proof (induction ms arbitrary: xs)
    case (Cons m ms)
    have "\<exists>ys. push_meta m (?p # xs) = ?p # ys" by auto
    with Cons show ?case by auto
  qed simp
  then obtain rest where "fold push_meta (sort_key meta_rank
         (concat (map ix_accounts ixs)
          @ map (\<lambda>p. \<lparr>am_pubkey = p, am_is_signer = False, am_is_writable = False\<rparr>) (get_program_ids ixs)))
       [?p] = ?p # rest"
    by blast
  then show thesis
    by (intro that) (simp add: unique_metas_def sorted_metas_def)
qed

lemma sanitize_instructions_Ok:
  "sanitize_instructions n cis = Ok () \<longleftrightarrow>
   (\<forall>ci\<in>set cis. unat (program_id_index ci) < n \<and> program_id_index ci \<noteq> 0
      \<and> (\<forall>ai\<in>set (ci_accounts ci). unat ai < n))"
  by (induction n cis rule: sanitize_instructions.induct) (auto simp: list_ex_iff not_less)

lemma filter_lengths:
  "length (filter P us) = length (filter (\<lambda>x. P x \<and> Q x) us) + length (filter (\<lambda>x. P x \<and> \<not> Q x) us)"
  by (induction us) auto

lemma list_all2_in_set: "list_all2 P xs ys \<Longrightarrow> y \<in> set ys \<Longrightarrow> \<exists>x\<in>set xs. P x y"
  by (induction rule: list_all2_induct) auto

lemma new_sanitized:
  assumes "new_with_blockhash ixs (Some p) blockhash = Ok m"
    and "length (unique_metas (sorted_metas ixs (Some p))) \<le> 255"
    and "p \<notin> ix_program_id ` set ixs"
  shows "sanitize m = Ok ()"
proof -
  let ?us = "unique_metas (sorted_metas ixs (Some p))"
  obtain cis where m: "m = \<lparr>header = \<lparr>num_required_signatures = of_nat (length (filter am_is_signer ?us)),
         num_readonly_signed_accounts = of_nat (length (filter (\<lambda>m. am_is_signer m \<and> \<not> am_is_writable m) ?us)),
         num_readonly_unsigned_accounts = of_nat (length (filter (\<lambda>m. \<not> am_is_signer m \<and> \<not> am_is_writable m) ?us))\<rparr>,
       account_keys = map am_pubkey ?us, recent_blockhash = blockhash, instructions = cis\<rparr>"
    and cis: "list_all2 (\<lambda>ix ci. compile_instruction ix (map am_pubkey ?us) = Ok ci) ixs cis"
    by (rule new_with_blockhash_D [OF assms(1)]) (use assms(2) in auto)
  obtain rest where rest: "?us = \<lparr>am_pubkey = p, am_is_signer = True, am_is_writable = True\<rparr> # rest"
    by (rule payer_first)
  have le: "length (filter P ?us) < 256" for P
    using assms(2) length_filter_le [of P ?us] by linarith
  have "length (filter am_is_signer ?us)
      > length (filter (\<lambda>m. am_is_signer m \<and> \<not> am_is_writable m) ?us)"
    using filter_lengths [of am_is_signer ?us am_is_writable] by (simp add: rest)
  moreover have "length (filter am_is_signer ?us)
      + length (filter (\<lambda>m. \<not> am_is_signer m \<and> \<not> am_is_writable m) ?us) \<le> length ?us"
    using filter_lengths [of "\<lambda>_. True" ?us am_is_signer]
      filter_lengths [of "\<lambda>m. \<not> am_is_signer m" ?us am_is_writable] by simp
  moreover have "sanitize_instructions (length ?us) cis = Ok ()"
    unfolding sanitize_instructions_Ok
  proof
    fix ci assume "ci \<in> set cis"
    then obtain ix where ix: "ix \<in> set ixs" "compile_instruction ix (map am_pubkey ?us) = Ok ci"
      using list_all2_in_set [OF cis] by auto
    have keys: "ix_program_id ix \<in> set (map am_pubkey ?us)" "am_pubkey ` set (ix_accounts ix) \<subseteq> set (map am_pubkey ?us)"
      using instruction_keys_occur [OF ix(1), where payer = "Some p"] by (auto simp: unique_metas_keys)
    obtain ci' where ci': "compile_instruction ix (map am_pubkey ?us) = Ok ci'"
        "unat (program_id_index ci') < length (map am_pubkey ?us)"
        "map am_pubkey ?us ! unat (program_id_index ci') = ix_program_id ix"
        "list_all2 (\<lambda>i m. unat i < length (map am_pubkey ?us) \<and> map am_pubkey ?us ! unat i = am_pubkey m)
           (ci_accounts ci') (ix_accounts ix)"
      by (rule compile_instruction_Ok [OF _ keys]) (use assms(2) in auto)
    have "program_id_index ci' \<noteq> 0"
      using ci'(3) assms(3) ix(1) by (auto simp: rest)
    moreover have "\<forall>ai\<in>set (ci_accounts ci'). unat ai < length ?us"
      using ci'(4) by (auto simp: list_all2_conv_all_nth in_set_conv_nth)
    ultimately show "unat (program_id_index ci) < length ?us \<and> program_id_index ci \<noteq> 0
        \<and> (\<forall>ai\<in>set (ci_accounts ci). unat ai < length ?us)"
      using ci'(1,2) ix(2) by simp
  qed
  ultimately show ?thesis
    using le by (simp add: sanitize_def m Let_def unat_of_nat word_le_nat_alt)
qed

section \<open>What a built message promises\<close>

lemma decompile_compiled:
  assumes "sanitize m = Ok ()" and "length (account_keys m) \<le> 256"
    and "compile_instruction ix (account_keys m) = Ok ci"
    and "ix_program_id ix \<in> set (account_keys m)" and "am_pubkey ` set (ix_accounts ix) \<subseteq> set (account_keys m)"
  shows "\<exists>ix'. decompile m ci = Ok ix' \<and> ix_program_id ix' = ix_program_id ix \<and> ix_data ix' = ix_data ix
     \<and> map am_pubkey (ix_accounts ix') = map am_pubkey (ix_accounts ix)"
proof -
  let ?keys = "account_keys m"
  obtain ci' where ci': "compile_instruction ix ?keys = Ok ci'" "ci_data ci' = ix_data ix"
      "unat (program_id_index ci') < length ?keys" "?keys ! unat (program_id_index ci') = ix_program_id ix"
      "list_all2 (\<lambda>i m. unat i < length ?keys \<and> ?keys ! unat i = am_pubkey m) (ci_accounts ci') (ix_accounts ix)"
    by (rule compile_instruction_Ok [OF assms(2,4,5)]) auto
  define f where "f = (\<lambda>account_index :: u8. let i = unat account_index in
                 and_then (message_is_writable m i) (\<lambda>w.
                 and_then (ok_or MissingAccount (get_account_key m i)) (\<lambda>key.
                 Ok \<lparr>am_pubkey = key, am_is_signer = message_is_signer m i, am_is_writable = w\<rparr>)))"
  have "list_all2 (\<lambda>i x. unat i < length ?keys \<and> ?keys ! unat i = am_pubkey x) is xs \<Longrightarrow>
      \<exists>ys. try_map f is = Ok ys \<and> map am_pubkey ys = map am_pubkey xs" for "is" :: "u8 list" and xs :: "account_meta list"
  proof (induction "is" xs rule: list_all2_induct)
    case (Cons i "is" x xs)
    have "length ?keys < 2 ^ 64"
      using assms(2) by simp
    then obtain w where "message_is_writable m (unat i) = Ok w"
      using sanitized_is_writable [OF assms(1,1), of "unat i"] Cons.hyps(1) by blast
    then have "\<exists>y. f i = Ok y \<and> am_pubkey y = am_pubkey x"
      using Cons.hyps(1) by (simp add: f_def Let_def get_account_key_def)
    with Cons.IH show ?case by auto
  qed simp
  from this [OF ci'(5)] obtain ys where "try_map f (ci_accounts ci') = Ok ys"
      "map am_pubkey ys = map am_pubkey (ix_accounts ix)"
    by blast
  then have "decompile m ci' = Ok \<lparr>ix_program_id = ix_program_id ix, ix_accounts = ys, ix_data = ix_data ix\<rparr>"
    using ci'(2-4) unfolding decompile_def f_def [symmetric] by (simp add: get_account_key_def)
  with ci'(1) assms(3) \<open>map am_pubkey ys = _\<close> show ?thesis by simp
qed

lemma blocks_writable:
  assumes "\<forall>m\<in>set u0. P m \<and> Q m" and "\<forall>m\<in>set u1. P m \<and> \<not> Q m"
    and "\<forall>m\<in>set u2. \<not> P m \<and> Q m" and "\<forall>m\<in>set u3. \<not> P m \<and> \<not> Q m"
    and "us = u0 @ u1 @ u2 @ u3" and "i < length us"
  shows "i < length (filter P us) - length (filter (\<lambda>m. P m \<and> \<not> Q m) us)
     \<or> i \<ge> length (filter P us) \<and> i < length us - length (filter (\<lambda>m. \<not> P m \<and> \<not> Q m) us)
     \<longleftrightarrow> Q (us ! i)"
proof -
  have filters: "filter P us = u0 @ u1" "filter (\<lambda>m. P m \<and> \<not> Q m) us = u1"
      "filter (\<lambda>m. \<not> P m \<and> \<not> Q m) us = u3"
    using assms(1-4) by (auto simp: assms(5) filter_empty_conv filter_id_conv)
  have "Q (us ! i) \<longleftrightarrow> i < length u0 \<or> length u0 + length u1 \<le> i \<and> i < length u0 + length u1 + length u2"
    using assms(1-4,6) by (auto simp: assms(5) nth_append split: if_splits)
  then show ?thesis
    by (simp only: filters) (auto simp: assms(5))
qed


lemma built_permissions:
  assumes "new_with_blockhash ixs payer blockhash = Ok m"
    and "length (unique_metas (sorted_metas ixs payer)) \<le> 255"
    and "get_account_key m i = Some k"
  shows "message_is_signer m i \<longleftrightarrow> (\<exists>x\<in>set (all_metas ixs payer). am_pubkey x = k \<and> am_is_signer x)"
    (is ?signer)
    and "consistent_flags (all_metas ixs payer) \<Longrightarrow> message_is_writable m i = Ok
      ((\<exists>x\<in>set (all_metas ixs payer). am_pubkey x = k \<and> am_is_writable x)
       \<and> \<not> is_sysvar_id k \<and> k \<notin> set BUILTIN_PROGRAMS_KEYS \<and> \<not> is_key_called_as_program m i)"
proof -
  let ?us = "unique_metas (sorted_metas ixs payer)" and ?ms = "all_metas ixs payer"
  have m: "account_keys m = map am_pubkey ?us"
      "num_required_signatures (header m) = of_nat (length (filter am_is_signer ?us))"
      "num_readonly_signed_accounts (header m)
       = of_nat (length (filter (\<lambda>m. am_is_signer m \<and> \<not> am_is_writable m) ?us))"
      "num_readonly_unsigned_accounts (header m)
       = of_nat (length (filter (\<lambda>m. \<not> am_is_signer m \<and> \<not> am_is_writable m) ?us))"
    by (rule new_with_blockhash_D [OF assms(1)]; use assms(2) in simp)+
  have i: "i < length ?us" "am_pubkey (?us ! i) = k"
    using assms(3) by (auto simp: get_account_key_def m(1) split: if_splits)
  have le: "length (filter P ?us) < 256" for P
    using assms(2) length_filter_le [of P ?us] by linarith
  show ?signer
    using message_signer [OF le i(1) m(2)] i(2) by simp
  assume "consistent_flags ?ms"
  then obtain u0 u1 u2 u3 where us: "?us = u0 @ u1 @ u2 @ u3"
      "\<forall>m\<in>set u0. am_is_signer m \<and> am_is_writable m" "\<forall>m\<in>set u1. am_is_signer m \<and> \<not> am_is_writable m"
      "\<forall>m\<in>set u2. \<not> am_is_signer m \<and> am_is_writable m" "\<forall>m\<in>set u3. \<not> am_is_signer m \<and> \<not> am_is_writable m"
    by (rule unique_metas_blocks)
  have "length (filter (\<lambda>m. am_is_signer m \<and> \<not> am_is_writable m) ?us) \<le> length (filter am_is_signer ?us)"
    using filter_lengths [of am_is_signer ?us am_is_writable] by simp
  then have header: "num_readonly_signed_accounts (header m) \<le> num_required_signatures (header m)"
      "unat (num_readonly_unsigned_accounts (header m)) \<le> length (account_keys m)"
    using le by (simp_all add: m word_le_nat_alt unat_of_nat)
  have "message_is_writable m i = Ok (am_is_writable (?us ! i) \<and> \<not> is_sysvar_id k
      \<and> k \<notin> set BUILTIN_PROGRAMS_KEYS \<and> \<not> is_key_called_as_program m i)"
    using header_is_writable [OF header, of i] assms(2) i le
      blocks_writable [OF us(2-5,1) i(1)]
    by (simp add: m unat_of_nat)
  moreover have "am_is_writable (?us ! i) \<longleftrightarrow> (\<exists>u\<in>set ?us. am_pubkey u = k \<and> am_is_writable u)"
  proof
    assume "\<exists>u\<in>set ?us. am_pubkey u = k \<and> am_is_writable u"
    then obtain u where "u \<in> set ?us" "am_pubkey u = k" "am_is_writable u" by blast
    moreover have "inj_on am_pubkey (set ?us)"
      using unique_metas_keys(1) [of ixs payer] by (simp add: distinct_map)
    ultimately show "am_is_writable (?us ! i)"
      using i nth_mem [OF i(1)] by (metis inj_onD)
  qed (use i nth_mem [OF i(1)] in blast)
  ultimately show "message_is_writable m i = Ok ((\<exists>x\<in>set ?ms. am_pubkey x = k \<and> am_is_writable x)
       \<and> \<not> is_sysvar_id k \<and> k \<notin> set BUILTIN_PROGRAMS_KEYS \<and> \<not> is_key_called_as_program m i)"
    by (simp add: unique_metas_writable sorted_metas_set)
qed

definition sample_ix :: instruction where
  "sample_ix = \<lparr>ix_program_id = 99, ix_accounts = [meta_new_readonly 3 False, meta_new 2 True], ix_data = [7]\<rparr>"

lemmas sample_simps = new_with_blockhash_def get_keys_def sorted_metas_def unique_metas_def sample_ix_def
      meta_new_def meta_new_readonly_def get_program_ids_def meta_rank_def compile_instructions_def
      compile_instruction_def position_u8_def new_with_compiled_instructions_def Let_def




text \<open>An instruction with a read-only signer 2, and a key 3 that is a read-only signer and, once more,
  a writable account.\<close>

definition mixed_flags_ix :: instruction where
  "mixed_flags_ix = \<lparr>ix_program_id = 99,
     ix_accounts = [meta_new_readonly 2 True, meta_new_readonly 3 True, meta_new 3 False], ix_data = []\<rparr>"


end
