(* ===== verification/Runtime_Properties.thy ===== *)
theory Runtime_Properties
  imports Runtime_Invoke Sdk_Message_Laws
begin

text \<open>
  The properties of the runtime's checks: what holds of the accounts of an instruction after it ran,
  the privileges of a cross-program invocation, and the metering of account growth.
\<close>

section \<open>Properties\<close>

lemma i64_saturating_sint_id [simp]: "i64_saturating (sint d) = d"
  using sint_ge [of d] sint_lt [of d] by (simp add: i64_saturating_def)

lemma consume_same_len:
  "consume_data_len cap n n m
   = (if cap \<and> sint (adm_remaining m) < 0 then Err MaxAccountsDataSizeExceeded else Ok m)"
  by (simp add: consume_data_len_def adm_consume_def adm_consume_unchecked_def
      i64_saturating_sint_id [of 0, simplified])

lemma adm_remaining_new: "sint (adm_remaining (adm_new 0)) = 128000000000"
  by (simp add: sint_u64 adm_remaining_exact adm_current_def saturating_add_signed_exact adm_new_def
      MAX_ACCOUNTS_DATA_LEN_def)


lemma verify_frame:
  assumes "verify ic msg ci program_indices = Ok ic'"
  shows "ic_store ic' = ic_store ic" and "invoke_stack ic' = invoke_stack ic"
  using assms by (auto simp: verify_def verify_finish_def ok_simps split: option.splits if_splits)

text \<open>A program that moves one lamport from its first account to its second.\<close>

definition move_one :: "store \<Rightarrow> keyed_account list \<Rightarrow> nat \<Rightarrow> u8 list \<Rightarrow> store ix_result" where
  "move_one s kas first d =
     and_then (index kas first) (\<lambda>a. and_then (index kas (Suc first)) (\<lambda>b.
     Ok (s(unsigned_key a := (s (unsigned_key a))\<lparr>lamports := lamports (s (unsigned_key a)) - 1\<rparr>,
           unsigned_key b := (s (unsigned_key b))\<lparr>lamports := lamports (s (unsigned_key b)) + 1\<rparr>))))"

definition sample_account :: "u64 \<Rightarrow> pubkey \<Rightarrow> account" where
  "sample_account l p = \<lparr>lamports = l, data = [], owner = p, executable = False, rent_epoch = 0\<rparr>"

definition sample_context :: invoke_context where
  "sample_context =
     \<lparr>invoke_stack = [], ic_rent = rent_default, pre_accounts = [], ic_accounts = [10, 11, 99],
      ic_store = (\<lambda>k. if k = 99 then sample_account 1 native_loader_id else sample_account 5 99),
      max_invoke_depth = 4, max_units = 200000, compute_meter = 200000, data_meter = adm_new 0,
      features = \<lparr>f_do_support_realloc = True, f_cap_accounts_data_len = True,
                  f_reject_empty_instruction = True, f_tx_wide_compute_cap = True\<rparr>,
      ic_timings = \<lparr>total_account_count = 0, total_data_size = 0, changed_account_count = 0,
                    data_size_changed = 0\<rparr>,
      return_data = (0, [])\<rparr>"

definition sample_message :: message where
  "sample_message =
     \<lparr>header = \<lparr>num_required_signatures = 1, num_readonly_signed_accounts = 0,
                num_readonly_unsigned_accounts = 1\<rparr>,
      account_keys = [10, 11, 99], recent_blockhash = 0,
      instructions = [\<lparr>program_id_index = 2, ci_accounts = [0, 1, 0], ci_data = []\<rparr>]\<rparr>"

lemma sample_run:
  assumes "map_of builtins 99 = Some (store_program move_one)"
  obtains ic' where "invoke_process_instruction builtins sample_context sample_message
      (hd (instructions sample_message)) [2] [] [] = Ok ic'"
    and "lamports (ic_store ic' 10) = 4" and "lamports (ic_store ic' 11) = 6"
proof -
  have w: "message_is_writable sample_message 0 = Ok True" "message_is_writable sample_message 1 = Ok True"
    by (simp_all add: message_is_writable_def sample_message_def is_key_called_as_program_def is_sysvar_id_def
        sysvar_ids_def BUILTIN_PROGRAMS_KEYS_def token_program_id_def system_program_id_def Let_def)
  let ?ci = "hd (instructions sample_message)"
  let ?kas = "[\<lparr>is_signer = False, is_writable = False, unsigned_key = 99\<rparr>,
     \<lparr>is_signer = True, is_writable = True, unsigned_key = 10\<rparr>,
     \<lparr>is_signer = False, is_writable = True, unsigned_key = 11\<rparr>,
     \<lparr>is_signer = True, is_writable = True, unsigned_key = 10\<rparr>]"
  let ?ic1 = "sample_context\<lparr>pre_accounts :=
     [pre_account_new 10 (sample_account 5 99), pre_account_new 11 (sample_account 5 99)],
     invoke_stack := [stack_frame_new 1 ?kas]\<rparr>"
  have ci: "?ci = \<lparr>program_id_index = 2, ci_accounts = [0, 1, 0], ci_data = []\<rparr>"
    by (simp add: sample_message_def)
  have push: "push sample_context sample_message ?ci [2] [] = Ok ?ic1"
    unfolding ci using w
    by (simp add: push_def sample_context_def index_def visit_each_account_def record_pre_account_def
        program_keyed_account_def instruction_keyed_account_def message_is_signer_def Let_def)
       (simp add: sample_message_def)
  have key: "get_account_key sample_message (unat (program_id_index ?ci)) = Some 99"
    by (simp add: get_account_key_def sample_message_def)
  let ?s = "(ic_store sample_context)(10 := sample_account 4 99, 11 := sample_account 6 99)"
  let ?ic2 = "?ic1\<lparr>return_data := (99, []), ic_store := ?s\<rparr>"
  have chain: "process_executable_chain builtins (?ic1\<lparr>return_data := (99, [])\<rparr>) (ci_data ?ci)
      = Ok ?ic2"
    using assms by (simp add: process_executable_chain_def get_keyed_accounts_def stack_frame_new_def keyed_account_at_index_def
        ka_owner_def sample_context_def sample_account_def store_program_def move_one_def index_def Let_def)
  have "\<exists>ic3. verify ?ic2 sample_message ?ci [2] = Ok ic3"
    using w adm_remaining_new key
    by (simp add: verify_def ci sample_context_def index_def visit_each_account_def verify_work_def verify_start_def
        verify_finish_def pre_account_verify_def pre_account_new_def check_data_len_def
        sample_account_def add_sums_def checked_add_def consume_same_len MAX_PERMITTED_DATA_LENGTH_def Let_def)
  then obtain ic3 where ver: "verify ?ic2 sample_message ?ci [2] = Ok ic3" ..
  note ic3 = verify_frame [OF ver]
  show thesis
  proof (rule that)
    show "invoke_process_instruction builtins sample_context sample_message ?ci [2] [] []
        = Ok (pop ic3)"
      using push key chain ver by (simp add: invoke_process_instruction_def Let_def) (simp add: sample_context_def)
    show "lamports (ic_store (pop ic3) 10) = 4" "lamports (ic_store (pop ic3) 11) = 6"
      by (simp_all add: pop_def ic3 sample_account_def)
  qed
qed


section \<open>Metering of growth in cross-program invocations\<close>

lemma verify_matching_meter:
  assumes "verify_matching ic program_id key True before pas st = Ok st'"
    and "\<forall>pa\<in>set pas. \<not> executable (pa_account pa)" and "\<not> executable (ic_store ic key)"
  shows "vs_meter st' = vs_meter st
    \<and> (\<forall>pa\<in>set (vs_pre_accounts st'). pa \<in> set before \<or> \<not> executable (pa_account pa))"
  using assms
proof (induction ic program_id key True "before" pas st rule: verify_matching.induct)
  case (2 ic program_id key "before" pa pas st)
  show ?case
  proof (cases "key = pa_key pa")
    case True
    with 2(2-4) show ?thesis
      by (auto simp: ok_simps Let_def add_sums_Ok consume_same_len pre_account_update_def split: if_splits)
  next
    case False
    with 2 show ?thesis by auto
  qed
qed simp

lemma run_verify_and_update_meter:
  assumes "run_work (verify_and_update_work ic program_id account_indices privileges) n is st = Ok st'"
    and "\<forall>w\<in>set privileges. w" and "\<forall>k. \<not> executable (ic_store ic k)"
    and "\<forall>pa\<in>set (vs_pre_accounts st). \<not> executable (pa_account pa)"
  shows "vs_meter st' = vs_meter st"
  using assms
proof (induction "verify_and_update_work ic program_id account_indices privileges" n "is" st rule: run_work.induct)
  case (2 n i "is" st)
  then obtain st1 where st1: "verify_and_update_work ic program_id account_indices privileges n i st = Ok st1"
      "run_work (verify_and_update_work ic program_id account_indices privileges) (Suc n) is st1 = Ok st'"
    by (auto simp: ok_simps)
  then obtain key where "verify_matching ic program_id key (privileges ! i) [] (vs_pre_accounts st) st = Ok st1"
      "i < length privileges"
    by (auto simp: verify_and_update_work_def ok_simps split: if_splits)
  moreover from this(2) 2(3) have "privileges ! i = True" by (metis nth_mem)
  ultimately have "vs_meter st1 = vs_meter st" "\<forall>pa\<in>set (vs_pre_accounts st1). \<not> executable (pa_account pa)"
    using verify_matching_meter [of ic program_id key "[]" "vs_pre_accounts st" st st1] 2(4,5) by auto
  with 2(1) [OF st1(2) 2(3,4)] show ?case by simp
qed simp


text \<open>An account that its program has grown from nothing to eight bytes.\<close>

definition grown_context :: invoke_context where
  "grown_context = sample_context
     \<lparr>invoke_stack := [stack_frame_new 1 [\<lparr>is_signer = False, is_writable = False, unsigned_key = 99\<rparr>]],
      pre_accounts := [pre_account_new 10 (sample_account 5 99)],
      ic_store := (\<lambda>k. (sample_account 5 99)\<lparr>data := replicate 8 0\<rparr>)\<rparr>"


section \<open>Privileges in cross-program invocations\<close>

lemma find_SomeD: "find P xs = Some x \<Longrightarrow> x \<in> set xs \<and> P x"
  by (auto simp: find_Some_iff)

lemma create_message_Ok:
  assumes "create_message ic ix signers = Ok (msg, privileges, program_indices)"
  obtains caller callee where "message_new [ix] None = Ok msg"
    and "get_instruction_keyed_accounts ic = Ok caller"
    and "list_all2 (\<lambda>key ka. find (\<lambda>ka. unsigned_key ka = key) caller = Some ka) (account_keys msg) callee"
    and "\<forall>m\<in>set (ix_accounts ix). check_privileges callee signers m = Ok ()"
proof -
  from assms obtain msg' caller callee us pai where c': "message_new [ix] None = Ok msg'"
      "get_instruction_keyed_accounts ic = Ok caller"
      "try_map (\<lambda>key. ok_or MissingAccount (find (\<lambda>ka. unsigned_key ka = key) caller)) (account_keys msg') = Ok callee"
      "try_map (check_privileges callee signers) (ix_accounts ix) = Ok us"
      "(Ok (msg', map is_writable callee, [pai]) :: (message \<times> bool list \<times> nat list) ix_result)
       = Ok (msg, privileges, program_indices)"
    unfolding create_message_def Let_def by (elim ok_elims) blast
  then have "msg' = msg" by simp
  note c = c' [unfolded this]
  have "list_all2 (\<lambda>m u. check_privileges callee signers m = Ok u) (ix_accounts ix) us"
    using c(4) by (simp only: try_map_Ok_iff)
  then have "\<forall>m\<in>set (ix_accounts ix). check_privileges callee signers m = Ok ()"
    by (induction rule: list_all2_induct) auto
  moreover have "list_all2 (\<lambda>key ka. find (\<lambda>ka. unsigned_key ka = key) caller = Some ka) (account_keys msg) callee"
    using c(3) by (simp only: try_map_Ok_iff ok_or_Ok_iff)
  ultimately show thesis
    using that [OF c(1,2)] by blast
qed


text \<open>A caller that holds key 2 read-only and key 3 writable, both signed, and invokes program 99.\<close>

definition caller_context :: invoke_context where
  "caller_context = sample_context
     \<lparr>ic_accounts := [2, 3, 99], ic_store := (\<lambda>k. (sample_account 5 k)\<lparr>executable := True\<rparr>),
      invoke_stack := [stack_frame_new 0
        [\<lparr>is_signer = True, is_writable = False, unsigned_key = 2\<rparr>,
         \<lparr>is_signer = True, is_writable = True, unsigned_key = 3\<rparr>,
         \<lparr>is_signer = False, is_writable = False, unsigned_key = 99\<rparr>]]\<rparr>"

lemmas cpi_simps = create_message_def message_new_def caller_context_def sample_context_def
  get_instruction_keyed_accounts_def stack_frame_new_def check_privileges_def signer_key_def
  get_account_def meta_new_def meta_new_readonly_def new_with_blockhash_def get_keys_def
  sorted_metas_def unique_metas_def get_program_ids_def meta_rank_def compile_instructions_def
  compile_instruction_def position_u8_def new_with_compiled_instructions_def Let_def

definition plain_ix :: instruction where
  "plain_ix = \<lparr>ix_program_id = 99, ix_accounts = [meta_new_readonly 2 True, meta_new 3 False], ix_data = []\<rparr>"



end
