(* ===== verification/Token_Runtime.thy ===== *)
theory Token_Runtime
  imports Token_Refinement Token_Layout Runtime_Properties
begin

text \<open>
  The token program under the runtime. A transaction instruction that the runtime accepts changes the
  ledger by one step of the specification, whether it is addressed to the token program or to
  another; so the ledger's invariant holds in every store that is reached.
\<close>

section \<open>Instructions under the runtime\<close>

text \<open>The keys of an instruction's accounts, and a top-level call of a builtin program.\<close>

definition instruction_keys_of :: "invoke_context \<Rightarrow> compiled_instruction \<Rightarrow> pubkey set" where
  "instruction_keys_of ic ci = (\<lambda>i. ic_accounts ic ! unat i) ` set (ci_accounts ci)"

definition builtin_call ::
  "(pubkey \<times> (store \<Rightarrow> keyed_account list \<Rightarrow> nat \<Rightarrow> u8 list \<Rightarrow> store ix_result)) list
   \<Rightarrow> invoke_context \<Rightarrow> message \<Rightarrow> compiled_instruction \<Rightarrow> nat \<Rightarrow> pubkey \<Rightarrow> invoke_context \<Rightarrow> bool" where
  "builtin_call progs ic msg ci p program_id ic' \<longleftrightarrow>
     invoke_process_instruction (map (map_prod id store_program) progs) ic msg ci [p] [] [] = Ok ic'
     \<and> invoke_stack ic = []
     \<and> get_account_key msg (unat (program_id_index ci)) = Some program_id
     \<and> p < length (ic_accounts ic) \<and> ic_accounts ic ! p = program_id
     \<and> owner (ic_store ic program_id) = native_loader_id"

lemma instruction_keyed_accounts_keys:
  assumes "try_map (instruction_keyed_account msg keys []) is = Ok kas"
  shows "unsigned_key ` set kas = (\<lambda>i. keys ! unat i) ` set is"
proof -
  have "list_all2 (\<lambda>i ka. unsigned_key ka = keys ! unat i) is kas"
    using assms unfolding try_map_Ok_iff
    by (rule list.rel_mono_strong) (auto simp: instruction_keyed_account_def index_def ok_simps Let_def split: if_splits)
  then show ?thesis
    by (induction rule: list_all2_induct) auto
qed

lemma builtin_call_Ok:
  assumes "builtin_call progs ic msg ci p program_id ic'"
  obtains ikas f where "map_of progs program_id = Some f"
    and "f (ic_store ic) (\<lparr>is_signer = False, is_writable = False, unsigned_key = program_id\<rparr> # ikas) 1 (ci_data ci)
         = Ok (ic_store ic')"
    and "unsigned_key ` set ikas = instruction_keys_of ic ci"
    and "\<And>k. k \<in> instruction_keys_of ic ci \<Longrightarrow> \<exists>w. account_rules program_id w (ic_store ic k) (ic_store ic' k)"
proof -
  note c = assms [unfolded builtin_call_def]
  have run: "invoke_process_instruction (map (map_prod id store_program) progs) ic msg ci [p] [] [] = Ok ic'"
      and st: "invoke_stack ic = []"
    using c by simp_all
  show thesis
  proof (rule top_level_Ok [OF run st refl])
    fix pid pkas ikas f s first key
    assume pid: "get_account_key msg (unat (program_id_index ci)) = Some pid"
      and pkas: "try_map (program_keyed_account (ic_accounts ic)) [p] = Ok pkas"
      and ikas: "try_map (instruction_keyed_account msg (ic_accounts ic) []) (ci_accounts ci) = Ok ikas"
      and f: "map_of progs key = Some f" "f (ic_store ic) (pkas @ ikas) first (ci_data ci) = Ok s"
      and root: "let owner_id = owner (ic_store ic (unsigned_key (hd (pkas @ ikas)))) in
         if owner_id = native_loader_id then key = unsigned_key (hd (pkas @ ikas)) \<and> first = 1
         else key = owner_id \<and> first = 0"
      and s: "ic_store ic' = s"
      and rules: "\<And>i. i \<in> set (unique_accounts ci) \<Longrightarrow> i < length (ic_accounts ic) \<and>
           (\<exists>w. message_is_writable msg i = Ok w
             \<and> account_rules pid w (ic_store ic (ic_accounts ic ! i)) (s (ic_accounts ic ! i)))"
    have "pid = program_id" "pkas = [\<lparr>is_signer = False, is_writable = False, unsigned_key = program_id\<rparr>]"
      using c pid pkas by (auto simp: program_keyed_account_def index_def)
    moreover from this have "key = program_id" "first = 1"
      using root c by (simp_all add: Let_def)
    moreover have "\<exists>w. account_rules pid w (ic_store ic k) (s k)" if "k \<in> instruction_keys_of ic ci" for k
    proof -
      from that obtain i where "i \<in> set (ci_accounts ci)" and k: "k = ic_accounts ic ! unat i"
        unfolding instruction_keys_of_def by blast
      then have "unat i \<in> set (unique_accounts ci)" by simp
      with rules [of "unat i"] show ?thesis unfolding k by blast
    qed
    ultimately show thesis
      using f s instruction_keyed_accounts_keys [OF ikas]
      by (intro that [of f ikas]) (auto simp: instruction_keys_of_def)
  qed
qed

text \<open>A call of the token program: the accounts of other programs are kept, so it is a step.\<close>

lemma token_call_step:
  assumes "builtin_call progs ic msg ci p token_program_id ic'"
    and "map_of progs token_program_id = Some (process_instruction limited_deserialize)"
  shows "ledger_step (ledger_of (ic_store ic)) (ledger_of (ic_store ic'))"
  using assms(1)
proof (rule builtin_call_Ok)
  fix ikas f
  assume "map_of progs token_program_id = Some f"
    and run: "f (ic_store ic) (\<lparr>is_signer = False, is_writable = False, unsigned_key = token_program_id\<rparr> # ikas) 1
           (ci_data ci) = Ok (ic_store ic')"
    and keys: "unsigned_key ` set ikas = instruction_keys_of ic ci"
    and rules: "\<And>k. k \<in> instruction_keys_of ic ci \<Longrightarrow>
           \<exists>w. account_rules token_program_id w (ic_store ic k) (ic_store ic' k)"
  with assms(2) have "f = process_instruction limited_deserialize" by simp
  with run obtain ix where ix: "process_token_instruction token_program_id (ic_store ic) ikas ix = Ok (ic_store ic')"
    by (auto simp: process_instruction_def keyed_account_at_index_def ok_simps)
  have "external_kept (ic_store ic) (ic_store ic')"
    unfolding external_kept_def
  proof (intro allI impI)
    fix k assume o: "owner (ic_store ic k) \<noteq> token_program_id"
    show "data (ic_store ic' k) = data (ic_store ic k) \<and> owner (ic_store ic' k) = owner (ic_store ic k)
        \<and> lamports (ic_store ic k) \<le> lamports (ic_store ic' k)"
    proof (cases "k \<in> instruction_keys_of ic ci")
      case True
      with rules o show ?thesis by (fastforce simp: account_rules_def)
    next
      case False
      then show ?thesis using token_instruction_frame [OF ix, of k] keys by simp
    qed
  qed
  then show ?thesis by (rule token_instruction_step [OF ix])
qed

text \<open>A call of another program that changes no account but those it is given.\<close>

definition confined :: "(store \<Rightarrow> keyed_account list \<Rightarrow> nat \<Rightarrow> u8 list \<Rightarrow> store ix_result) \<Rightarrow> bool" where
  "confined f \<longleftrightarrow>
     (\<forall>s kas first d s' k. f s kas first d = Ok s' \<longrightarrow> k \<notin> unsigned_key ` set (drop first kas) \<longrightarrow> s' k = s k)"

lemma unpack_zeroed_mint:
  assumes "unpack_unchecked Mint (replicate n 0) = Ok m"
  shows "\<not> m_is_initialized m" and "m_supply m = 0"
proof -
  have n: "n = 124" using unpack_unchecked_length [OF assms] by simp
  have z: "slice_at i k (replicate 124 0) = replicate k (0::u8)" if "i + k \<le> 124" for i k
    using that by (simp add: slice_at_def)
  have "from_le_bytes (replicate 8 0) = (0::u64)"
    by (simp add: from_le_bytes_def numeral_eq_Suc)
  then show "\<not> m_is_initialized m" "m_supply m = 0"
    using assms z
    by (auto simp: n unpack_unchecked_def Mint_def mint_unpack_from_slice_def unpack_bool_def ok_simps)
qed

lemma zeroed_views:
  assumes "\<forall>b\<in>set (data (s k)). b = 0"
  shows "ta_view s k = None" and "mint_view s k = Some m \<Longrightarrow> \<not> m_is_initialized m \<and> m_supply m = 0"
proof -
  have d: "data (s k) = replicate (length (data (s k))) 0"
    using assms by (simp add: replicate_length_same)
  show "ta_view s k = None"
  proof (cases "length (data (s k)) = 165")
    case True
    with d have "data (s k) = replicate 165 0" by simp
    then show ?thesis by (simp add: ta_view_def unpack_zeroed)
  qed (rule ta_view_wrong_length)
  show "\<not> m_is_initialized m \<and> m_supply m = 0" if "mint_view s k = Some m"
    using that d unpack_zeroed_mint unfolding mint_view_Some by metis
qed

lemma other_call_step:
  assumes "builtin_call progs ic msg ci p program_id ic'" and "program_id \<noteq> token_program_id"
    and "\<And>f. map_of progs program_id = Some f \<Longrightarrow> confined f"
  shows "ledger_step (ledger_of (ic_store ic)) (ledger_of (ic_store ic'))"
  using assms(1)
proof (rule builtin_call_Ok)
  fix ikas f
  assume f: "map_of progs program_id = Some f"
    and run: "f (ic_store ic) (\<lparr>is_signer = False, is_writable = False, unsigned_key = program_id\<rparr> # ikas) 1
           (ci_data ci) = Ok (ic_store ic')"
    and keys: "unsigned_key ` set ikas = instruction_keys_of ic ci"
    and rules: "\<And>k. k \<in> instruction_keys_of ic ci \<Longrightarrow> \<exists>w. account_rules program_id w (ic_store ic k) (ic_store ic' k)"
  let ?s = "ic_store ic" and ?s' = "ic_store ic'"
  have frame: "?s' k = ?s k" if "k \<notin> instruction_keys_of ic ci" for k
    using assms(3) [OF f] run that keys unfolding confined_def by (metis drop0 drop_Suc_Cons One_nat_def)
  have held: "data (?s' k) = data (?s k) \<and> owner (?s' k) = owner (?s k) \<and> lamports (?s k) \<le> lamports (?s' k)"
    if "owner (?s k) = token_program_id" for k
    using frame [of k] rules [of k] that assms(2) by (cases "k \<in> instruction_keys_of ic ci") (auto simp: account_rules_def)
  have fresh: "owner (?s' k) = token_program_id \<Longrightarrow> \<forall>b\<in>set (data (?s' k)). b = 0"
    if "owner (?s k) \<noteq> token_program_id" for k
    using frame [of k] rules [of k] that by (cases "k \<in> instruction_keys_of ic ci") (auto simp: account_rules_def)
  have views: "ta_view ?s' k = ta_view ?s k" "mint_view ?s' k = mint_view ?s k" if "owner (?s k) = token_program_id" for k
    using held [OF that] by (simp_all add: ta_view_def mint_view_def)
  show ?thesis
  proof (rule ledger_step.Outside)
    show "accts (ledger_of ?s') = accts (ledger_of ?s)"
      using held views fresh zeroed_views(1) by (fastforce simp: fun_eq_iff)
    show "funds (ledger_of ?s) k \<le> funds (ledger_of ?s') k" if "accts (ledger_of ?s) k \<noteq> None" for k
      using that held [of k] by (auto simp: word_le_nat_alt split: if_splits)
    show "mints (ledger_of ?s') k = mints (ledger_of ?s) k
       \<or> (mints (ledger_of ?s) k = None \<or> (\<exists>m. mints (ledger_of ?s) k = Some m \<and> \<not> m_is_initialized m))
         \<and> (mints (ledger_of ?s') k = None
            \<or> (\<exists>m. mints (ledger_of ?s') k = Some m \<and> \<not> m_is_initialized m \<and> m_supply m = 0))" for k
    proof (cases "owner (?s k) = token_program_id")
      case True
      with held [OF True] views [OF True] show ?thesis by simp
    next
      case False
      with fresh [OF False] zeroed_views(2) [of ?s' k] show ?thesis
        by (cases "mint_view ?s' k") auto
    qed
  qed
qed

section \<open>Chains of instructions\<close>

inductive chain_step ::
  "(pubkey \<times> (store \<Rightarrow> keyed_account list \<Rightarrow> nat \<Rightarrow> u8 list \<Rightarrow> store ix_result)) list \<Rightarrow> store \<Rightarrow> store \<Rightarrow> bool"
  for progs where
  call: "builtin_call progs ic msg ci p program_id ic' \<Longrightarrow> chain_step progs (ic_store ic) (ic_store ic')"

inductive_cases chain_stepE: "chain_step progs s s'"

definition token_chain ::
  "(u8 list \<Rightarrow> token_instruction option)
   \<Rightarrow> (pubkey \<times> (store \<Rightarrow> keyed_account list \<Rightarrow> nat \<Rightarrow> u8 list \<Rightarrow> store ix_result)) list \<Rightarrow> bool" where
  "token_chain deser progs \<longleftrightarrow> map_of progs token_program_id = Some (process_instruction deser)
     \<and> (\<forall>k f. map_of progs k = Some f \<longrightarrow> k \<noteq> token_program_id \<longrightarrow> confined f)"

lemma chain_step_refines:
  assumes "chain_step progs s s'" and "token_chain deser progs"
  shows "ledger_step (ledger_of s) (ledger_of s')"
  using assms(1)
proof (rule chain_stepE)
  fix ic msg ci p program_id ic'
  assume s: "s = ic_store ic" "s' = ic_store ic'" and call: "builtin_call progs ic msg ci p program_id ic'"
  show ?thesis
  proof (cases "program_id = token_program_id")
    case True
    with call assms(2) show ?thesis unfolding s token_chain_def by (blast intro: token_call_step)
  next
    case False
    with call assms(2) show ?thesis unfolding s token_chain_def by (blast intro: other_call_step)
  qed
qed

lemma chain_reach:
  assumes "(chain_step progs)\<^sup>*\<^sup>* s s'" and "token_chain deser progs"
  shows "ledger_reach (ledger_of s) (ledger_of s')"
  using assms(1)
  by (induction rule: rtranclp_induct) (auto intro: ledger_reach.intros chain_step_refines [OF _ assms(2)])

text \<open>A store in which the token program has no account has the invariant.\<close>

lemma no_tokens_inv: "(\<And>k. owner (s k) \<noteq> token_program_id) \<Longrightarrow> ledger_inv (ledger_of s)"
  by (intro ledger_invI) simp_all

section \<open>Properties\<close>

text \<open>C2: Every top-level call of the token program that the runtime accepts is a step of the abstract
  ledger, whatever the instruction and its accounts are.\<close>

theorem token_program_refines:
  assumes "builtin_call progs ic msg ci p token_program_id ic'"
    and "map_of progs token_program_id = Some (process_instruction limited_deserialize)"
  shows "ledger_step (ledger_of (ic_store ic)) (ledger_of (ic_store ic'))"
  using assms by (rule token_call_step)

text \<open>A wrapped account of three lamports above its reserve that has not been synchronized.\<close>

definition wrapped :: "u64 \<Rightarrow> token_account" where
  "wrapped n = \<lparr>ta_mint = native_mint_id, ta_owner = 11, ta_amount = n, ta_delegate = None, ta_state = Initialized,
     ta_is_native = Some 2, ta_delegated_amount = 0, ta_close_authority = None\<rparr>"

definition wrapped_data :: "u64 \<Rightarrow> u8 list" where
  "wrapped_data n = (case ta_pack_into_slice (wrapped n) (replicate 165 0) of Ok d \<Rightarrow> d | _ \<Rightarrow> [])"

definition wrapped_context :: invoke_context where
  "wrapped_context = sample_context
     \<lparr>ic_accounts := [10, token_program_id],
      ic_store := (\<lambda>k. if k = token_program_id then sample_account 1 native_loader_id
        else if k = 10 then (sample_account 5 token_program_id)\<lparr>data := wrapped_data 0\<rparr>
        else sample_account 0 0)\<rparr>"

definition sync_message :: message where
  "sync_message =
     \<lparr>header = \<lparr>num_required_signatures = 1, num_readonly_signed_accounts = 0,
                num_readonly_unsigned_accounts = 1\<rparr>,
      account_keys = [10, token_program_id], recent_blockhash = 0,
      instructions = [\<lparr>program_id_index = 1, ci_accounts = [0], ci_data = []\<rparr>]\<rparr>"

lemma unpack_wrapped: "unpack TokenAccount (wrapped_data n) = Ok (wrapped n)"
proof (rule ta_format.unpack_after_pack)
  show "pack TokenAccount (wrapped n) (replicate 165 0) = Ok (wrapped_data n)"
    by (simp add: pack_def wrapped_data_def TokenAccount_def ta_pack_into_slice_def)
  show "pk_is_initialized TokenAccount (wrapped n)"
    by (simp add: ta_is_initialized_def wrapped_def)
qed

lemma length_wrapped_data [simp]: "length (wrapped_data n) = 165"
  using unpack_length [OF unpack_wrapped] by simp

abbreviation sync_program :: "store \<Rightarrow> keyed_account list \<Rightarrow> nat \<Rightarrow> u8 list \<Rightarrow> store ix_result" where
  "sync_program \<equiv> process_instruction (\<lambda>_. Some SyncNative)"

lemma sync_native_wrapped:
  fixes ka :: keyed_account
  assumes "data (s (unsigned_key ka)) = wrapped_data 0" and "owner (s (unsigned_key ka)) = p"
    and "lamports (s (unsigned_key ka)) = 5"
  obtains d where "process_sync_native p s [ka] = Ok (s(unsigned_key ka := (s (unsigned_key ka))\<lparr>data := d\<rparr>))"
    and "length d = 165" and "unpack TokenAccount d = Ok (wrapped 3)"
proof -
  obtain d where d: "pack TokenAccount (wrapped 3) (wrapped_data 0) = Ok d"
    by (simp add: pack_def TokenAccount_def ta_pack_into_slice_def)
  have "wrapped 0\<lparr>ta_amount := 3\<rparr> = wrapped 3" by (simp add: wrapped_def)
  then have "process_sync_native p s [ka] = Ok (s(unsigned_key ka := (s (unsigned_key ka))\<lparr>data := d\<rparr>))"
    using assms unpack_wrapped [of 0] d
    by (simp add: process_sync_native_def check_account_owner_def ka_owner_def unpack_ka_def wrapped_def)
       (simp add: ka_lamports_def checked_sub_def pack_ka_def store_simps)
  moreover have "unpack TokenAccount d = Ok (wrapped 3)"
    using ta_format.unpack_after_pack [OF d] by (simp add: ta_is_initialized_def wrapped_def)
  ultimately show thesis using that ta_format.length_after_pack [OF d] by simp
qed

text \<open>The runtime accepts a call of the token program that synchronizes the account.\<close>

lemma wrapped_context_sel [simp]:
  "invoke_stack wrapped_context = []" "ic_accounts wrapped_context = [10, token_program_id]"
  "pre_accounts wrapped_context = []" "ic_store wrapped_context token_program_id = sample_account 1 native_loader_id"
  "ic_store wrapped_context 10 = (sample_account 5 token_program_id)\<lparr>data := wrapped_data 0\<rparr>"
  by (simp_all add: wrapped_context_def sample_context_def token_program_id_def)

lemma sync_run:
  obtains ic' where "builtin_call [(token_program_id, sync_program)] wrapped_context sync_message
      (hd (instructions sync_message)) 1 token_program_id ic'"
    and "ta_view (ic_store ic') 10 = Some (wrapped 3)"
proof -
  have w: "message_is_writable sync_message 0 = Ok True"
    by (simp add: message_is_writable_def sync_message_def is_key_called_as_program_def is_sysvar_id_def
        sysvar_ids_def BUILTIN_PROGRAMS_KEYS_def token_program_id_def system_program_id_def Let_def)
  let ?ci = "hd (instructions sync_message)"
  let ?ka = "\<lparr>is_signer = True, is_writable = True, unsigned_key = 10\<rparr>"
  let ?kas = "[\<lparr>is_signer = False, is_writable = False, unsigned_key = token_program_id\<rparr>, ?ka]"
  let ?ic1 = "wrapped_context\<lparr>pre_accounts := [pre_account_new 10 (ic_store wrapped_context 10)],
     invoke_stack := [stack_frame_new 1 ?kas]\<rparr>"
  have ci: "?ci = \<lparr>program_id_index = 1, ci_accounts = [0], ci_data = []\<rparr>"
    by (simp add: sync_message_def)
  have push: "push wrapped_context sync_message ?ci [1] [] = Ok ?ic1"
    unfolding ci using w
    by (simp add: push_def index_def visit_each_account_def record_pre_account_def
        program_keyed_account_def instruction_keyed_account_def message_is_signer_def Let_def)
       (simp add: sync_message_def wrapped_context_def sample_context_def)
  have key: "get_account_key sync_message (unat (program_id_index ?ci)) = Some token_program_id"
    by (simp add: get_account_key_def sync_message_def)
  have pre: "data (ic_store wrapped_context 10) = wrapped_data 0" "owner (ic_store wrapped_context 10) = token_program_id"
      "lamports (ic_store wrapped_context 10) = 5"
    by (simp_all add: sample_account_def)
  obtain d where d: "process_sync_native token_program_id (ic_store wrapped_context) [?ka]
      = Ok ((ic_store wrapped_context)(10 := (ic_store wrapped_context 10)\<lparr>data := d\<rparr>))"
      "length d = 165" "unpack TokenAccount d = Ok (wrapped 3)"
    by (rule sync_native_wrapped [where ka = ?ka and s = "ic_store wrapped_context"]) (use pre in simp_all)
  let ?s = "(ic_store wrapped_context)(10 := (ic_store wrapped_context 10)\<lparr>data := d\<rparr>)"
  let ?ic2 = "?ic1\<lparr>return_data := (token_program_id, []), ic_store := ?s\<rparr>"
  have chain: "process_executable_chain [(token_program_id, store_program sync_program)]
      (?ic1\<lparr>return_data := (token_program_id, [])\<rparr>) (ci_data ?ci) = Ok ?ic2"
    using d(1) by (simp add: process_executable_chain_def get_keyed_accounts_def stack_frame_new_def
        keyed_account_at_index_def ka_owner_def sample_account_def store_program_def process_instruction_def Let_def)
  have "\<exists>ic3. verify ?ic2 sync_message ?ci [1] = Ok ic3"
    using w adm_remaining_new key d(2)
    by (simp add: verify_def ci index_def visit_each_account_def verify_work_def verify_start_def
        verify_finish_def pre_account_verify_def pre_account_new_def check_data_len_def
        sample_account_def add_sums_def checked_add_def consume_same_len MAX_PERMITTED_DATA_LENGTH_def Let_def)
       (simp add: wrapped_context_def sample_context_def)
  then obtain ic3 where ver: "verify ?ic2 sync_message ?ci [1] = Ok ic3" ..
  note ic3 = verify_frame [OF ver]
  show thesis
  proof (rule that)
    show "builtin_call [(token_program_id, sync_program)] wrapped_context sync_message ?ci 1 token_program_id (pop ic3)"
      using push key chain ver by (simp add: builtin_call_def invoke_process_instruction_def Let_def sample_account_def)
    show "ta_view (ic_store (pop ic3)) 10 = Some (wrapped 3)"
      using d(3) by (simp add: pop_def ic3 ta_view_Some)
  qed
qed

theorem token_program_refines_witness:
  "\<exists>ic'. builtin_call [(token_program_id, sync_program)] wrapped_context sync_message
      (hd (instructions sync_message)) 1 token_program_id ic'
    \<and> ta_view (ic_store ic') 10 = Some (wrapped 3)
    \<and> ledger_step (ledger_of (ic_store wrapped_context)) (ledger_of (ic_store ic'))"
proof -
  obtain ic' where run: "builtin_call [(token_program_id, sync_program)] wrapped_context sync_message
      (hd (instructions sync_message)) 1 token_program_id ic'" "ta_view (ic_store ic') 10 = Some (wrapped 3)"
    by (rule sync_run)
  then show ?thesis
    using token_program_refines [OF run(1), of "\<lambda>_. Some SyncNative"] by (intro exI [of _ ic']) simp
qed


lemma move_one_confined: "confined move_one"
  unfolding confined_def
proof (intro allI impI)
  fix s kas first d s' k
  assume run: "move_one s kas first d = Ok s'" and k: "k \<notin> unsigned_key ` set (drop first kas)"
  then have i: "Suc first < length kas"
    and s': "s' = s(unsigned_key (kas ! first) := (s (unsigned_key (kas ! first)))\<lparr>lamports := lamports (s (unsigned_key (kas ! first))) - 1\<rparr>,
           unsigned_key (kas ! Suc first) := (s (unsigned_key (kas ! Suc first)))\<lparr>lamports := lamports (s (unsigned_key (kas ! Suc first))) + 1\<rparr>)"
    by (auto simp: move_one_def index_def ok_simps split: if_splits)
  then have "drop first kas = kas ! first # kas ! Suc first # drop (Suc (Suc first)) kas"
    by (simp add: Cons_nth_drop_Suc)
  with k have "k \<noteq> unsigned_key (kas ! first)" "k \<noteq> unsigned_key (kas ! Suc first)" by simp_all
  then show "s' k = s k" by (simp add: s')
qed

definition sample_progs :: "(pubkey \<times> (store \<Rightarrow> keyed_account list \<Rightarrow> nat \<Rightarrow> u8 list \<Rightarrow> store ix_result)) list" where
  "sample_progs = [(token_program_id, sync_program), (99, move_one)]"

lemma sample_chain: "token_chain (\<lambda>_. Some SyncNative) sample_progs"
  by (auto simp: token_chain_def sample_progs_def move_one_confined split: if_splits)


end
