(* ===== verification/Rust_BTreeMap.thy ===== *)
theory Rust_BTreeMap
  imports Mundis_Prelude
begin

text \<open>
  The ordered maps of Rust's standard library (\<open>BTreeMap\<close>) as far as the code uses them, on lists of
  entries in ascending order of their keys. The locale \<open>ordered_map\<close> states the laws that clients rely
  on: what a lookup returns after an insertion or a restriction, and what the greatest entry is.
\<close>

type_synonym ('k, 'v) btree = "('k \<times> 'v) list"

definition bt_invar :: "('k::linorder, 'v) btree \<Rightarrow> bool" where
  "bt_invar m \<longleftrightarrow> sorted_wrt (<) (map fst m)"

abbreviation bt_get :: "('k, 'v) btree \<Rightarrow> 'k \<Rightarrow> 'v option" where
  "bt_get \<equiv> map_of"

fun bt_insert :: "'k::linorder \<Rightarrow> 'v \<Rightarrow> ('k, 'v) btree \<Rightarrow> ('k, 'v) btree" where
  "bt_insert k v [] = [(k, v)]"
| "bt_insert k v ((a, b) # m) =
     (if k < a then (k, v) # (a, b) # m else if k = a then (k, v) # m else (a, b) # bt_insert k v m)"

definition bt_remove :: "'k \<Rightarrow> ('k, 'v) btree \<Rightarrow> ('k, 'v) btree" where
  "bt_remove k m = filter (\<lambda>e. fst e \<noteq> k) m"

text \<open>The entries of the range \<open>0..k\<close> and the last entry.\<close>

definition bt_below :: "'k::linorder \<Rightarrow> ('k, 'v) btree \<Rightarrow> ('k, 'v) btree" where
  "bt_below k m = takeWhile (\<lambda>e. fst e < k) m"

definition bt_last :: "('k, 'v) btree \<Rightarrow> ('k \<times> 'v) option" where
  "bt_last m = (if m = [] then None else Some (last m))"

section \<open>The interface\<close>

locale ordered_map =
  fixes get :: "'m \<Rightarrow> 'k::linorder \<Rightarrow> 'v option"
    and insert :: "'k \<Rightarrow> 'v \<Rightarrow> 'm \<Rightarrow> 'm"
    and below :: "'k \<Rightarrow> 'm \<Rightarrow> 'm"
    and greatest :: "'m \<Rightarrow> ('k \<times> 'v) option"
    and invar :: "'m \<Rightarrow> bool"
  assumes get_insert: "invar m \<Longrightarrow> get (insert k v m) = (get m)(k \<mapsto> v)"
    and invar_insert: "invar m \<Longrightarrow> invar (insert k v m)"
    and get_below: "invar m \<Longrightarrow> get (below k m) j = (if j < k then get m j else None)"
    and invar_below: "invar m \<Longrightarrow> invar (below k m)"
    and greatest_None: "invar m \<Longrightarrow> greatest m = None \<longleftrightarrow> (\<forall>k. get m k = None)"
    and greatest_Some: "invar m \<Longrightarrow> greatest m = Some (k, v) \<Longrightarrow> get m k = Some v \<and> (\<forall>j. get m j \<noteq> None \<longrightarrow> j \<le> k)"
begin

text \<open>The greatest entry below a bound, and how an insertion changes it.\<close>

lemma greatest_below:
  assumes "invar m" and "greatest (below k m) = Some (i, v)"
  shows "i < k" and "get m i = Some v" and "j < k \<Longrightarrow> get m j \<noteq> None \<Longrightarrow> j \<le> i"
  using greatest_Some [OF invar_below [OF assms(1)] assms(2)] get_below [OF assms(1)]
  by (auto split: if_splits)

lemma greatest_below_None:
  "invar m \<Longrightarrow> greatest (below k m) = None \<longleftrightarrow> (\<forall>j<k. get m j = None)"
  by (auto simp: greatest_None invar_below get_below)

lemma greatest_eqI:
  assumes "invar m" and "get m k = Some v" and "\<And>j. get m j \<noteq> None \<Longrightarrow> j \<le> k"
  shows "greatest m = Some (k, v)"
proof (cases "greatest m")
  case None
  then show ?thesis using greatest_None assms by auto
next
  case (Some e)
  obtain i w where e: "e = (i, w)" by fastforce
  with greatest_Some [OF assms(1)] Some have "get m i = Some w" "k \<le> i" using assms(2) by auto
  moreover from this(1) have "i \<le> k" using assms(3) by simp
  ultimately show ?thesis using assms(2) e Some by simp
qed

lemma greatest_insert_above:
  assumes "invar m" and "\<And>j. get m j \<noteq> None \<Longrightarrow> j \<le> k"
  shows "greatest (insert k v m) = Some (k, v)"
  using assms by (intro greatest_eqI) (auto simp: invar_insert get_insert split: if_splits)

lemma greatest_cong:
  assumes "invar m" and "invar m'" and "get m = get m'"
  shows "greatest m = greatest m'"
proof (cases "greatest m'")
  case None
  then show ?thesis using greatest_None [OF assms(1)] greatest_None [OF assms(2)] assms(3) by simp
next
  case (Some e)
  obtain i w where e: "e = (i, w)" by fastforce
  with greatest_Some [OF assms(2)] Some assms(3) show ?thesis
    by (auto intro!: greatest_eqI [OF assms(1)])
qed

lemma greatest_below_insert:
  assumes "invar m" and "e \<le> k"
  shows "greatest (below e (insert k v m)) = greatest (below e m)"
  by (rule greatest_cong) (use assms in \<open>auto simp: invar_below invar_insert get_below get_insert fun_eq_iff\<close>)

end

section \<open>The implementation\<close>

lemma bt_insert_keys: "set (map fst (bt_insert k v m)) = Set.insert k (set (map fst m))"
  by (induction k v m rule: bt_insert.induct) auto

lemma bt_invar_insert: "bt_invar m \<Longrightarrow> bt_invar (bt_insert k v m)"
  unfolding bt_invar_def
proof (induction k v m rule: bt_insert.induct)
  case (2 k v a b m)
  then show ?case using bt_insert_keys [of k v m] by auto
qed simp

lemma bt_get_insert: "bt_invar m \<Longrightarrow> bt_get (bt_insert k v m) = (bt_get m)(k \<mapsto> v)"
  unfolding bt_invar_def
proof (induction k v m rule: bt_insert.induct)
  case (2 k v a b m)
  then show ?case by (auto simp: fun_eq_iff)
qed simp

lemma bt_invar_below: "bt_invar m \<Longrightarrow> bt_invar (bt_below k m)"
  unfolding bt_invar_def bt_below_def by (induction m) (auto dest: set_takeWhileD)

lemma bt_get_below: "bt_invar m \<Longrightarrow> bt_get (bt_below k m) j = (if j < k then bt_get m j else None)"
  unfolding bt_invar_def bt_below_def
proof (induction m)
  case (Cons e m)
  have "bt_get m j = None" if "j < k" "\<not> fst e < k"
    using that Cons.prems by (auto simp: map_of_eq_None_iff)
  with Cons show ?case by (cases e) auto
qed simp

lemma bt_last_Some:
  assumes "bt_invar m" and "bt_last m = Some (k, v)"
  shows "bt_get m k = Some v \<and> (\<forall>j. bt_get m j \<noteq> None \<longrightarrow> j \<le> k)"
proof -
  from assms(2) have m: "m \<noteq> []" "last m = (k, v)" by (auto simp: bt_last_def split: if_splits)
  then obtain m' where m': "m = m' @ [(k, v)]" by (metis append_butlast_last_id)
  with assms(1) show ?thesis
    by (auto simp: bt_invar_def sorted_wrt_append map_add_def split: option.splits dest!: map_of_SomeD)
qed

interpretation bt: ordered_map bt_get bt_insert bt_below bt_last bt_invar
proof
  fix m :: "('k::linorder, 'v) btree"
  show "(bt_last m = None) = (\<forall>k. bt_get m k = None)"
    by (cases m) (auto simp: bt_last_def split: if_splits)
qed (auto simp: bt_get_insert bt_invar_insert bt_get_below bt_invar_below dest: bt_last_Some)

lemma bt_get_remove: "bt_get (bt_remove k m) j = (if j = k then None else bt_get m j)"
  by (induction m) (auto simp: bt_remove_def)

lemma bt_invar_remove: "bt_invar m \<Longrightarrow> bt_invar (bt_remove k m)"
  unfolding bt_invar_def bt_remove_def by (induction m) auto

end
