(* ===== verification/Sdk_Epoch_Schedule.thy ===== *)
theory Sdk_Epoch_Schedule
  imports Mundis_Prelude "HOL-Library.Log_Nat"
begin

text \<open>
  The schedule of epochs (\<open>sdk/program/src/epoch_schedule.rs\<close>): during a warm-up the epochs double in
  length from 32 slots, then they all have \<open>slots_per_epoch\<close> slots. The first section holds the integer
  methods of the standard library that the code calls.
\<close>

section \<open>Powers of two and saturating products\<close>

definition saturating_mul :: "'a::len word \<Rightarrow> 'a word \<Rightarrow> 'a word" where
  "saturating_mul a b = (if unat a * unat b < 2 ^ LENGTH('a) then a * b else - 1)"

definition saturating_pow :: "'a::len word \<Rightarrow> u32 \<Rightarrow> 'a word" where
  "saturating_pow a n = ((saturating_mul a) ^^ unat n) 1"

text \<open>In a release build \<open>next_power_of_two\<close> wraps to 0 when the power does not fit.\<close>

definition next_power_of_two :: "'a::len word \<Rightarrow> 'a word" where
  "next_power_of_two n = of_nat (2 ^ ceillog2 (unat n))"

definition trailing_zeros :: "'a::len word \<Rightarrow> u32" where
  "trailing_zeros w = of_nat (length (takeWhile (\<lambda>i. \<not> bit w i) [0..<LENGTH('a)]))"

definition checked_div :: "'a::len word \<Rightarrow> 'a word \<Rightarrow> 'a word option" where
  "checked_div a b = (if b = 0 then None else Some (a div b))"

definition checked_rem :: "'a::len word \<Rightarrow> 'a word \<Rightarrow> 'a word option" where
  "checked_rem a b = (if b = 0 then None else Some (a mod b))"

section \<open>The schedule\<close>

definition MINIMUM_SLOTS_PER_EPOCH :: u64 where "MINIMUM_SLOTS_PER_EPOCH = 32"
definition MAX_LEADER_SCHEDULE_EPOCH_OFFSET :: u64 where "MAX_LEADER_SCHEDULE_EPOCH_OFFSET = 3"
definition DEFAULT_SLOTS_PER_EPOCH :: u64 where "DEFAULT_SLOTS_PER_EPOCH = 432000"

record epoch_schedule =
  slots_per_epoch :: u64
  leader_schedule_slot_offset :: u64
  warmup :: bool
  first_normal_epoch :: u64
  first_normal_slot :: u64

definition epoch_schedule_custom :: "u64 \<Rightarrow> u64 \<Rightarrow> bool \<Rightarrow> ('e, epoch_schedule) result" where
  "epoch_schedule_custom slots offset warm =
     (if \<not> MINIMUM_SLOTS_PER_EPOCH \<le> slots then Panic
      else
        let (epoch, slot) =
              (if warm
               then let next = next_power_of_two slots;
                        log2 = saturating_sub (trailing_zeros next) (trailing_zeros MINIMUM_SLOTS_PER_EPOCH)
                    in (ucast log2, saturating_sub next MINIMUM_SLOTS_PER_EPOCH)
               else (0, 0))
        in Ok \<lparr>slots_per_epoch = slots, leader_schedule_slot_offset = offset, warmup = warm,
               first_normal_epoch = epoch, first_normal_slot = slot\<rparr>)"

definition epoch_schedule_new :: "u64 \<Rightarrow> ('e, epoch_schedule) result" where
  "epoch_schedule_new slots = epoch_schedule_custom slots slots True"

definition without_warmup :: "('e, epoch_schedule) result" where
  "without_warmup = epoch_schedule_custom DEFAULT_SLOTS_PER_EPOCH DEFAULT_SLOTS_PER_EPOCH False"

definition epoch_schedule_default :: "('e, epoch_schedule) result" where
  "epoch_schedule_default = epoch_schedule_custom DEFAULT_SLOTS_PER_EPOCH DEFAULT_SLOTS_PER_EPOCH True"

definition get_slots_in_epoch :: "epoch_schedule \<Rightarrow> u64 \<Rightarrow> u64" where
  "get_slots_in_epoch es e =
     (if e < first_normal_epoch es
      then saturating_pow 2 (saturating_add (ucast e) (trailing_zeros MINIMUM_SLOTS_PER_EPOCH))
      else slots_per_epoch es)"

definition get_epoch_and_slot_index :: "epoch_schedule \<Rightarrow> u64 \<Rightarrow> u64 \<times> u64" where
  "get_epoch_and_slot_index es s =
     (if s < first_normal_slot es
      then let e = saturating_sub (saturating_sub
                     (trailing_zeros (next_power_of_two (saturating_add (saturating_add s MINIMUM_SLOTS_PER_EPOCH) 1)))
                     (trailing_zeros MINIMUM_SLOTS_PER_EPOCH)) 1;
               epoch_len = saturating_pow 2 (saturating_add e (trailing_zeros MINIMUM_SLOTS_PER_EPOCH))
           in (ucast e, saturating_sub s (saturating_sub epoch_len MINIMUM_SLOTS_PER_EPOCH))
      else let normal_slot_index = saturating_sub s (first_normal_slot es);
               normal_epoch_index = (case checked_div normal_slot_index (slots_per_epoch es) of Some d \<Rightarrow> d | None \<Rightarrow> 0)
           in (saturating_add (first_normal_epoch es) normal_epoch_index,
               case checked_rem normal_slot_index (slots_per_epoch es) of Some r \<Rightarrow> r | None \<Rightarrow> 0))"

definition get_epoch :: "epoch_schedule \<Rightarrow> u64 \<Rightarrow> u64" where
  "get_epoch es s = fst (get_epoch_and_slot_index es s)"

definition get_leader_schedule_epoch :: "epoch_schedule \<Rightarrow> u64 \<Rightarrow> u64" where
  "get_leader_schedule_epoch es s =
     (if s < first_normal_slot es then saturating_add (fst (get_epoch_and_slot_index es s)) 1
      else let new_slots = saturating_sub s (first_normal_slot es);
               new_first = saturating_add new_slots (leader_schedule_slot_offset es);
               new_epochs = (case checked_div new_first (slots_per_epoch es) of Some d \<Rightarrow> d | None \<Rightarrow> 0)
           in saturating_add (first_normal_epoch es) new_epochs)"

definition get_first_slot_in_epoch :: "epoch_schedule \<Rightarrow> u64 \<Rightarrow> u64" where
  "get_first_slot_in_epoch es e =
     (if e \<le> first_normal_epoch es
      then saturating_mul (saturating_sub (saturating_pow 2 (ucast e)) 1) MINIMUM_SLOTS_PER_EPOCH
      else saturating_add (saturating_mul (saturating_sub e (first_normal_epoch es)) (slots_per_epoch es))
             (first_normal_slot es))"

definition get_last_slot_in_epoch :: "epoch_schedule \<Rightarrow> u64 \<Rightarrow> u64" where
  "get_last_slot_in_epoch es e =
     saturating_sub (saturating_add (get_first_slot_in_epoch es e) (get_slots_in_epoch es e)) 1"

end
