(* ===== verification/Sdk_Sysvar.thy ===== *)
theory Sdk_Sysvar
  imports Sdk_Rent Sdk_Account Sdk_Epoch_Schedule
begin

text \<open>
  The sysvars that programs read and the cache that the runtime keeps of them (\<open>sdk/program/src/clock.rs\<close>,
  \<open>sdk/program/src/sysvar/\<close>, \<open>program-runtime/src/sysvar_cache.rs\<close>), and the checks of
  \<open>sdk/src/keyed_account.rs\<close> on sysvar accounts.
\<close>

type_synonym slot = u64
type_synonym epoch = u64
type_synonym hash_value = "256 word"
type_synonym slot_hash = "slot \<times> hash_value"

record clock =
  clk_slot :: slot
  epoch_start_timestamp :: u64
  clk_epoch :: epoch
  leader_schedule_epoch :: epoch
  unix_timestamp :: u64

definition clock_default :: clock where
  "clock_default =
     \<lparr>clk_slot = 0, epoch_start_timestamp = 0, clk_epoch = 0, leader_schedule_epoch = 0, unix_timestamp = 0\<rparr>"

record fee_calculator =
  fc_lamports_per_signature :: u64

record fees =
  fee_calculator :: fee_calculator

text \<open>The identifiers, base-58 constants of the source written as the numbers they denote.\<close>

definition clock_id :: pubkey where
  "clock_id = 3010411245977774767103551433779408434046391008353408711474217313814305570816"

definition rent_id :: pubkey where
  "rent_id = 3010411246019284437244212147455409835011261068170932596721577831542904848384"

definition slot_hashes_id :: pubkey where
  "slot_hashes_id = 3010411246020387390845657635421930170267332101929006271628180992244983005184"

section \<open>The cache\<close>

record sysvar_cache =
  sc_clock :: "clock option"
  sc_epoch_schedule :: "epoch_schedule option"
  sc_fees :: "fees option"
  sc_rent :: "rent option"
  sc_slot_hashes :: "slot_hash list option"

definition get_clock :: "sysvar_cache \<Rightarrow> clock ix_result" where
  "get_clock c = ok_or UnsupportedSysvar (sc_clock c)"

definition set_clock :: "clock \<Rightarrow> sysvar_cache \<Rightarrow> sysvar_cache" where
  "set_clock x c = c\<lparr>sc_clock := Some x\<rparr>"

definition get_epoch_schedule :: "sysvar_cache \<Rightarrow> epoch_schedule ix_result" where
  "get_epoch_schedule c = ok_or UnsupportedSysvar (sc_epoch_schedule c)"

definition set_epoch_schedule :: "epoch_schedule \<Rightarrow> sysvar_cache \<Rightarrow> sysvar_cache" where
  "set_epoch_schedule x c = c\<lparr>sc_epoch_schedule := Some x\<rparr>"

definition get_fees :: "sysvar_cache \<Rightarrow> fees ix_result" where
  "get_fees c = ok_or UnsupportedSysvar (sc_fees c)"

definition set_fees :: "fees \<Rightarrow> sysvar_cache \<Rightarrow> sysvar_cache" where
  "set_fees x c = c\<lparr>sc_fees := Some x\<rparr>"

definition get_rent :: "sysvar_cache \<Rightarrow> rent ix_result" where
  "get_rent c = ok_or UnsupportedSysvar (sc_rent c)"

definition set_rent :: "rent \<Rightarrow> sysvar_cache \<Rightarrow> sysvar_cache" where
  "set_rent x c = c\<lparr>sc_rent := Some x\<rparr>"

definition get_slot_hashes :: "sysvar_cache \<Rightarrow> slot_hash list ix_result" where
  "get_slot_hashes c = ok_or UnsupportedSysvar (sc_slot_hashes c)"

definition set_slot_hashes :: "slot_hash list \<Rightarrow> sysvar_cache \<Rightarrow> sysvar_cache" where
  "set_slot_hashes x c = c\<lparr>sc_slot_hashes := Some x\<rparr>"

section \<open>Sysvar accounts\<close>

text \<open>The type parameter of the source is the sysvar's identifier here; \<open>from_account\<close> is bincode's decoder.\<close>

definition check_sysvar_keyed_account :: "pubkey \<Rightarrow> store \<Rightarrow> keyed_account \<Rightarrow> account ix_result" where
  "check_sysvar_keyed_account sysvar_id s ka =
     (if unsigned_key ka \<noteq> sysvar_id then Err InvalidArgument else Ok (cell s ka))"

definition from_account :: "'a bincode \<Rightarrow> account \<Rightarrow> 'a option" where
  "from_account bc a = bc_deserialize bc (data a)"

definition from_keyed_account :: "pubkey \<Rightarrow> 'a bincode \<Rightarrow> store \<Rightarrow> keyed_account \<Rightarrow> 'a ix_result" where
  "from_keyed_account sysvar_id bc s ka =
     and_then (check_sysvar_keyed_account sysvar_id s ka) (\<lambda>a. ok_or InvalidArgument (from_account bc a))"

end
