(* ===== verification/Vote_State.thy ===== *)
theory Vote_State
  imports Rust_BTreeMap Sdk_Sysvar
begin

text \<open>
  The state of a vote account (\<open>programs/vote/src/vote_state/mod.rs\<close>, \<open>authorized_voters.rs\<close>): the tower of
  votes with their lockouts, the credits, the authorized voters, and one definition per method that
  reads or changes them. Sums and powers of \<open>u64\<close> wrap around, as in a release build.
\<close>

section \<open>Votes and lockouts\<close>

definition MAX_LOCKOUT_HISTORY :: nat where "MAX_LOCKOUT_HISTORY = 31"
definition INITIAL_LOCKOUT :: u64 where "INITIAL_LOCKOUT = 2"
definition MAX_EPOCH_CREDITS_HISTORY :: nat where "MAX_EPOCH_CREDITS_HISTORY = 64"
definition MAX_ITEMS :: nat where "MAX_ITEMS = 32"

datatype vote_error =
    VoteTooOld | SlotsMismatch | SlotHashMismatch | EmptySlots | TimestampTooOld | TooSoonToReauthorize
  | LockoutConflict | NewVoteStateLockoutMismatch | SlotsNotOrdered | ConfirmationsNotOrdered
  | ZeroConfirmations | ConfirmationTooLarge | RootRollBack | ConfirmationRollBack
  | SlotSmallerThanRoot | TooManyVotes

fun vote_error_code :: "vote_error \<Rightarrow> u32" where
  "vote_error_code VoteTooOld = 0"
| "vote_error_code SlotsMismatch = 1"
| "vote_error_code SlotHashMismatch = 2"
| "vote_error_code EmptySlots = 3"
| "vote_error_code TimestampTooOld = 4"
| "vote_error_code TooSoonToReauthorize = 5"
| "vote_error_code LockoutConflict = 6"
| "vote_error_code NewVoteStateLockoutMismatch = 7"
| "vote_error_code SlotsNotOrdered = 8"
| "vote_error_code ConfirmationsNotOrdered = 9"
| "vote_error_code ZeroConfirmations = 10"
| "vote_error_code ConfirmationTooLarge = 11"
| "vote_error_code RootRollBack = 12"
| "vote_error_code ConfirmationRollBack = 13"
| "vote_error_code SlotSmallerThanRoot = 14"
| "vote_error_code TooManyVotes = 15"

definition vote_err :: "vote_error \<Rightarrow> instruction_error" where
  "vote_err e = Custom (vote_error_code e)"

record vote =
  vt_slots :: "slot list"
  vt_hash :: hash_value
  vt_timestamp :: "u64 option"

definition vote_new :: "slot list \<Rightarrow> hash_value \<Rightarrow> vote" where
  "vote_new slots h = \<lparr>vt_slots = slots, vt_hash = h, vt_timestamp = None\<rparr>"

definition vote_last_voted_slot :: "vote \<Rightarrow> slot option" where
  "vote_last_voted_slot v = (if vt_slots v = [] then None else Some (last (vt_slots v)))"

definition vote_last_voted_slot_hash :: "vote \<Rightarrow> (slot \<times> hash_value) option" where
  "vote_last_voted_slot_hash v = map_option (\<lambda>s. (s, vt_hash v)) (vote_last_voted_slot v)"

record lockout =
  lo_slot :: slot
  confirmation_count :: u32

definition lockout_new :: "slot \<Rightarrow> lockout" where
  "lockout_new s = \<lparr>lo_slot = s, confirmation_count = 1\<rparr>"

definition lockout_period :: "lockout \<Rightarrow> u64" where
  "lockout_period l = INITIAL_LOCKOUT ^ unat (confirmation_count l)"

definition last_locked_out_slot :: "lockout \<Rightarrow> slot" where
  "last_locked_out_slot l = lo_slot l + lockout_period l"

definition is_locked_out_at_slot :: "lockout \<Rightarrow> slot \<Rightarrow> bool" where
  "is_locked_out_at_slot l s \<longleftrightarrow> last_locked_out_slot l \<ge> s"

section \<open>The ring of prior voters\<close>

record 'a circ_buf =
  cb_buf :: "'a list"
  cb_idx :: nat
  cb_is_empty :: bool

definition circ_buf_default :: "'a \<Rightarrow> 'a circ_buf" where
  "circ_buf_default d = \<lparr>cb_buf = replicate MAX_ITEMS d, cb_idx = MAX_ITEMS - 1, cb_is_empty = True\<rparr>"

definition circ_buf_append :: "'a \<Rightarrow> 'a circ_buf \<Rightarrow> 'a circ_buf" where
  "circ_buf_append item b =
     (let idx = (cb_idx b + 1) mod MAX_ITEMS
      in b\<lparr>cb_idx := idx, cb_buf := (cb_buf b)[idx := item], cb_is_empty := False\<rparr>)"

definition circ_buf_last :: "'a circ_buf \<Rightarrow> 'a option" where
  "circ_buf_last b = (if \<not> cb_is_empty b then Some (cb_buf b ! cb_idx b) else None)"

section \<open>Authorized voters\<close>

type_synonym authorized_voters = "(epoch, pubkey) btree"

definition authorized_voters_new :: "epoch \<Rightarrow> pubkey \<Rightarrow> authorized_voters" where
  "authorized_voters_new e k = bt_insert e k []"

definition get_or_calculate_authorized_voter_for_epoch :: "epoch \<Rightarrow> authorized_voters \<Rightarrow> (pubkey \<times> bool) option" where
  "get_or_calculate_authorized_voter_for_epoch e av =
     (case bt_get av e of
        None \<Rightarrow> map_option (\<lambda>(_, k). (k, False)) (bt_last (bt_below e av))
      | Some k \<Rightarrow> Some (k, True))"

definition av_get_authorized_voter :: "epoch \<Rightarrow> authorized_voters \<Rightarrow> pubkey option" where
  "av_get_authorized_voter e av = map_option fst (get_or_calculate_authorized_voter_for_epoch e av)"

definition get_and_cache_authorized_voter_for_epoch ::
  "epoch \<Rightarrow> authorized_voters \<Rightarrow> (pubkey \<times> authorized_voters) option" where
  "get_and_cache_authorized_voter_for_epoch e av =
     map_option (\<lambda>(k, existed). (k, if \<not> existed then bt_insert e k av else av))
       (get_or_calculate_authorized_voter_for_epoch e av)"

text \<open>The expired keys are collected and removed one by one; an empty map is a failed assertion.\<close>

definition purge_authorized_voters :: "epoch \<Rightarrow> authorized_voters \<Rightarrow> ('e, authorized_voters) result" where
  "purge_authorized_voters current_epoch av =
     (let expired_keys = map fst (bt_below current_epoch av);
          av = fold bt_remove expired_keys av
      in if av = [] then Panic else Ok av)"

section \<open>The vote state\<close>

record vote_init =
  vi_node_pubkey :: pubkey
  vi_authorized_voter :: pubkey
  vi_authorized_withdrawer :: pubkey
  vi_commission :: u8

datatype vote_authorize = Voter | Withdrawer

record block_timestamp =
  bt_slot :: slot
  bt_timestamp :: u64

record vote_state =
  node_pubkey :: pubkey
  authorized_withdrawer :: pubkey
  commission :: u8
  votes :: "lockout list"
  root_slot :: "slot option"
  voters :: authorized_voters
  prior_voters :: "(pubkey \<times> epoch \<times> epoch) circ_buf"
  epoch_credits :: "(epoch \<times> u64 \<times> u64) list"
  last_timestamp :: block_timestamp

definition vote_state_default :: vote_state where
  "vote_state_default =
     \<lparr>node_pubkey = 0, authorized_withdrawer = 0, commission = 0, votes = [], root_slot = None, voters = [],
      prior_voters = circ_buf_default (0, 0, 0), epoch_credits = [],
      last_timestamp = \<lparr>bt_slot = 0, bt_timestamp = 0\<rparr>\<rparr>"

definition vote_state_new :: "vote_init \<Rightarrow> clock \<Rightarrow> vote_state" where
  "vote_state_new init c =
     vote_state_default
       \<lparr>node_pubkey := vi_node_pubkey init,
        voters := authorized_voters_new (clk_epoch c) (vi_authorized_voter init),
        authorized_withdrawer := vi_authorized_withdrawer init,
        commission := vi_commission init\<rparr>"

definition get_authorized_voter :: "vote_state \<Rightarrow> epoch \<Rightarrow> pubkey option" where
  "get_authorized_voter vs e = av_get_authorized_voter e (voters vs)"

text \<open>The products are computed in \<open>u128\<close> and truncated to \<open>u64\<close>.\<close>

definition commission_split :: "vote_state \<Rightarrow> u64 \<Rightarrow> u64 \<times> u64 \<times> bool" where
  "commission_split vs on =
     (let split = min (commission vs) 100 in
      if split = 0 then (0, on, False)
      else if split = 100 then (on, 0, False)
      else let on128 = (ucast on :: u128);
               mine = on128 * ucast split div 100;
               theirs = on128 * ucast (100 - split) div 100
           in (ucast mine, ucast theirs, True))"

definition last_lockout :: "vote_state \<Rightarrow> lockout option" where
  "last_lockout vs = (if votes vs = [] then None else Some (last (votes vs)))"

definition last_voted_slot :: "vote_state \<Rightarrow> slot option" where
  "last_voted_slot vs = map_option lo_slot (last_lockout vs)"

definition nth_recent_vote :: "vote_state \<Rightarrow> nat \<Rightarrow> lockout option" where
  "nth_recent_vote vs position =
     (if position < length (votes vs) then Some (votes vs ! (length (votes vs) - 1 - position)) else None)"

definition tower :: "vote_state \<Rightarrow> slot list" where
  "tower vs = map lo_slot (votes vs)"

definition current_epoch :: "vote_state \<Rightarrow> epoch" where
  "current_epoch vs = (if epoch_credits vs = [] then 0 else fst (last (epoch_credits vs)))"

definition credits :: "vote_state \<Rightarrow> u64" where
  "credits vs = (if epoch_credits vs = [] then 0 else fst (snd (last (epoch_credits vs))))"

section \<open>Checking the slots of a vote\<close>

text \<open>
  The loop of \<open>check_slots_are_valid\<close>: \<open>i\<close> walks up the slots of the vote, \<open>j\<close> walks down from the oldest
  slot hash. It ends because each round raises \<open>i\<close> or lowers \<open>j\<close>.
\<close>

function slots_loop :: "slot option \<Rightarrow> slot list \<Rightarrow> (slot \<times> hash_value) list \<Rightarrow> nat \<Rightarrow> nat \<Rightarrow> nat \<times> nat" where
  "slots_loop last_slot slots slot_hashes i j =
     (if i < length slots \<and> 0 < j
      then if (case last_slot of Some l \<Rightarrow> slots ! i \<le> l | None \<Rightarrow> False)
           then slots_loop last_slot slots slot_hashes (i + 1) j
           else if slots ! i \<noteq> fst (slot_hashes ! (j - 1))
           then slots_loop last_slot slots slot_hashes i (j - 1)
           else slots_loop last_slot slots slot_hashes (i + 1) (j - 1)
      else (i, j))"
  by pat_completeness auto
termination
  by (relation "measure (\<lambda>(_, slots, _, i, j). (length slots - i) + j)") auto

declare slots_loop.simps [simp del]

definition check_slots_are_valid ::
  "vote_state \<Rightarrow> vote \<Rightarrow> (slot \<times> hash_value) list \<Rightarrow> (vote_error, unit) result" where
  "check_slots_are_valid vs v slot_hashes =
     (let (i, j) = slots_loop (last_voted_slot vs) (vt_slots v) slot_hashes 0 (length slot_hashes) in
      if j = length slot_hashes then Err VoteTooOld
      else if i \<noteq> length (vt_slots v) then Err SlotsMismatch
      else if snd (slot_hashes ! j) \<noteq> vt_hash v then Err SlotHashMismatch
      else Ok ())"

section \<open>Credits, expiry and lockouts\<close>

definition increment_credits :: "epoch \<Rightarrow> vote_state \<Rightarrow> vote_state" where
  "increment_credits e vs =
     (let ec = epoch_credits vs;
          ec = (if ec = [] then ec @ [(e, 0, 0)]
                else let (le, c, prev) = last ec in
                     if e \<noteq> le
                     then let ec = (if c \<noteq> prev then ec @ [(e, c, c)] else butlast ec @ [(e, c, prev)])
                          in if length ec > MAX_EPOCH_CREDITS_HISTORY then tl ec else ec
                     else ec);
          (le, c, prev) = last ec
      in vs\<lparr>epoch_credits := butlast ec @ [(le, c + 1, prev)]\<rparr>)"

text \<open>\<open>pop_expired_votes\<close> pops from the back while the last vote is not locked out at the slot.\<close>

function pop_expired :: "slot \<Rightarrow> lockout list \<Rightarrow> lockout list" where
  "pop_expired next_vote_slot ls =
     (if ls \<noteq> [] \<and> \<not> is_locked_out_at_slot (last ls) next_vote_slot
      then pop_expired next_vote_slot (butlast ls) else ls)"
  by pat_completeness auto
termination
  by (relation "measure (\<lambda>(_, ls). length ls)") auto

declare pop_expired.simps [simp del]

definition pop_expired_votes :: "slot \<Rightarrow> vote_state \<Rightarrow> vote_state" where
  "pop_expired_votes next_vote_slot vs = vs\<lparr>votes := pop_expired next_vote_slot (votes vs)\<rparr>"

definition double_lockout :: "nat \<Rightarrow> nat \<Rightarrow> lockout \<Rightarrow> lockout" where
  "double_lockout stack_depth i v =
     (if stack_depth > i + unat (confirmation_count v)
      then v\<lparr>confirmation_count := confirmation_count v + 1\<rparr> else v)"

definition double_lockouts :: "vote_state \<Rightarrow> vote_state" where
  "double_lockouts vs =
     (let stack_depth = length (votes vs)
      in vs\<lparr>votes := map (\<lambda>(i, v). double_lockout stack_depth i v) (enumerate 0 (votes vs))\<rparr>)"

definition process_next_vote_slot :: "slot \<Rightarrow> epoch \<Rightarrow> vote_state \<Rightarrow> vote_state" where
  "process_next_vote_slot next_vote_slot e vs =
     (if (case last_voted_slot vs of Some l \<Rightarrow> next_vote_slot \<le> l | None \<Rightarrow> False) then vs
      else
        let vote = lockout_new next_vote_slot;
            vs = pop_expired_votes next_vote_slot vs;
            vs = (if length (votes vs) = MAX_LOCKOUT_HISTORY
                  then increment_credits e (vs\<lparr>root_slot := Some (lo_slot (hd (votes vs))), votes := tl (votes vs)\<rparr>)
                  else vs);
            vs = vs\<lparr>votes := votes vs @ [vote]\<rparr>
        in double_lockouts vs)"

definition process_vote :: "vote_state \<Rightarrow> vote \<Rightarrow> (slot \<times> hash_value) list \<Rightarrow> epoch \<Rightarrow> (vote_error, vote_state) result" where
  "process_vote vs v slot_hashes e =
     (if vt_slots v = [] then Err EmptySlots
      else and_then (check_slots_are_valid vs v slot_hashes) (\<lambda>_.
           Ok (fold (\<lambda>s. process_next_vote_slot s e) (vt_slots v) vs)))"

definition process_vote_unchecked :: "vote \<Rightarrow> vote_state \<Rightarrow> vote_state" where
  "process_vote_unchecked v vs =
     (let slot_hashes = map (\<lambda>x. (x, vt_hash v)) (rev (vt_slots v))
      in case process_vote vs v slot_hashes (current_epoch vs) of Ok vs' \<Rightarrow> vs' | _ \<Rightarrow> vs)"

definition process_slot_vote_unchecked :: "slot \<Rightarrow> vote_state \<Rightarrow> vote_state" where
  "process_slot_vote_unchecked s = process_vote_unchecked (vote_new [s] 0)"

text \<open>Timestamps are \<open>i64\<close>.\<close>

definition process_timestamp :: "slot \<Rightarrow> u64 \<Rightarrow> vote_state \<Rightarrow> (vote_error, vote_state) result" where
  "process_timestamp s timestamp vs =
     (let l = last_timestamp vs in
      if (s < bt_slot l \<or> sint timestamp < sint (bt_timestamp l))
         \<or> (s = bt_slot l \<and> \<lparr>bt_slot = s, bt_timestamp = timestamp\<rparr> \<noteq> l \<and> bt_slot l \<noteq> 0)
      then Err TimestampTooOld
      else Ok (vs\<lparr>last_timestamp := \<lparr>bt_slot = s, bt_timestamp = timestamp\<rparr>\<rparr>))"

section \<open>Replacing the tower\<close>

text \<open>The checks of the proposed votes, one by one with their predecessor.\<close>

fun check_proposed :: "slot option \<Rightarrow> lockout option \<Rightarrow> lockout list \<Rightarrow> (vote_error, unit) result" where
  "check_proposed new_root previous_vote [] = Ok ()"
| "check_proposed new_root previous_vote (v # vs) =
     (if confirmation_count v = 0 then Err ZeroConfirmations
      else if unat (confirmation_count v) > MAX_LOCKOUT_HISTORY then Err ConfirmationTooLarge
      else if (case new_root of Some r \<Rightarrow> lo_slot v \<le> r \<and> r \<noteq> 0 | None \<Rightarrow> False) then Err SlotSmallerThanRoot
      else and_then
        (case previous_vote of
           Some p \<Rightarrow>
             if lo_slot p \<ge> lo_slot v then Err SlotsNotOrdered
             else if confirmation_count p \<le> confirmation_count v then Err ConfirmationsNotOrdered
             else if lo_slot v > last_locked_out_slot p then Err NewVoteStateLockoutMismatch
             else Ok ()
         | None \<Rightarrow> Ok ()) (\<lambda>_. check_proposed new_root (Some v) vs))"

text \<open>The walk over the current and the proposed votes, on the suffixes that the indices denote.\<close>

fun check_conflicts :: "lockout list \<Rightarrow> lockout list \<Rightarrow> (vote_error, unit) result" where
  "check_conflicts (c # cs) (n # ns) =
     (if lo_slot c < lo_slot n
      then if last_locked_out_slot c \<ge> lo_slot n then Err LockoutConflict else check_conflicts cs (n # ns)
      else if lo_slot c = lo_slot n
      then if confirmation_count n < confirmation_count c then Err ConfirmationRollBack else check_conflicts cs ns
      else check_conflicts (c # cs) ns)"
| "check_conflicts _ _ = Ok ()"

definition root_rolls_back :: "slot option \<Rightarrow> slot option \<Rightarrow> bool" where
  "root_rolls_back new_root old_root =
     (case (new_root, old_root) of
        (Some n, Some c) \<Rightarrow> n < c
      | (None, Some _) \<Rightarrow> True
      | _ \<Rightarrow> False)"

definition process_new_vote_state ::
  "vote_state \<Rightarrow> lockout list \<Rightarrow> slot option \<Rightarrow> u64 option \<Rightarrow> epoch \<Rightarrow> (vote_error, vote_state) result" where
  "process_new_vote_state vs new_state new_root timestamp e =
     (if new_state = [] then Panic
      else if length new_state > MAX_LOCKOUT_HISTORY then Err TooManyVotes
      else if votes vs \<noteq> [] \<and> \<not> lo_slot (last new_state) > lo_slot (last (votes vs)) then Panic
      else if root_rolls_back new_root (root_slot vs) then Err RootRollBack
      else
        and_then (check_proposed new_root None new_state) (\<lambda>_.
        let current = dropWhile (\<lambda>c. case new_root of Some r \<Rightarrow> lo_slot c \<le> r | None \<Rightarrow> False) (votes vs) in
        and_then (check_conflicts current new_state) (\<lambda>_.
        let vs = (if root_slot vs \<noteq> new_root then increment_credits e vs else vs) in
        and_then (case timestamp of
                    Some t \<Rightarrow> process_timestamp (lo_slot (last new_state)) t vs
                  | None \<Rightarrow> Ok vs) (\<lambda>vs.
        Ok (vs\<lparr>root_slot := new_root, votes := new_state\<rparr>)))))"

section \<open>Changing the authorized voter\<close>

definition get_and_update_authorized_voter :: "vote_state \<Rightarrow> epoch \<Rightarrow> (pubkey \<times> vote_state) ix_result" where
  "get_and_update_authorized_voter vs e =
     and_then (ok_or InvalidAccountData (get_and_cache_authorized_voter_for_epoch e (voters vs))) (\<lambda>(k, av).
     and_then (purge_authorized_voters e av) (\<lambda>av.
     Ok (k, vs\<lparr>voters := av\<rparr>)))"

definition set_new_authorized_voter ::
  "vote_state \<Rightarrow> pubkey \<Rightarrow> epoch \<Rightarrow> epoch \<Rightarrow> (pubkey \<Rightarrow> unit ix_result) \<Rightarrow> vote_state ix_result" where
  "set_new_authorized_voter vs authorized_pubkey current target verify =
     and_then (get_and_update_authorized_voter vs current) (\<lambda>(epoch_authorized_voter, vs).
     and_then (verify epoch_authorized_voter) (\<lambda>_.
     if bt_get (voters vs) target \<noteq> None then Err (vote_err TooSoonToReauthorize)
     else
       and_then (ok_or InvalidAccountData (bt_last (voters vs))) (\<lambda>(latest_epoch, latest_authorized_pubkey).
       and_then (if latest_authorized_pubkey \<noteq> authorized_pubkey
                 then let epoch_of_last_authorized_switch =
                            (case circ_buf_last (prior_voters vs) of Some (_, _, e) \<Rightarrow> e | None \<Rightarrow> 0)
                      in if \<not> target > latest_epoch then Panic
                         else Ok (vs\<lparr>prior_voters := circ_buf_append
                                (latest_authorized_pubkey, epoch_of_last_authorized_switch, target) (prior_voters vs)\<rparr>)
                 else Ok vs) (\<lambda>vs.
       Ok (vs\<lparr>voters := bt_insert target authorized_pubkey (voters vs)\<rparr>)))))"

end
