(* ===== verification/Vote_Tower.thy ===== *)
theory Vote_Tower
  imports Vote_State
begin

text \<open>
  The tower of votes. \<open>tower_ok\<close> is what the code promises of it: slots ascend, confirmation counts
  descend from the depth of the stack, no vote was cast after the lockout of its predecessor.
  Every vote keeps it, and the tower that a vote leads to is accepted as a proposed tower.
\<close>

abbreviation count :: "lockout \<Rightarrow> nat" where
  "count l \<equiv> unat (confirmation_count l)"

definition tower_ok :: "lockout list \<Rightarrow> bool" where
  "tower_ok ls \<longleftrightarrow>
     length ls \<le> 31
     \<and> (\<forall>i<length ls. length ls \<le> i + count (ls ! i) \<and> count (ls ! i) \<le> 31 \<and> unat (lo_slot (ls ! i)) < 2 ^ 63)
     \<and> (\<forall>j<length ls. \<forall>i<j. lo_slot (ls ! i) < lo_slot (ls ! j) \<and> count (ls ! j) < count (ls ! i))
     \<and> (\<forall>i. Suc i < length ls \<longrightarrow> lo_slot (ls ! Suc i) \<le> last_locked_out_slot (ls ! i))"

lemma tower_okI:
  assumes "length ls \<le> 31"
    and "\<And>i. i < length ls \<Longrightarrow> length ls \<le> i + count (ls ! i)"
    and "\<And>i. i < length ls \<Longrightarrow> count (ls ! i) \<le> 31"
    and "\<And>i. i < length ls \<Longrightarrow> unat (lo_slot (ls ! i)) < 2 ^ 63"
    and "\<And>i j. j < length ls \<Longrightarrow> i < j \<Longrightarrow> lo_slot (ls ! i) < lo_slot (ls ! j)"
    and "\<And>i j. j < length ls \<Longrightarrow> i < j \<Longrightarrow> count (ls ! j) < count (ls ! i)"
    and "\<And>i. Suc i < length ls \<Longrightarrow> lo_slot (ls ! Suc i) \<le> last_locked_out_slot (ls ! i)"
  shows "tower_ok ls"
  using assms unfolding tower_ok_def by blast

lemma tower_okD:
  assumes "tower_ok ls"
  shows "length ls \<le> 31"
    and "i < length ls \<Longrightarrow> length ls \<le> i + count (ls ! i)"
    and "i < length ls \<Longrightarrow> count (ls ! i) \<le> 31"
    and "i < length ls \<Longrightarrow> unat (lo_slot (ls ! i)) < 2 ^ 63"
    and "j < length ls \<Longrightarrow> i < j \<Longrightarrow> lo_slot (ls ! i) < lo_slot (ls ! j)"
    and "j < length ls \<Longrightarrow> i < j \<Longrightarrow> count (ls ! j) < count (ls ! i)"
    and "Suc i < length ls \<Longrightarrow> lo_slot (ls ! Suc i) \<le> last_locked_out_slot (ls ! i)"
  using assms unfolding tower_ok_def by blast+

lemma tower_ok_Nil [simp]: "tower_ok []"
  by (simp add: tower_ok_def)

section \<open>Lockouts without overflow\<close>

lemma last_locked_out_exact:
  assumes "count l \<le> 31" and "unat (lo_slot l) < 2 ^ 63"
  shows "unat (last_locked_out_slot l) = unat (lo_slot l) + 2 ^ count l"
proof -
  have le: "(2 :: nat) ^ count l \<le> 2 ^ 31" using assms(1) by (intro power_increasing) simp_all
  have "INITIAL_LOCKOUT ^ count l = (of_nat (2 ^ count l) :: u64)"
    by (simp add: INITIAL_LOCKOUT_def)
  then have "unat (INITIAL_LOCKOUT ^ count l) = 2 ^ count l"
    using le by (simp only: unat_of_nat) simp
  then show ?thesis
    using assms(2) le by (simp add: last_locked_out_slot_def lockout_period_def unat_word_ariths)
qed

lemma last_locked_out_mono:
  assumes "count l \<le> count l'" and "count l' \<le> 31" and "lo_slot l' = lo_slot l" and "unat (lo_slot l) < 2 ^ 63"
  shows "last_locked_out_slot l \<le> last_locked_out_slot l'"
  using assms last_locked_out_exact [of l] last_locked_out_exact [of l']
  by (simp add: word_le_nat_alt)

section \<open>Expiry\<close>

lemma pop_expired_take:
  obtains p where "p \<le> length ls" and "pop_expired n ls = take p ls"
    and "\<And>i. p \<le> i \<Longrightarrow> i < length ls \<Longrightarrow> \<not> is_locked_out_at_slot (ls ! i) n"
    and "0 < p \<Longrightarrow> is_locked_out_at_slot (ls ! (p - 1)) n"
proof (induction n ls arbitrary: thesis rule: pop_expired.induct)
  case (1 n ls)
  show ?case
  proof (cases "ls \<noteq> [] \<and> \<not> is_locked_out_at_slot (last ls) n")
    case True
    then have eq: "pop_expired n ls = pop_expired n (butlast ls)" by (simp add: pop_expired.simps [of n ls])
    show ?thesis
    proof (rule "1.IH" [OF True])
      fix p
      assume p: "p \<le> length (butlast ls)" "pop_expired n (butlast ls) = take p (butlast ls)"
        and q: "\<And>i. p \<le> i \<Longrightarrow> i < length (butlast ls) \<Longrightarrow> \<not> is_locked_out_at_slot (butlast ls ! i) n"
        and l: "0 < p \<Longrightarrow> is_locked_out_at_slot (butlast ls ! (p - 1)) n"
      show thesis
      proof (rule "1.prems")
        show "p \<le> length ls" using p(1) by simp
        show "pop_expired n ls = take p ls" using eq p by (simp add: butlast_conv_take)
        show "\<not> is_locked_out_at_slot (ls ! i) n" if "p \<le> i" "i < length ls" for i
        proof (cases "i < length ls - 1")
          case True
          then show ?thesis using q [of i] that by (simp add: nth_butlast)
        next
          case False
          then have "i = length ls - 1" using that by simp
          then show ?thesis using \<open>ls \<noteq> [] \<and> \<not> is_locked_out_at_slot (last ls) n\<close> by (auto simp: last_conv_nth)
        qed
        show "is_locked_out_at_slot (ls ! (p - 1)) n" if "0 < p"
          using l [OF that] p(1) that by (simp add: nth_butlast)
      qed
    qed
  next
    case False
    then have "pop_expired n ls = ls" by (simp only: pop_expired.simps [of n ls] if_False)
    with False show ?thesis by (intro "1.prems" [of "length ls"]) (auto simp: last_conv_nth)
  qed
qed

lemma tower_ok_take:
  assumes "tower_ok ls"
  shows "tower_ok (take p ls)"
proof (rule tower_okI)
  fix i
  assume i: "i < length (take p ls)"
  then show "length (take p ls) \<le> i + count (take p ls ! i)" "count (take p ls ! i) \<le> 31"
      "unat (lo_slot (take p ls ! i)) < 2 ^ 63"
    using tower_okD(2-4) [OF assms, of i] by simp_all
qed (use tower_okD(1,5-7) [OF assms] in auto)

lemma tower_ok_tl:
  assumes "tower_ok ls"
  shows "tower_ok (tl ls)"
proof (rule tower_okI)
  fix i
  assume "i < length (tl ls)"
  then show "length (tl ls) \<le> i + count (tl ls ! i)" "count (tl ls ! i) \<le> 31" "unat (lo_slot (tl ls ! i)) < 2 ^ 63"
    using tower_okD(2-4) [OF assms, of "Suc i"] by (simp_all add: nth_tl) linarith
qed (use tower_okD(1,5-7) [OF assms] in \<open>auto simp: nth_tl\<close>)

section \<open>Doubling\<close>

definition double_list :: "lockout list \<Rightarrow> lockout list" where
  "double_list ls = map (\<lambda>(i, v). double_lockout (length ls) i v) (enumerate 0 ls)"

lemma votes_double_lockouts: "double_lockouts vs = vs\<lparr>votes := double_list (votes vs)\<rparr>"
  by (simp add: double_lockouts_def double_list_def Let_def)

lemma length_double_list [simp]: "length (double_list ls) = length ls"
  by (simp add: double_list_def)

lemma double_list_Nil [simp]: "double_list ls = [] \<longleftrightarrow> ls = []"
  by (simp flip: length_0_conv)

lemma nth_double_list: "i < length ls \<Longrightarrow> double_list ls ! i = double_lockout (length ls) i (ls ! i)"
  by (simp add: double_list_def nth_enumerate_eq)

lemma double_lockout_slot [simp]: "lo_slot (double_lockout d i v) = lo_slot v"
  by (simp add: double_lockout_def)

lemma count_double_lockout:
  "d \<le> 31 \<Longrightarrow> count (double_lockout d i v) = (if d > i + count v then Suc (count v) else count v)"
  by (simp add: double_lockout_def unat_word_ariths)

text \<open>Pushing a vote on a tower with room, within the lockout of the last one.\<close>

lemma tower_ok_push:
  assumes ok: "tower_ok ls" and "length ls < 31" and n: "unat n < 2 ^ 63"
    and new: "\<And>i. i < length ls \<Longrightarrow> lo_slot (ls ! i) < n"
    and lock: "ls \<noteq> [] \<Longrightarrow> is_locked_out_at_slot (last ls) n"
  shows "tower_ok (double_list (ls @ [lockout_new n]))"
proof -
  let ?d = "length ls" and ?ls = "ls @ [lockout_new n]"
  let ?xs = "double_list ?ls"
  have len: "length ?ls = Suc ?d" "Suc ?d \<le> 31" using assms(2) by simp_all
  have old: "?xs ! i = double_lockout (Suc ?d) i (ls ! i)" if "i < ?d" for i
    using that by (simp add: nth_double_list nth_append)
  have last: "?xs ! ?d = lockout_new n"
    by (simp add: nth_double_list double_lockout_def lockout_new_def)
  have cnt: "count (?xs ! i) = (if ?d = i + count (ls ! i) then Suc (count (ls ! i)) else count (ls ! i))"
      and slot: "lo_slot (?xs ! i) = lo_slot (ls ! i)" if "i < ?d" for i
    using tower_okD(2) [OF ok that] len(2) that by (simp_all add: old count_double_lockout)
  have cases: "i < ?d \<or> i = ?d" if "i < length ?xs" for i
    using that len(1) by auto
  show ?thesis
  proof (rule tower_okI)
    show "length ?xs \<le> 31" using len by simp
    show "length ?xs \<le> i + count (?xs ! i)" "count (?xs ! i) \<le> 31" "unat (lo_slot (?xs ! i)) < 2 ^ 63"
      if "i < length ?xs" for i
      using cases [OF that] tower_okD(2-4) [OF ok, of i] cnt [of i] slot [of i] len n last
      by (auto simp: lockout_new_def)
    show "lo_slot (?xs ! i) < lo_slot (?xs ! j)" if "j < length ?xs" "i < j" for i j
      using cases [OF that(1)] tower_okD(5) [OF ok, of j i] slot [of i] slot [of j] last new [of i] that
      by (auto simp: lockout_new_def)
    show "count (?xs ! j) < count (?xs ! i)" if "j < length ?xs" "i < j" for i j
      using cases [OF that(1)] tower_okD(6) [OF ok, of j i] tower_okD(2) [OF ok, of i] tower_okD(2) [OF ok, of j]
        cnt [of i] cnt [of j] last that
      by (auto simp: lockout_new_def)
    show "lo_slot (?xs ! Suc i) \<le> last_locked_out_slot (?xs ! i)" if "Suc i < length ?xs" for i
    proof -
      have i: "i < ?d" using that len(1) by simp
      have "last_locked_out_slot (ls ! i) \<le> last_locked_out_slot (?xs ! i)"
        using tower_okD(3,4) [OF ok i] cnt [OF i] slot [OF i] len(2) tower_okD(2) [OF ok i]
        by (intro last_locked_out_mono) auto
      moreover have "lo_slot (?xs ! Suc i) \<le> last_locked_out_slot (ls ! i)"
      proof (cases "Suc i < ?d")
        case True
        then show ?thesis using tower_okD(7) [OF ok True] slot [OF True] by simp
      next
        case False
        then have "Suc i = ?d" using i by simp
        then have "ls \<noteq> []" by auto
        moreover from \<open>Suc i = ?d\<close> this have "last ls = ls ! i" by (simp add: last_conv_nth flip: \<open>Suc i = ?d\<close>)
        ultimately show ?thesis
          using lock last \<open>Suc i = ?d\<close> by (simp add: is_locked_out_at_slot_def lockout_new_def)
      qed
      ultimately show ?thesis by (rule order_trans [rotated])
    qed
  qed
qed

section \<open>A vote\<close>

text \<open>The whole state: the tower is in order, and the root is below it.\<close>

definition vote_wf :: "vote_state \<Rightarrow> bool" where
  "vote_wf vs \<longleftrightarrow> tower_ok (votes vs) \<and> (\<forall>r. root_slot vs = Some r \<longrightarrow> votes vs \<noteq> [] \<and> (\<forall>l\<in>set (votes vs). r < lo_slot l))"

lemma increment_credits_frame [simp]:
  "votes (increment_credits e vs) = votes vs" "root_slot (increment_credits e vs) = root_slot vs"
  "voters (increment_credits e vs) = voters vs" "last_timestamp (increment_credits e vs) = last_timestamp vs"
  by (simp_all add: increment_credits_def Let_def split: prod.splits)

lemma increment_credits_upd:
  "increment_credits e (vs\<lparr>root_slot := r\<rparr>) = (increment_credits e vs)\<lparr>root_slot := r\<rparr>"
  "increment_credits e (vs\<lparr>votes := x\<rparr>) = (increment_credits e vs)\<lparr>votes := x\<rparr>"
  by (simp_all add: increment_credits_def Let_def split: prod.splits)

lemma last_voted_slot_None: "last_voted_slot vs = None \<longleftrightarrow> votes vs = []"
  by (simp add: last_voted_slot_def last_lockout_def)

lemma last_voted_slot_Some: "last_voted_slot vs = Some l \<longleftrightarrow> votes vs \<noteq> [] \<and> l = lo_slot (last (votes vs))"
  by (auto simp: last_voted_slot_def last_lockout_def)

lemma slots_le_last:
  assumes "tower_ok ls" and "i < length ls"
  shows "lo_slot (ls ! i) \<le> lo_slot (last ls)"
proof (cases "i = length ls - 1")
  case False
  then have "i < length ls - 1" using assms(2) by simp
  then have "lo_slot (ls ! i) < lo_slot (ls ! (length ls - 1))"
    using tower_okD(5) [OF assms(1)] assms(2) by simp
  moreover have "ls \<noteq> []" using assms(2) by auto
  ultimately show ?thesis by (simp add: last_conv_nth)
next
  case True
  moreover have "ls \<noteq> []" using assms(2) by auto
  ultimately show ?thesis by (simp add: last_conv_nth)
qed

text \<open>
  The effect of a vote that is not ignored: the expired votes are popped, the oldest one becomes the
  root when the stack is full, the new vote is pushed and the lockouts are doubled.
\<close>

lemma process_next_vote_slot_cases [consumes 2, case_names push root]:
  assumes wf: "vote_wf vs" and new: "\<forall>l. last_voted_slot vs = Some l \<longrightarrow> l < n"
  obtains (push) p where "p \<le> length (votes vs)" and "p < 31"
      and "process_next_vote_slot n e vs = vs\<lparr>votes := double_list (take p (votes vs) @ [lockout_new n])\<rparr>"
      and "\<And>i. p \<le> i \<Longrightarrow> i < length (votes vs) \<Longrightarrow> \<not> is_locked_out_at_slot (votes vs ! i) n"
      and "0 < p \<Longrightarrow> is_locked_out_at_slot (votes vs ! (p - 1)) n"
    | (root) "length (votes vs) = 31"
      and "process_next_vote_slot n e vs =
        (increment_credits e (vs\<lparr>root_slot := Some (lo_slot (hd (votes vs)))\<rparr>))
          \<lparr>votes := double_list (tl (votes vs) @ [lockout_new n])\<rparr>"
      and "is_locked_out_at_slot (last (votes vs)) n"
proof -
  have ok: "tower_ok (votes vs)" using wf by (simp add: vote_wf_def)
  have go: "\<not> (case last_voted_slot vs of Some l \<Rightarrow> n \<le> l | None \<Rightarrow> False)"
    using new by (auto split: option.splits)
  obtain p where p: "p \<le> length (votes vs)" "pop_expired n (votes vs) = take p (votes vs)"
      "\<And>i. p \<le> i \<Longrightarrow> i < length (votes vs) \<Longrightarrow> \<not> is_locked_out_at_slot (votes vs ! i) n"
      "0 < p \<Longrightarrow> is_locked_out_at_slot (votes vs ! (p - 1)) n"
    using pop_expired_take [of "votes vs" n] by blast
  show thesis
  proof (cases "p = 31")
    case True
    then have l: "length (votes vs) = 31" using p(1) tower_okD(1) [OF ok] by simp
    then have "take p (votes vs) = votes vs" using True by simp
    then have "process_next_vote_slot n e vs =
        (increment_credits e (vs\<lparr>root_slot := Some (lo_slot (hd (votes vs)))\<rparr>))
          \<lparr>votes := double_list (tl (votes vs) @ [lockout_new n])\<rparr>"
      using go p(2) l
      by (simp add: process_next_vote_slot_def pop_expired_votes_def votes_double_lockouts MAX_LOCKOUT_HISTORY_def Let_def
          increment_credits_upd)
    moreover have "is_locked_out_at_slot (last (votes vs)) n"
    proof -
      have "votes vs \<noteq> []" using l by auto
      then have "last (votes vs) = votes vs ! (p - 1)" using l True by (simp add: last_conv_nth)
      then show ?thesis using p(4) True by simp
    qed
    ultimately show thesis using l by (intro root)
  next
    case False
    then have "p < 31" using p(1) tower_okD(1) [OF ok] by simp
    moreover have "process_next_vote_slot n e vs = vs\<lparr>votes := double_list (take p (votes vs) @ [lockout_new n])\<rparr>"
      using go p(1,2) \<open>p < 31\<close>
      by (simp add: process_next_vote_slot_def pop_expired_votes_def votes_double_lockouts MAX_LOCKOUT_HISTORY_def Let_def)
    ultimately show thesis using p by (intro push)
  qed
qed

lemma process_next_vote_slot_ignored:
  "last_voted_slot vs = Some l \<Longrightarrow> n \<le> l \<Longrightarrow> process_next_vote_slot n e vs = vs"
  by (simp add: process_next_vote_slot_def)

definition credits_ok :: "vote_state \<Rightarrow> bool" where
  "credits_ok vs \<longleftrightarrow> length (epoch_credits vs) \<le> 64 \<and> (\<forall>(ep, c, prev)\<in>set (epoch_credits vs). prev \<le> c)"

lemma vote_wfD:
  assumes "vote_wf vs"
  shows "tower_ok (votes vs)" and "root_slot vs = Some r \<Longrightarrow> i < length (votes vs) \<Longrightarrow> r < lo_slot (votes vs ! i)"
    and "root_slot vs = Some r \<Longrightarrow> votes vs \<noteq> []"
  using assms by (auto simp: vote_wf_def)

lemma vote_wfI:
  assumes "tower_ok (votes vs)"
    and "\<And>r i. root_slot vs = Some r \<Longrightarrow> i < length (votes vs) \<Longrightarrow> r < lo_slot (votes vs ! i)"
    and "votes vs \<noteq> []"
  shows "vote_wf vs"
  using assms by (auto simp: vote_wf_def in_set_conv_nth)

lemma nth_push:
  "i \<le> length ls \<Longrightarrow> lo_slot (double_list (ls @ [lockout_new n]) ! i) = (if i = length ls then n else lo_slot (ls ! i))"
  by (simp add: nth_double_list nth_append lockout_new_def)

lemma process_next_vote_slot_wf:
  assumes wf: "vote_wf vs" and n: "unat n < 2 ^ 63"
  shows "vote_wf (process_next_vote_slot n e vs)"
proof (cases "\<exists>l. last_voted_slot vs = Some l \<and> n \<le> l")
  case True
  then show ?thesis using wf process_next_vote_slot_ignored by metis
next
  case False
  then have new: "\<forall>l. last_voted_slot vs = Some l \<longrightarrow> l < n" by fastforce
  note ok = vote_wfD(1) [OF wf]
  have lt: "lo_slot (votes vs ! i) < n" if "i < length (votes vs)" for i
  proof -
    have "votes vs \<noteq> []" using that by auto
    then have "lo_slot (last (votes vs)) < n" using new last_voted_slot_Some by blast
    with slots_le_last [OF ok that] show ?thesis by simp
  qed
  from wf new show ?thesis
  proof (cases rule: process_next_vote_slot_cases [where e = e])
    case (push p)
    let ?ls = "take p (votes vs)"
    have "tower_ok (double_list (?ls @ [lockout_new n]))"
    proof (rule tower_ok_push)
      show "is_locked_out_at_slot (last ?ls) n" if "?ls \<noteq> []"
        using push(1,5) that by (auto simp: last_conv_nth min_def)
    qed (use ok push(1,2) n lt in \<open>auto simp: tower_ok_take\<close>)
    moreover have "r < lo_slot (double_list (?ls @ [lockout_new n]) ! i)" if r: "root_slot vs = Some r" and i: "i \<le> length ?ls" for r i
    proof -
      have "0 < length (votes vs)" using vote_wfD(3) [OF wf r] by simp
      from vote_wfD(2) [OF wf r this] lt [OF this] have "r < n" by simp
      then show ?thesis
        using i vote_wfD(2) [OF wf r, of i] push(1) by (cases "i = length ?ls") (auto simp: nth_push)
    qed
    ultimately show ?thesis
      using push(3) by (intro vote_wfI) (auto simp: less_Suc_eq_le)
  next
    case root
    let ?ls = "tl (votes vs)"
    have ne: "votes vs \<noteq> []" "?ls \<noteq> []" using root(1) by (auto simp flip: length_greater_0_conv)
    have "tower_ok (double_list (?ls @ [lockout_new n]))"
    proof (rule tower_ok_push)
      show "is_locked_out_at_slot (last ?ls) n" using root(3) ne by (simp add: last_tl)
      show "lo_slot (?ls ! i) < n" if "i < length ?ls" for i
        using lt [of "Suc i"] that by (simp add: nth_tl)
    qed (use ok root(1) n in \<open>auto simp: tower_ok_tl\<close>)
    moreover have "lo_slot (hd (votes vs)) < lo_slot (double_list (?ls @ [lockout_new n]) ! i)" if i: "i \<le> length ?ls" for i
      using i ne tower_okD(5) [OF ok, of "Suc i" 0] lt [of 0] root(1) by (auto simp: nth_push nth_tl hd_conv_nth)
    ultimately show ?thesis
      using root(2) by (intro vote_wfI) (auto simp: less_Suc_eq_le)
  qed
qed

lemma vote_state_default_wf: "vote_wf vote_state_default" "credits_ok vote_state_default"
  by (simp_all add: vote_wf_def credits_ok_def vote_state_default_def)

text \<open>A tower of two votes.\<close>

definition two_votes :: vote_state where
  "two_votes = process_next_vote_slot 6 0 (process_next_vote_slot 5 0 vote_state_default)"

lemma two_votes: "vote_wf two_votes"
    "votes two_votes = [\<lparr>lo_slot = 5, confirmation_count = 2\<rparr>, \<lparr>lo_slot = 6, confirmation_count = 1\<rparr>]"
    "root_slot two_votes = None" "epoch_credits two_votes = []"
proof -
  show "vote_wf two_votes"
    unfolding two_votes_def by (intro process_next_vote_slot_wf vote_state_default_wf) simp_all
qed code_simp+

section \<open>The tower of a vote as a proposed tower\<close>

lemma check_proposed_tower:
  assumes "tower_ok ls"
    and "\<And>r l. new_root = Some r \<Longrightarrow> l \<in> set ls \<Longrightarrow> r < lo_slot l"
    and "\<And>p. prev = Some p \<Longrightarrow> ls \<noteq> [] \<Longrightarrow> lo_slot p < lo_slot (hd ls) \<and> count (hd ls) < count p
           \<and> lo_slot (hd ls) \<le> last_locked_out_slot p"
  shows "check_proposed new_root prev ls = Ok ()"
  using assms
proof (induction new_root prev ls rule: check_proposed.induct)
  case (2 new_root prev v vs)
  have v: "0 < count v" "count v \<le> 31"
    using tower_okD(2,3) [OF "2.prems"(1), of 0] by auto
  have tl: "tower_ok vs" using tower_ok_tl [OF "2.prems"(1)] by simp
  have head: "lo_slot v < lo_slot (hd vs) \<and> count (hd vs) < count v \<and> lo_slot (hd vs) \<le> last_locked_out_slot v"
    if "vs \<noteq> []"
    using that tower_okD(5,6) [OF "2.prems"(1), of 1 0] tower_okD(7) [OF "2.prems"(1), of 0]
    by (simp add: hd_conv_nth)
  have rv: "\<not> (case new_root of Some r \<Rightarrow> lo_slot v \<le> r \<and> r \<noteq> 0 | None \<Rightarrow> False)"
    using "2.prems"(2) [of _ v] by (auto split: option.splits simp: not_le [symmetric])
  have pv: "(case prev of Some p \<Rightarrow>
             if lo_slot p \<ge> lo_slot v then Err SlotsNotOrdered
             else if confirmation_count p \<le> confirmation_count v then Err ConfirmationsNotOrdered
             else if lo_slot v > last_locked_out_slot p then Err NewVoteStateLockoutMismatch
             else Ok ()
         | None \<Rightarrow> Ok ()) = Ok ()"
    using "2.prems"(3) by (auto simp: word_le_nat_alt word_less_nat_alt split: option.splits)
  have cv: "confirmation_count v \<noteq> 0" "\<not> unat (confirmation_count v) > MAX_LOCKOUT_HISTORY"
    using v by (auto simp: MAX_LOCKOUT_HISTORY_def)
  have "check_proposed new_root (Some v) vs = Ok ()"
    by (rule "2.IH" [OF cv rv]) (use tl head "2.prems"(2) in auto)
  then show ?case
    by (simp only: check_proposed.simps cv rv pv if_False and_then.simps simp_thms)
qed simp

lemma check_conflicts_extends:
  assumes "list_all2 (\<lambda>c n. lo_slot c = lo_slot n \<and> confirmation_count c \<le> confirmation_count n) as bs"
    and "\<And>c. c \<in> set cs \<Longrightarrow> lo_slot c < lo_slot n \<and> last_locked_out_slot c < lo_slot n"
  shows "check_conflicts (as @ cs) (bs @ [n]) = Ok ()"
  using assms
proof (induction as bs rule: list_all2_induct)
  case Nil
  then show ?case
  proof (induction cs)
    case (Cons c cs)
    from Cons.prems [of c] show ?case using Cons by (simp add: not_le [symmetric])
  qed simp
qed auto

lemma double_push:
  assumes "length as < 31"
  obtains bs where "double_list (as @ [lockout_new n]) = bs @ [lockout_new n]"
    and "list_all2 (\<lambda>c b. lo_slot c = lo_slot b \<and> confirmation_count c \<le> confirmation_count b) as bs"
proof
  let ?bs = "map (\<lambda>(i, v). double_lockout (Suc (length as)) i v) (enumerate 0 as)"
  show "double_list (as @ [lockout_new n]) = ?bs @ [lockout_new n]"
    by (simp add: double_list_def enumerate_append_eq double_lockout_def lockout_new_def)
  show "list_all2 (\<lambda>c b. lo_slot c = lo_slot b \<and> confirmation_count c \<le> confirmation_count b) as ?bs"
    using assms by (auto simp: list_all2_conv_all_nth nth_enumerate_eq word_le_nat_alt count_double_lockout)
qed

lemma dropWhile_root:
  assumes "tower_ok ls" and "ls \<noteq> []"
  shows "dropWhile (\<lambda>c. lo_slot c \<le> lo_slot (hd ls)) ls = tl ls"
proof -
  obtain l ls' where ls: "ls = l # ls'" using assms(2) by (cases ls) auto
  have "lo_slot l < lo_slot (hd ls')" if "ls' \<noteq> []"
    using tower_okD(5) [OF assms(1), of 1 0] that by (simp add: ls hd_conv_nth)
  then show ?thesis by (cases ls') (auto simp: ls)
qed

text \<open>C14: The tower that a vote for one slot leads to is accepted when it is proposed as a whole, with the same
  resulting state: voting slot by slot and replacing the tower agree.\<close>

theorem vote_accepted_as_tower:
  assumes wf: "vote_wf vs" and n: "unat n < 2 ^ 63" and new: "\<forall>l. last_voted_slot vs = Some l \<longrightarrow> l < n"
  shows "process_new_vote_state vs (votes (process_next_vote_slot n e vs)) (root_slot (process_next_vote_slot n e vs)) None e
         = Ok (process_next_vote_slot n e vs)"
proof -
  let ?vs' = "process_next_vote_slot n e vs"
  note ok = vote_wfD(1) [OF wf]
  have wf': "vote_wf ?vs'" by (rule process_next_vote_slot_wf [OF wf n])
  note ok' = vote_wfD(1) [OF wf']
  have lt: "lo_slot (votes vs ! i) < n" if "i < length (votes vs)" for i
  proof -
    have "votes vs \<noteq> []" using that by auto
    then have "lo_slot (last (votes vs)) < n" using new last_voted_slot_Some by blast
    with slots_le_last [OF ok that] show ?thesis by simp
  qed
  have chk: "check_proposed (root_slot ?vs') None (votes ?vs') = Ok ()"
    using wf' by (intro check_proposed_tower [OF ok']) (auto simp: vote_wf_def)
  have len: "\<not> length (votes ?vs') > MAX_LOCKOUT_HISTORY"
    using tower_okD(1) [OF ok'] by (simp add: MAX_LOCKOUT_HISTORY_def)
  from wf new show ?thesis
  proof (cases rule: process_next_vote_slot_cases [where e = e])
    case (push p)
    let ?as = "take p (votes vs)"
    obtain bs where bs: "double_list (?as @ [lockout_new n]) = bs @ [lockout_new n]"
        "list_all2 (\<lambda>c b. lo_slot c = lo_slot b \<and> confirmation_count c \<le> confirmation_count b) ?as bs"
      by (rule double_push [of ?as n]) (use push(1,2) in auto)
    then have v: "votes ?vs' = bs @ [lockout_new n]" "root_slot ?vs' = root_slot vs" using push(3) by simp_all
    have "dropWhile (\<lambda>c. case root_slot vs of Some r \<Rightarrow> lo_slot c \<le> r | None \<Rightarrow> False) (votes vs) = votes vs"
      using vote_wfD(2) [OF wf, of _ 0]
      by (cases "votes vs") (auto split: option.splits simp: not_le [symmetric])
    moreover have "check_conflicts (?as @ drop p (votes vs)) (bs @ [lockout_new n]) = Ok ()"
    proof (rule check_conflicts_extends [OF bs(2)])
      fix c assume "c \<in> set (drop p (votes vs))"
      then obtain i where i: "p \<le> i" "i < length (votes vs)" "c = votes vs ! i"
        by (auto simp: in_set_conv_nth) (metis add.commute le_add1 less_diff_conv nth_drop add_leD2 less_imp_le)
      show "lo_slot c < lo_slot (lockout_new n) \<and> last_locked_out_slot c < lo_slot (lockout_new n)"
        using push(4) [OF i(1,2)] lt [OF i(2)] i(3) by (simp add: lockout_new_def is_locked_out_at_slot_def)
    qed
    ultimately show ?thesis
      using chk len v lt new push(3) list_all2_lengthD [OF bs(2)]
      by (auto simp: process_new_vote_state_def root_rolls_back_def lockout_new_def last_voted_slot_Some
          bs(1) split: option.splits)
  next
    case root
    let ?as = "tl (votes vs)"
    have ne: "votes vs \<noteq> []" using root(1) by auto
    obtain bs where bs: "double_list (?as @ [lockout_new n]) = bs @ [lockout_new n]"
        "list_all2 (\<lambda>c b. lo_slot c = lo_slot b \<and> confirmation_count c \<le> confirmation_count b) ?as bs"
      by (rule double_push [of ?as n]) (use root(1) in auto)
    then have v: "votes ?vs' = bs @ [lockout_new n]" "root_slot ?vs' = Some (lo_slot (hd (votes vs)))"
      using root(2) by simp_all
    have "check_conflicts (?as @ []) (bs @ [lockout_new n]) = Ok ()"
      by (rule check_conflicts_extends [OF bs(2)]) simp
    moreover have "r < lo_slot (hd (votes vs))" if "root_slot vs = Some r" for r
      using vote_wfD(2) [OF wf that, of 0] ne by (simp add: hd_conv_nth)
    moreover from this have "root_slot vs \<noteq> Some (lo_slot (hd (votes vs)))" by auto
    ultimately show ?thesis
      using chk len v new root(1,2) ne dropWhile_root [OF ok ne] list_all2_lengthD [OF bs(2)]
      by (auto simp: increment_credits_upd process_new_vote_state_def root_rolls_back_def lockout_new_def last_voted_slot_Some
          bs(1) split: option.splits)
  qed
qed

theorem vote_accepted_as_tower_witness:
  "process_new_vote_state two_votes (votes (process_next_vote_slot 9 1 two_votes)) None None 1
     = Ok (process_next_vote_slot 9 1 two_votes)
   \<and> votes (process_next_vote_slot 9 1 two_votes)
     = [\<lparr>lo_slot = 5, confirmation_count = 2\<rparr>, \<lparr>lo_slot = 9, confirmation_count = 1\<rparr>]"
proof -
  have "\<forall>l. last_voted_slot two_votes = Some l \<longrightarrow> l < 9"
    by (simp add: last_voted_slot_Some two_votes)
  moreover have "votes (process_next_vote_slot 9 1 two_votes)
     = [\<lparr>lo_slot = 5, confirmation_count = 2\<rparr>, \<lparr>lo_slot = 9, confirmation_count = 1\<rparr>]"
    and "root_slot (process_next_vote_slot 9 1 two_votes) = None"
    by code_simp+
  ultimately show ?thesis
    using vote_accepted_as_tower [OF two_votes(1), of 9 1] by simp
qed

section \<open>Lockouts bind\<close>

text \<open>C12: A vote never drops an earlier vote that is still locked out at its slot: the earlier vote stays in the
  tower, with at least the confirmations it had, or becomes the root.\<close>

theorem lockout_respected:
  assumes wf: "vote_wf vs" and new: "\<forall>l. last_voted_slot vs = Some l \<longrightarrow> l < n"
    and v: "v \<in> set (votes vs)" and locked: "is_locked_out_at_slot v n"
  shows "(\<exists>v'\<in>set (votes (process_next_vote_slot n e vs)). lo_slot v' = lo_slot v \<and> confirmation_count v \<le> confirmation_count v')
       \<or> root_slot (process_next_vote_slot n e vs) = Some (lo_slot v)"
  using wf new
proof (cases rule: process_next_vote_slot_cases [where e = e])
  case (push p)
  let ?as = "take p (votes vs)"
  obtain bs where bs: "double_list (?as @ [lockout_new n]) = bs @ [lockout_new n]"
      "list_all2 (\<lambda>c b. lo_slot c = lo_slot b \<and> confirmation_count c \<le> confirmation_count b) ?as bs"
    by (rule double_push [of ?as n]) (use push(1,2) in auto)
  obtain i where i: "i < length (votes vs)" "v = votes vs ! i" using v by (auto simp: in_set_conv_nth)
  then have "i < p" using push(4) [of i] locked not_le by blast
  then have "bs ! i \<in> set bs" "lo_slot v = lo_slot (bs ! i) \<and> confirmation_count v \<le> confirmation_count (bs ! i)"
    using bs(2) i push(1) by (auto simp: list_all2_conv_all_nth)
  then show ?thesis using push(3) bs(1) by auto
next
  case root
  let ?as = "tl (votes vs)"
  obtain bs where bs: "double_list (?as @ [lockout_new n]) = bs @ [lockout_new n]"
      "list_all2 (\<lambda>c b. lo_slot c = lo_slot b \<and> confirmation_count c \<le> confirmation_count b) ?as bs"
    by (rule double_push [of ?as n]) (use root(1) in auto)
  show ?thesis
  proof (cases "v \<in> set ?as")
    case True
    then obtain i where "i < length ?as" "v = ?as ! i" unfolding in_set_conv_nth by blast
    then have "bs ! i \<in> set bs" "lo_slot v = lo_slot (bs ! i) \<and> confirmation_count v \<le> confirmation_count (bs ! i)"
      using bs(2) by (auto simp: list_all2_conv_all_nth)
    then show ?thesis using root(2) bs(1) by auto
  next
    case False
    then have "v = hd (votes vs)" using v by (cases "votes vs") auto
    then show ?thesis using root(2) by simp
  qed
qed

theorem lockout_respected_witness:
  "\<exists>v'\<in>set (votes (process_next_vote_slot 9 1 two_votes)). lo_slot v' = 5 \<and> 2 \<le> confirmation_count v'"
proof -
  have new: "\<forall>l. last_voted_slot two_votes = Some l \<longrightarrow> l < 9"
    by (simp add: last_voted_slot_Some two_votes)
  have "\<lparr>lo_slot = 5, confirmation_count = 2\<rparr> \<in> set (votes two_votes)" by (simp add: two_votes)
  moreover have "is_locked_out_at_slot \<lparr>lo_slot = 5, confirmation_count = 2\<rparr> 9" by code_simp
  moreover have "root_slot (process_next_vote_slot 9 1 two_votes) = None" by code_simp
  ultimately show ?thesis
    using lockout_respected [OF two_votes(1) new, of "\<lparr>lo_slot = 5, confirmation_count = 2\<rparr>" 1] by simp
qed

section \<open>Proposed towers\<close>

definition chained :: "lockout \<Rightarrow> lockout \<Rightarrow> bool" where
  "chained a b \<longleftrightarrow> lo_slot a < lo_slot b \<and> confirmation_count b < confirmation_count a \<and> lo_slot b \<le> last_locked_out_slot a"

lemma check_proposed_Ok:
  assumes "check_proposed new_root prev ls = Ok ()"
  shows "successively chained (case prev of Some p \<Rightarrow> p # ls | None \<Rightarrow> ls)
    \<and> (\<forall>l\<in>set ls. 0 < count l \<and> count l \<le> 31 \<and> (\<forall>r. new_root = Some r \<longrightarrow> r < lo_slot l \<or> r = 0))"
  using assms
proof (induction new_root prev ls rule: check_proposed.induct)
  case (1 new_root prev)
  then show ?case by (cases prev) auto
next
  case (2 new_root prev v vs)
  from "2.prems" have c: "confirmation_count v \<noteq> 0" "\<not> unat (confirmation_count v) > MAX_LOCKOUT_HISTORY"
      "\<not> (case new_root of Some r \<Rightarrow> lo_slot v \<le> r \<and> r \<noteq> 0 | None \<Rightarrow> False)"
    and rest: "check_proposed new_root (Some v) vs = Ok ()"
    and p: "\<And>p. prev = Some p \<Longrightarrow> chained p v"
    by (auto simp: chained_def ok_simps split: if_splits option.splits)
  note ih = "2.IH" [OF c rest]
  have "0 < count v" "count v \<le> 31" using c by (auto simp: MAX_LOCKOUT_HISTORY_def unat_gt_0)
  moreover have "r < lo_slot v \<or> r = 0" if "new_root = Some r" for r
    using c(3) that by (auto simp: not_le)
  ultimately show ?case
    using ih p by (cases prev) auto
qed

lemma chained_sorted: "successively chained ls \<Longrightarrow> sorted_wrt (\<lambda>a b. lo_slot a < lo_slot b) ls"
proof (induction ls rule: induct_list012)
  case (3 a b ls)
  then show ?case by (auto simp: chained_def)
qed auto

lemma sorted_last:
  "sorted_wrt (\<lambda>a b. lo_slot a < lo_slot b) (n # ns) \<Longrightarrow> lo_slot n < lo_slot (c :: lockout) \<Longrightarrow> lo_slot c < lo_slot (last (n # ns)) \<Longrightarrow> ns \<noteq> []"
  by auto

lemma check_conflicts_sound:
  assumes "check_conflicts cs ns = Ok ()"
    and "sorted_wrt (\<lambda>a b. lo_slot a < lo_slot b) cs" and "sorted_wrt (\<lambda>a b. lo_slot a < lo_slot b) ns"
    and "c \<in> set cs" and "ns \<noteq> []" and "lo_slot c < lo_slot (last ns)"
  shows "(\<exists>n\<in>set ns. lo_slot n = lo_slot c \<and> confirmation_count c \<le> confirmation_count n)
       \<or> (\<exists>n\<in>set ns. last_locked_out_slot c < lo_slot n \<and> (\<forall>m\<in>set ns. lo_slot c < lo_slot m \<longrightarrow> lo_slot n \<le> lo_slot m))"
  using assms
proof (induction cs ns rule: check_conflicts.induct)
  case (1 d cs n ns)
  have ge: "lo_slot d \<le> lo_slot c" using "1.prems"(2,4) by auto
  consider (less) "lo_slot d < lo_slot n" | (eq) "lo_slot d = lo_slot n" | (greater) "lo_slot n < lo_slot d"
    by fastforce
  then show ?case
  proof cases
    case less
    then have l: "\<not> last_locked_out_slot d \<ge> lo_slot n" "check_conflicts cs (n # ns) = Ok ()"
      using "1.prems"(1) by (auto split: if_splits)
    show ?thesis
    proof (cases "c = d")
      case True
      then show ?thesis using l(1) less "1.prems"(3) by (auto simp: not_le)
    next
      case False
      then show ?thesis using "1.IH"(1) [OF less l] "1.prems"(2-6) by simp
    qed
  next
    case eq
    then have e: "\<not> lo_slot d < lo_slot n" "\<not> confirmation_count n < confirmation_count d" "check_conflicts cs ns = Ok ()"
      using "1.prems"(1) by (auto split: if_splits)
    show ?thesis
    proof (cases "c = d")
      case True
      then show ?thesis using eq e(2) by (auto simp: not_less)
    next
      case False
      then have c: "c \<in> set cs" "lo_slot n < lo_slot c" using "1.prems"(2,4) eq by auto
      then have ns: "ns \<noteq> []" using sorted_last "1.prems"(3,6) by blast
      have ih: "(\<exists>n\<in>set ns. lo_slot n = lo_slot c \<and> confirmation_count c \<le> confirmation_count n)
         \<or> (\<exists>n\<in>set ns. last_locked_out_slot c < lo_slot n \<and> (\<forall>m\<in>set ns. lo_slot c < lo_slot m \<longrightarrow> lo_slot n \<le> lo_slot m))"
        using "1.IH"(2) [OF e(1) eq e(2,3)] "1.prems"(2,3,6) c ns by simp
      with c(2) show ?thesis by auto
    qed
  next
    case greater
    then have g: "\<not> lo_slot d < lo_slot n" "lo_slot d \<noteq> lo_slot n" "check_conflicts (d # cs) ns = Ok ()"
      using "1.prems"(1) by (auto split: if_splits)
    have lt: "lo_slot n < lo_slot c" using greater ge by simp
    then have ns: "ns \<noteq> []" using sorted_last "1.prems"(3,6) by blast
    have ih: "(\<exists>n\<in>set ns. lo_slot n = lo_slot c \<and> confirmation_count c \<le> confirmation_count n)
       \<or> (\<exists>n\<in>set ns. last_locked_out_slot c < lo_slot n \<and> (\<forall>m\<in>set ns. lo_slot c < lo_slot m \<longrightarrow> lo_slot n \<le> lo_slot m))"
      using "1.IH"(3) [OF g] "1.prems"(2-6) ns by simp
    with lt show ?thesis by auto
  qed
qed auto

text \<open>C13: When a proposed tower is accepted, its slots ascend, its confirmations descend from at most 31 to at
  least 1, each vote was cast within the lockout of the one before, and nothing is rolled back: the
  root does not decrease, and every current vote above the new root is kept with at least its
  confirmations or its lockout ended before the first greater slot of the new tower.\<close>

theorem proposed_tower_no_rollback:
  assumes "process_new_vote_state vs new_state new_root timestamp e = Ok vs'" and "vote_wf vs"
  shows "votes vs' = new_state \<and> root_slot vs' = new_root \<and> successively chained new_state
    \<and> (\<forall>l\<in>set new_state. 0 < count l \<and> count l \<le> 31) \<and> length new_state \<le> 31
    \<and> (\<forall>r. root_slot vs = Some r \<longrightarrow> (\<exists>r'. new_root = Some r' \<and> r \<le> r'))
    \<and> (\<forall>c\<in>set (votes vs). (\<exists>r. new_root = Some r \<and> lo_slot c \<le> r)
         \<or> (\<exists>n\<in>set new_state. lo_slot n = lo_slot c \<and> confirmation_count c \<le> confirmation_count n)
         \<or> (\<exists>n\<in>set new_state. last_locked_out_slot c < lo_slot n
              \<and> (\<forall>m\<in>set new_state. lo_slot c < lo_slot m \<longrightarrow> lo_slot n \<le> lo_slot m)))"
proof -
  let ?drop = "dropWhile (\<lambda>c. case new_root of Some r \<Rightarrow> lo_slot c \<le> r | None \<Rightarrow> False) (votes vs)"
  from assms(1) have ne: "new_state \<noteq> []" and len: "length new_state \<le> 31"
    and last: "votes vs \<noteq> [] \<Longrightarrow> lo_slot (last (votes vs)) < lo_slot (last new_state)"
    and root: "\<not> root_rolls_back new_root (root_slot vs)"
    and chk: "check_proposed new_root None new_state = Ok ()" "check_conflicts ?drop new_state = Ok ()"
    and res: "votes vs' = new_state" "root_slot vs' = new_root"
    by (auto simp: process_new_vote_state_def ok_simps Let_def MAX_LOCKOUT_HISTORY_def process_timestamp_def
        split: if_splits option.splits)
  have shape: "successively chained new_state" "\<forall>l\<in>set new_state. 0 < count l \<and> count l \<le> 31"
    using check_proposed_Ok [OF chk(1)] by auto
  have ok: "tower_ok (votes vs)" using assms(2) by (rule vote_wfD)
  then have sorted: "sorted_wrt (\<lambda>a b. lo_slot a < lo_slot b) (votes vs)"
    using tower_okD(5) by (simp add: sorted_wrt_iff_nth_less)
  then have sd: "sorted_wrt (\<lambda>a b. lo_slot a < lo_slot b) ?drop"
    by (metis sorted_wrt_append takeWhile_dropWhile_id)
  have "(\<exists>r. new_root = Some r \<and> lo_slot c \<le> r)
         \<or> (\<exists>n\<in>set new_state. lo_slot n = lo_slot c \<and> confirmation_count c \<le> confirmation_count n)
         \<or> (\<exists>n\<in>set new_state. last_locked_out_slot c < lo_slot n
              \<and> (\<forall>m\<in>set new_state. lo_slot c < lo_slot m \<longrightarrow> lo_slot n \<le> lo_slot m))" if c: "c \<in> set (votes vs)" for c
  proof (cases "c \<in> set ?drop")
    case True
    have "votes vs \<noteq> []" using c by auto
    moreover have "lo_slot c \<le> lo_slot (last (votes vs))"
      using c slots_le_last [OF ok] by (auto simp: in_set_conv_nth)
    ultimately have "lo_slot c < lo_slot (last new_state)" using last by fastforce
    then show ?thesis
      using check_conflicts_sound [OF chk(2) sd chained_sorted [OF shape(1)] True ne] by blast
  next
    case False
    then have "c \<in> set (takeWhile (\<lambda>c. case new_root of Some r \<Rightarrow> lo_slot c \<le> r | None \<Rightarrow> False) (votes vs))"
      using c by (metis UnE set_append takeWhile_dropWhile_id)
    then show ?thesis by (auto dest!: set_takeWhileD split: option.splits)
  qed
  moreover have "\<exists>r'. new_root = Some r' \<and> r \<le> r'" if "root_slot vs = Some r" for r
    using root that by (auto simp: root_rolls_back_def split: option.splits)
  ultimately show ?thesis using res shape len by blast
qed

theorem proposed_tower_no_rollback_witness:
  "\<exists>vs'. process_new_vote_state two_votes [\<lparr>lo_slot = 5, confirmation_count = 3\<rparr>, \<lparr>lo_slot = 10, confirmation_count = 1\<rparr>] None None 1
       = Ok vs'
     \<and> successively chained (votes vs')
     \<and> (\<exists>n\<in>set (votes vs'). last_locked_out_slot \<lparr>lo_slot = 6, confirmation_count = 1\<rparr> < lo_slot n)"
proof -
  let ?new = "[\<lparr>lo_slot = 5, confirmation_count = 3\<rparr>, \<lparr>lo_slot = 10, confirmation_count = 1\<rparr>]"
  have "is_ok (process_new_vote_state two_votes ?new None None 1)" by code_simp
  then obtain vs' where run: "process_new_vote_state two_votes ?new None None 1 = Ok vs'"
    by (auto simp: is_ok_iff)
  show ?thesis
    using proposed_tower_no_rollback [OF run two_votes(1)] run by (auto simp: two_votes)
qed

section \<open>Votes with several slots\<close>

lemma process_vote_wf:
  assumes "process_vote vs v slot_hashes e = Ok vs'" and "vote_wf vs" and "\<forall>s\<in>set (vt_slots v). unat s < 2 ^ 63"
  shows "vote_wf vs'"
proof -
  have "vote_wf (fold (\<lambda>s. process_next_vote_slot s e) slots vs)" if "\<forall>s\<in>set slots. unat s < 2 ^ 63" "vote_wf vs" for slots vs
    using that by (induction slots arbitrary: vs) (simp_all add: process_next_vote_slot_wf)
  with assms show ?thesis by (auto simp: process_vote_def ok_simps split: if_splits)
qed

text \<open>C11: A vote that is accepted keeps the tower in order: at most 31 votes with ascending slots and descending
  confirmations, each within the lockout of the one before and confirmed at least as often as there
  are votes on top of it, and the root below all of them.\<close>

theorem vote_keeps_tower:
  assumes "process_vote vs v slot_hashes e = Ok vs'" and "vote_wf vs" and "\<forall>s\<in>set (vt_slots v). unat s < 2 ^ 63"
  shows "vote_wf vs'"
  using assms by (rule process_vote_wf)

theorem vote_keeps_tower_witness:
  "\<exists>vs'. process_vote two_votes (vote_new [7, 9] 4) [(9, 4), (8, 3), (7, 2), (6, 1)] 1 = Ok vs' \<and> vote_wf vs'
     \<and> map lo_slot (votes vs') = [5, 6, 7, 9]"
proof -
  obtain vs' where run: "process_vote two_votes (vote_new [7, 9] 4) [(9, 4), (8, 3), (7, 2), (6, 1)] 1 = Ok vs'"
      "map lo_slot (votes vs') = [5, 6, 7, 9]"
  proof
    let ?vs = "fold (\<lambda>s. process_next_vote_slot s 1) [7, 9] two_votes"
    show "process_vote two_votes (vote_new [7, 9] 4) [(9, 4), (8, 3), (7, 2), (6, 1)] 1 = Ok ?vs" by code_simp
    show "map lo_slot (votes ?vs) = [5, 6, 7, 9]" by code_simp
  qed
  from vote_keeps_tower [OF run(1) two_votes(1)] run show ?thesis by (simp add: vote_new_def)
qed

section \<open>Credits\<close>

lemma increment_credits_effect:
  assumes "credits_ok vs" and "unat (credits vs) < 2 ^ 64 - 1"
  shows "credits_ok (increment_credits e vs) \<and> credits (increment_credits e vs) = credits vs + 1
    \<and> current_epoch (increment_credits e vs) = e"
proof (cases "epoch_credits vs" rule: rev_cases)
  case Nil
  then show ?thesis
    by (simp add: increment_credits_def credits_ok_def credits_def current_epoch_def)
next
  case (snoc xs x)
  obtain le c p where x: "x = (le, c, p)" by (cases x) auto
  have c: "credits vs = c" and p: "p \<le> c" and len: "length xs \<le> 63" and xs: "\<forall>(ep, c, prev)\<in>set xs. prev \<le> c"
    using assms(1) snoc x by (auto simp: credits_def credits_ok_def)
  have "unat (c + 1) = unat c + 1"
    using assms(2) c by (simp add: unat_word_ariths)
  then have le: "c \<le> c + 1" "p \<le> c + 1" using p by (simp_all add: word_le_nat_alt)
  have tl: "\<forall>(ep, c, prev)\<in>set (tl xs). prev \<le> c" using xs by (cases xs) auto
  show ?thesis
    using snoc x c p len xs le tl
    by (auto simp: increment_credits_def credits_ok_def credits_def current_epoch_def MAX_EPOCH_CREDITS_HISTORY_def
        Let_def butlast_append tl_append split: list.splits if_splits)
qed

text \<open>A vote earns one credit exactly when it sets a new root, recorded under the epoch of the vote, and the
  history of credits never holds more than 64 epochs.\<close>

theorem credit_per_root:
  assumes "vote_wf vs" and "credits_ok vs" and "unat (credits vs) < 2 ^ 64 - 1"
    and "vs' = process_next_vote_slot n e vs"
  shows "credits_ok vs'
    \<and> (if root_slot vs' = root_slot vs then credits vs' = credits vs
       else credits vs' = credits vs + 1 \<and> current_epoch vs' = e \<and> root_slot vs' = Some (lo_slot (hd (votes vs))))"
proof (cases "\<exists>l. last_voted_slot vs = Some l \<and> n \<le> l")
  case True
  then show ?thesis using assms(2,4) process_next_vote_slot_ignored by metis
next
  case False
  then have new: "\<forall>l. last_voted_slot vs = Some l \<longrightarrow> l < n" by fastforce
  have frame: "credits_ok (vs\<lparr>votes := x\<rparr>) = credits_ok vs" "credits (vs\<lparr>votes := x\<rparr>) = credits vs"
      "current_epoch (vs\<lparr>votes := x\<rparr>) = current_epoch vs" for vs x
    by (simp_all add: credits_ok_def credits_def current_epoch_def)
  from assms(1) new show ?thesis
  proof (cases rule: process_next_vote_slot_cases [where e = e])
    case (push p)
    then show ?thesis using assms(2,4) by (simp add: frame)
  next
    case root
    have "credits_ok (vs\<lparr>root_slot := r\<rparr>) = credits_ok vs" "credits (vs\<lparr>root_slot := r\<rparr>) = credits vs" for r
      by (simp_all add: credits_ok_def credits_def)
    moreover have "root_slot vs \<noteq> Some (lo_slot (hd (votes vs)))"
      using vote_wfD(2) [OF assms(1), of _ 0] root(1) by (cases "votes vs") auto
    ultimately show ?thesis
      using root(2) assms(2-4) increment_credits_effect [of "vs\<lparr>root_slot := Some (lo_slot (hd (votes vs)))\<rparr>" e]
      by (simp add: frame)
  qed
qed

theorem credit_per_root_witness:
  "credits (process_next_vote_slot 9 1 two_votes) = 0 \<and> credits_ok (process_next_vote_slot 9 1 two_votes)"
proof -
  have c: "credits_ok two_votes" "credits two_votes = 0" by (simp_all add: credits_ok_def credits_def two_votes)
  have "root_slot (process_next_vote_slot 9 1 two_votes) = root_slot two_votes" by code_simp
  with credit_per_root [OF two_votes(1) c(1) _ refl, of 9 1] c(2) show ?thesis by simp
qed

section \<open>Commission\<close>

text \<open>The split of a reward by the commission never pays out more than the reward and loses at most one
  lamport to rounding, none when it is not split.\<close>

theorem commission_split_bounds:
  "case commission_split vs on of (mine, theirs, was_split) \<Rightarrow>
     unat mine + unat theirs \<le> unat on \<and> unat on \<le> unat mine + unat theirs + (if was_split then 1 else 0)"
proof -
  let ?s = "min (commission vs) 100"
  have s: "unat ?s \<le> 100" by (simp add: word_le_nat_alt min_def)
  have on: "unat on < 2 ^ 64" using unsigned_less [of on] by simp
  have up: "unat (ucast on :: u128) = unat on"
    using on by (simp add: unsigned_ucast_eq take_bit_nat_eq_self)
  have prod: "unat ((ucast on :: u128) * ucast x div 100) = unat on * unat x div 100" if "unat x \<le> 100" for x :: u8
  proof -
    have "unat (ucast x :: u128) = unat x"
      using that by (simp add: unsigned_ucast_eq take_bit_nat_eq_self)
    moreover have "unat on * unat x < 2 ^ 128"
    proof -
      have "unat on * unat x \<le> 2 ^ 64 * 100" using on that by (intro mult_mono) simp_all
      then show ?thesis by simp
    qed
    ultimately show ?thesis using up by (simp add: unat_div unat_word_ariths)
  qed
  have down: "unat (ucast y :: u64) = unat y" if "unat y \<le> unat on" for y :: u128
    using that on by (simp add: unsigned_ucast_eq take_bit_nat_eq_self)
  have part: "unat on * k div 100 \<le> unat on" if "k \<le> 100" for k
    using that by (metis div_le_mono mult_le_mono2 nonzero_mult_div_cancel_right zero_neq_numeral)
  have rest: "unat (100 - ?s) = 100 - unat ?s" using s by (simp add: unat_sub word_le_nat_alt)
  have sum: "a * k div 100 + a * (100 - k) div 100 \<le> a \<and> a \<le> a * k div 100 + a * (100 - k) div 100 + 1" if "k \<le> 100" for a k :: nat
  proof -
    have "a * k + a * (100 - k) = a * 100" using that by (simp flip: distrib_left)
    then show ?thesis by linarith
  qed
  show ?thesis
    using s rest prod [of ?s] prod [of "100 - ?s"] sum [OF s, of "unat on"] part [OF s] part [of "100 - unat ?s"]
    by (auto simp: commission_split_def Let_def down)
qed

end
