(* ===== verification/Vote_Checks.thy ===== *)
theory Vote_Checks
  imports Vote_State
begin

text \<open>
  The checks of a vote against the slot hashes, the history of authorized voters, the ring of prior
  voters and the timestamps.
\<close>

section \<open>Slots and hashes\<close>

text \<open>
  Slot hashes are sorted from the newest to the oldest slot, the slots of a vote from the oldest to the
  newest. \<open>new_slots\<close> are those after the last vote.
\<close>

definition new_slots :: "slot option \<Rightarrow> slot list \<Rightarrow> slot list" where
  "new_slots last_slot slots = dropWhile (\<lambda>s. case last_slot of Some l \<Rightarrow> s \<le> l | None \<Rightarrow> False) slots"

lemma slots_loop_stop: "\<not> (i < length slots \<and> 0 < j) \<Longrightarrow> slots_loop last_slot slots hs i j = (i, j)"
  by (simp only: slots_loop.simps [of last_slot slots hs i j] if_False)

lemma keys_take:
  assumes "0 < j" and "j \<le> length hs" and "sorted_wrt (>) (map fst hs)"
  shows "fst ` set (take j hs) = insert (fst (hs ! (j - 1))) (fst ` set (take (j - 1) hs))"
    and "k \<in> fst ` set (take (j - 1) hs) \<Longrightarrow> fst (hs ! (j - 1)) < k"
proof -
  have t: "take j hs = take (j - 1) hs @ [hs ! (j - 1)]"
    using assms(1,2) take_Suc_conv_app_nth [of "j - 1" hs] by simp
  then show "fst ` set (take j hs) = insert (fst (hs ! (j - 1))) (fst ` set (take (j - 1) hs))" by simp
  have "sorted_wrt (>) (map fst (take j hs))" using assms(3) by (simp add: sorted_wrt_take flip: take_map)
  then show "fst (hs ! (j - 1)) < k" if "k \<in> fst ` set (take (j - 1) hs)"
    using that by (auto simp: t sorted_wrt_append)
qed

text \<open>From the first new slot on, the loop matches every remaining slot with its hash, if all have one.\<close>

lemma slots_loop_match:
  assumes "j \<le> length hs" and "i \<le> length slots" and "sorted_wrt (<) slots" and "sorted_wrt (>) (map fst hs)"
    and "\<forall>l. last_slot = Some l \<longrightarrow> i < length slots \<longrightarrow> l < slots ! i"
    and "slots_loop last_slot slots hs i j = (i', j')"
  shows "(i' = length slots \<longleftrightarrow> set (drop i slots) \<subseteq> fst ` set (take j hs))
    \<and> j' \<le> j \<and> (i < length slots \<longrightarrow> 0 < j \<longrightarrow> j' < j) \<and> (i' = length slots \<longrightarrow> i < length slots \<longrightarrow> fst (hs ! j') = last slots)"
  using assms
proof (induction last_slot slots hs i j rule: slots_loop.induct)
  case (1 last_slot slots hs i j)
  show ?case
  proof (cases "i < length slots \<and> 0 < j")
    case False
    then have "i' = i" "j' = j" using "1.prems"(6) slots_loop_stop by auto
    then show ?thesis using False "1.prems"(2) by auto
  next
    case True
    then have i: "i < length slots" and j: "0 < j" by simp_all
    have new: "\<not> (case last_slot of Some l \<Rightarrow> slots ! i \<le> l | None \<Rightarrow> False)"
      using "1.prems"(5) i by (auto simp: not_le split: option.splits)
    let ?k = "fst (hs ! (j - 1))"
    note keys = keys_take [OF j "1.prems"(1,4)]
    have d: "set (drop i slots) = insert (slots ! i) (set (drop (i + 1) slots))"
      using i by (simp flip: Cons_nth_drop_Suc)
    have "sorted_wrt (<) (drop i slots)" using "1.prems"(3) by (rule sorted_wrt_drop)
    then have gt: "slots ! i < s" if "s \<in> set (drop (i + 1) slots)" for s
      using that i by (simp flip: Cons_nth_drop_Suc)
    show ?thesis
    proof (cases "slots ! i = ?k")
      case False
      then have run: "slots_loop last_slot slots hs i (j - 1) = (i', j')"
        using "1.prems"(6) True new by (simp add: slots_loop.simps [of last_slot slots hs i j])
      note ih = "1.IH"(2) [OF True new False _ _ "1.prems"(3-5) run]
      have "set (drop i slots) \<subseteq> fst ` set (take j hs) \<longleftrightarrow> set (drop i slots) \<subseteq> fst ` set (take (j - 1) hs)"
      proof
        assume sub: "set (drop i slots) \<subseteq> fst ` set (take j hs)"
        then have "slots ! i \<in> fst ` set (take (j - 1) hs)" using keys(1) d False by auto
        then have "?k < slots ! i" by (rule keys(2))
        then have "?k \<notin> set (drop i slots)" unfolding d using gt [of ?k] by auto
        with sub show "set (drop i slots) \<subseteq> fst ` set (take (j - 1) hs)" using keys(1) by auto
      qed (use keys(1) in auto)
      moreover have "j - 1 \<le> length hs" using "1.prems"(1) by simp
      ultimately show ?thesis using ih [OF _ "1.prems"(2)] j by auto
    next
      case eq: True
      then have run: "slots_loop last_slot slots hs (i + 1) (j - 1) = (i', j')"
        using "1.prems"(6) True new by (simp add: slots_loop.simps [of last_slot slots hs i j])
      have nxt: "\<forall>l. last_slot = Some l \<longrightarrow> i + 1 < length slots \<longrightarrow> l < slots ! (i + 1)"
        using "1.prems"(3,5) i by (auto simp: sorted_wrt_iff_nth_less intro: less_trans)
      note ih = "1.IH"(3) [OF True new _ _ _ "1.prems"(3,4) nxt run]
      have sub: "set (drop i slots) \<subseteq> fst ` set (take j hs) \<longleftrightarrow> set (drop (i + 1) slots) \<subseteq> fst ` set (take (j - 1) hs)"
        unfolding keys(1) d eq using gt eq by (auto dest!: gt)
      show ?thesis
      proof (cases "i + 1 < length slots")
        case True
        moreover have "j - 1 \<le> length hs" using "1.prems"(1) by simp
        ultimately show ?thesis using ih eq sub i j by auto
      next
        case False
        then have l: "i + 1 = length slots" using i by simp
        then have "i' = i + 1" "j' = j - 1" using run slots_loop_stop [of "i + 1" slots "j - 1"] by auto
        moreover have "slots ! i = last slots" using l by (metis add_diff_cancel_right' last_conv_nth length_0_conv i not_less_zero)
        ultimately show ?thesis using sub l eq j by auto
      qed
    qed
  qed
qed

lemma slots_loop_skip:
  assumes "0 < j" and "i \<le> i0" and "i0 \<le> length slots"
    and "\<And>k. i \<le> k \<Longrightarrow> k < i0 \<Longrightarrow> (case last_slot of Some l \<Rightarrow> slots ! k \<le> l | None \<Rightarrow> False)"
  shows "slots_loop last_slot slots hs i j = slots_loop last_slot slots hs i0 j"
  using assms(2-)
proof (induction "i0 - i" arbitrary: i)
  case (Suc d)
  have old: "case last_slot of Some l \<Rightarrow> slots ! i \<le> l | None \<Rightarrow> False" and i: "i < length slots"
    using Suc.prems(3) [of i] Suc.hyps(2) Suc.prems(2) by simp_all
  have "slots_loop last_slot slots hs i j = slots_loop last_slot slots hs (i + 1) j"
    by (subst slots_loop.simps) (simp add: old i assms(1))
  also have "\<dots> = slots_loop last_slot slots hs i0 j"
    by (rule Suc.hyps(1)) (use Suc.hyps(2) Suc.prems in simp_all)
  finally show ?case .
qed simp

text \<open>C15: With sorted inputs, the check of a vote accepts it exactly when it has a slot after the last vote, all
  those slots are in the slot hashes, and the hash of the vote is that of its last slot.\<close>

theorem check_slots_exact:
  assumes "sorted_wrt (<) (vt_slots v)" and "sorted_wrt (>) (map fst slot_hashes)"
  shows "check_slots_are_valid vs v slot_hashes = Ok () \<longleftrightarrow>
    (let ns = new_slots (last_voted_slot vs) (vt_slots v)
     in ns \<noteq> [] \<and> set ns \<subseteq> fst ` set slot_hashes \<and> map_of slot_hashes (last ns) = Some (vt_hash v))"
proof -
  let ?old = "\<lambda>s. case last_voted_slot vs of Some l \<Rightarrow> s \<le> l | None \<Rightarrow> False"
  let ?slots = "vt_slots v" and ?n = "length slot_hashes"
  let ?ns = "new_slots (last_voted_slot vs) ?slots"
  define i0 where "i0 = length (takeWhile ?old ?slots)"
  have i0: "i0 \<le> length ?slots" by (simp add: i0_def length_takeWhile_le)
  have ns: "?ns = drop i0 ?slots" by (simp add: new_slots_def i0_def dropWhile_eq_drop)
  show ?thesis
  proof (cases "slot_hashes = []")
    case True
    then show ?thesis by (simp add: check_slots_are_valid_def slots_loop_stop Let_def)
  next
    case False
    then have n: "0 < ?n" by simp
    obtain i' j' where run: "slots_loop (last_voted_slot vs) ?slots slot_hashes i0 ?n = (i', j')" by fastforce
    have "?old (?slots ! k)" if "k < i0" for k
      using that nth_mem [of k "takeWhile ?old ?slots"] takeWhile_nth [of k ?old ?slots] set_takeWhileD
      unfolding i0_def by metis
    then have start: "slots_loop (last_voted_slot vs) ?slots slot_hashes 0 ?n = (i', j')"
      using slots_loop_skip [OF n, of 0 i0 ?slots "last_voted_slot vs" slot_hashes] i0 run by simp
    have first: "\<forall>l. last_voted_slot vs = Some l \<longrightarrow> i0 < length ?slots \<longrightarrow> l < ?slots ! i0"
      using nth_length_takeWhile [of ?old ?slots] by (auto simp: i0_def not_le)
    note m = slots_loop_match [OF order_refl i0 assms first run]
    show ?thesis
    proof (cases "i0 < length ?slots")
      case False
      then have "i' = i0" "j' = ?n" using run slots_loop_stop by auto
      then show ?thesis using False by (simp add: check_slots_are_valid_def start ns Let_def)
    next
      case True
      then have j': "j' < ?n" and sub: "i' = length ?slots \<longleftrightarrow> set ?ns \<subseteq> fst ` set slot_hashes"
        and hit: "i' = length ?slots \<Longrightarrow> fst (slot_hashes ! j') = last ?slots"
        using m n by (auto simp: ns)
      have l: "last ?ns = last ?slots" "?ns \<noteq> []" using True by (auto simp: ns)
      have "distinct (map fst slot_hashes)"
        using assms(2) by (induction slot_hashes) (auto dest: order_less_asym)
      then have "map_of slot_hashes (last ?slots) = Some (snd (slot_hashes ! j'))" if "i' = length ?slots"
        using hit [OF that] j' by (metis map_of_is_SomeI nth_mem prod.collapse)
      with j' sub l show ?thesis
        by (auto simp: check_slots_are_valid_def start Let_def)
    qed
  qed
qed

theorem check_slots_exact_witness:
  "check_slots_are_valid (vote_state_default\<lparr>votes := [lockout_new 5]\<rparr>) (vote_new [5, 7, 9] 4) [(9, 4), (8, 3), (7, 2)] = Ok ()
   \<and> new_slots (Some 5) [5, 7, 9] = [7, 9]"
proof -
  let ?vs = "vote_state_default\<lparr>votes := [lockout_new 5]\<rparr>" and ?h = "[(9, 4), (8, 3), (7, 2)] :: (slot \<times> hash_value) list"
  have "sorted_wrt (<) (vt_slots (vote_new [5, 7, 9] 4))" "sorted_wrt (>) (map fst ?h)"
    by (simp_all add: vote_new_def)
  moreover have "last_voted_slot ?vs = Some 5"
    by (simp add: last_voted_slot_def last_lockout_def lockout_new_def)
  moreover have "new_slots (Some 5) [5, 7, 9] = [7, 9 :: slot]" by (simp add: new_slots_def)
  ultimately show ?thesis
    using check_slots_exact [of "vote_new [5, 7, 9] 4" ?h ?vs] by (simp add: vote_new_def)
qed

section \<open>Authorized voters\<close>

definition voters_ok :: "vote_state \<Rightarrow> bool" where
  "voters_ok vs \<longleftrightarrow> bt_invar (voters vs)"

lemma av_get_char:
  assumes "bt_invar av"
  shows "av_get_authorized_voter e av = Some k \<longleftrightarrow>
    (\<exists>i\<le>e. bt_get av i = Some k \<and> (\<forall>j. i < j \<longrightarrow> j \<le> e \<longrightarrow> bt_get av j = None))"
proof (cases "bt_get av e")
  case (Some v)
  then show ?thesis
    by (auto simp: av_get_authorized_voter_def get_or_calculate_authorized_voter_for_epoch_def)
      (metis Some order.not_eq_order_implies_strict option.distinct(1) option.inject order_refl)
next
  case None
  show ?thesis
  proof (cases "bt_last (bt_below e av)")
    case N: None
    then have "\<forall>j<e. bt_get av j = None" using bt.greatest_below_None [OF assms] by blast
    with None N show ?thesis
      by (auto simp: av_get_authorized_voter_def get_or_calculate_authorized_voter_for_epoch_def)
         (metis le_neq_trans option.distinct(1))
  next
    case (Some p)
    obtain i v where p: "p = (i, v)" by fastforce
    note g = bt.greatest_below [OF assms Some [unfolded p]]
    have "av_get_authorized_voter e av = Some v"
      using None Some p by (simp add: av_get_authorized_voter_def get_or_calculate_authorized_voter_for_epoch_def)
    moreover have "(\<exists>i\<le>e. bt_get av i = Some k \<and> (\<forall>j. i < j \<longrightarrow> j \<le> e \<longrightarrow> bt_get av j = None)) \<longleftrightarrow> k = v"
    proof
      assume "\<exists>i\<le>e. bt_get av i = Some k \<and> (\<forall>j. i < j \<longrightarrow> j \<le> e \<longrightarrow> bt_get av j = None)"
      then obtain i' where i': "i' \<le> e" "bt_get av i' = Some k" "\<forall>j. i' < j \<longrightarrow> j \<le> e \<longrightarrow> bt_get av j = None" by blast
      then have "i' < e" using None by (metis le_neq_trans option.distinct(1))
      then have "i' \<le> i" using g(3) i'(2) by simp
      moreover have "\<not> i' < i" using i'(3) g(1,2) by auto
      ultimately show "k = v" using i'(2) g(2) by simp
    next
      assume "k = v"
      then show "\<exists>i\<le>e. bt_get av i = Some k \<and> (\<forall>j. i < j \<longrightarrow> j \<le> e \<longrightarrow> bt_get av j = None)"
        using g None by (intro exI [of _ i]) (metis le_neq_trans less_imp_le not_le)
    qed
    ultimately show ?thesis by auto
  qed
qed

text \<open>The voter of an epoch depends only on the entries up to that epoch.\<close>

lemma av_get_cong:
  assumes "bt_invar av" and "bt_invar av'" and "c \<le> e" and "av_get_authorized_voter c av = bt_get av' c" and "bt_get av' c \<noteq> None"
    and "\<And>j. c < j \<Longrightarrow> j \<le> e \<Longrightarrow> bt_get av' j = bt_get av j"
  shows "av_get_authorized_voter e av' = av_get_authorized_voter e av"
proof -
  obtain k where k: "bt_get av' c = Some k" using assms(5) by blast
  then obtain i0 where i0: "i0 \<le> c" "bt_get av i0 = Some k" "\<And>j. i0 < j \<Longrightarrow> j \<le> c \<Longrightarrow> bt_get av j = None"
    using assms(4) av_get_char [OF assms(1)] by auto
  have "av_get_authorized_voter e av' = Some x \<longleftrightarrow> av_get_authorized_voter e av = Some x" for x
  proof (cases "\<exists>j. c < j \<and> j \<le> e \<and> bt_get av j \<noteq> None")
    case True
    then obtain j where j: "c < j" "j \<le> e" "bt_get av j \<noteq> None" by blast
    have "(i \<le> e \<and> bt_get av' i = Some x \<and> (\<forall>j. i < j \<longrightarrow> j \<le> e \<longrightarrow> bt_get av' j = None))
      \<longleftrightarrow> (i \<le> e \<and> bt_get av i = Some x \<and> (\<forall>j. i < j \<longrightarrow> j \<le> e \<longrightarrow> bt_get av j = None))" for i
    proof (cases "i \<le> c")
      case True
      then have "i < j" using j(1) by (rule le_less_trans)
      then have "\<not> (\<forall>j. i < j \<longrightarrow> j \<le> e \<longrightarrow> bt_get av' j = None)" "\<not> (\<forall>j. i < j \<longrightarrow> j \<le> e \<longrightarrow> bt_get av j = None)"
        using j assms(6) [OF j(1,2)] by auto
      then show ?thesis by (simp only: simp_thms)
    next
      case False
      then have eq: "bt_get av' j = bt_get av j" if "i \<le> j" "j \<le> e" for j using assms(6) that by simp
      show ?thesis by (intro conj_cong refl all_cong1 imp_cong) (simp_all add: eq)
    qed
    then show ?thesis unfolding av_get_char [OF assms(1)] av_get_char [OF assms(2)] by (simp only:)
  next
    case False
    then have none: "bt_get av j = None" "bt_get av' j = None" if "c < j" "j \<le> e" for j
      using that assms(6) by auto
    have "av_get_authorized_voter e av' = Some k"
      unfolding av_get_char [OF assms(2)] using k none(2) assms(3) by (intro exI [of _ c]) simp
    moreover have "av_get_authorized_voter e av = Some k"
      unfolding av_get_char [OF assms(1)]
    proof (intro exI [of _ i0] conjI allI impI)
      fix j assume "i0 < j" "j \<le> e"
      then show "bt_get av j = None" using i0(3) none(1) by (cases "j \<le> c") simp_all
    qed (use i0(1,2) assms(3) in simp_all)
    ultimately show ?thesis by simp
  qed
  then show ?thesis by (metis not_Some_eq)
qed

lemma fold_remove:
  "bt_get (fold bt_remove ks av) j = (if j \<in> set ks then None else bt_get av j)"
  "bt_invar av \<Longrightarrow> bt_invar (fold bt_remove ks av)"
  by (induction ks arbitrary: av) (auto simp: bt_get_remove bt_invar_remove)

lemma purge_Ok:
  assumes "purge_authorized_voters e av = Ok av'" and "bt_invar av"
  shows "bt_get av' j = (if j < e then None else bt_get av j)" and "bt_invar av'"
proof -
  have av': "av' = fold bt_remove (map fst (bt_below e av)) av"
    using assms(1) by (auto simp: purge_authorized_voters_def Let_def split: if_splits)
  have "j \<in> set (map fst (bt_below e av)) \<longleftrightarrow> bt_get (bt_below e av) j \<noteq> None" by (auto simp: map_of_eq_None_iff)
  then show "bt_get av' j = (if j < e then None else bt_get av j)"
    using bt_get_below [OF assms(2)] by (auto simp: av' fold_remove split: if_splits)
  show "bt_invar av'" using assms(2) by (simp add: av' fold_remove)
qed

lemma get_and_update_Ok:
  assumes "get_and_update_authorized_voter vs c = Ok (k, vs')" and "voters_ok vs"
  shows "get_authorized_voter vs c = Some k" and "voters_ok vs'"
    and "bt_get (voters vs') j = (if j < c then None else if j = c then Some k else bt_get (voters vs) j)"
    and "vs' = vs\<lparr>voters := voters vs'\<rparr>"
proof -
  from assms(1) obtain existed where
    g: "get_or_calculate_authorized_voter_for_epoch c (voters vs) = Some (k, existed)"
    by (auto simp: get_and_update_authorized_voter_def get_and_cache_authorized_voter_for_epoch_def ok_simps)
  define av where av: "av = (if \<not> existed then bt_insert c k (voters vs) else voters vs)"
  have run: "and_then (purge_authorized_voters c av :: authorized_voters ix_result) (\<lambda>av. Ok (k, vs\<lparr>voters := av\<rparr>)) = Ok (k, vs')"
    using assms(1) by (simp add: get_and_update_authorized_voter_def get_and_cache_authorized_voter_for_epoch_def
        ok_simps g av [symmetric])
  then obtain av' where p: "(purge_authorized_voters c av :: authorized_voters ix_result) = Ok av'" by (auto simp: ok_simps)
  have vs': "vs' = vs\<lparr>voters := av'\<rparr>" using run by (simp add: p)
  have inv: "bt_invar (voters vs)" using assms(2) by (simp add: voters_ok_def)
  have e: "existed \<longleftrightarrow> bt_get (voters vs) c = Some k" "\<not> existed \<longleftrightarrow> bt_get (voters vs) c = None"
    using g by (auto simp: get_or_calculate_authorized_voter_for_epoch_def split: option.splits)
  have inv': "bt_invar av" and get: "bt_get av j = (if j = c then Some k else bt_get (voters vs) j)" for j
    using inv e by (auto simp: av bt_invar_insert bt_get_insert)
  show "get_authorized_voter vs c = Some k"
    using g by (simp add: get_authorized_voter_def av_get_authorized_voter_def)
  show "voters_ok vs'" using purge_Ok(2) [OF p inv'] by (simp add: voters_ok_def vs')
  show "bt_get (voters vs') j = (if j < c then None else if j = c then Some k else bt_get (voters vs) j)"
    using purge_Ok(1) [OF p inv'] get by (auto simp: vs')
  show "vs' = vs\<lparr>voters := voters vs'\<rparr>" by (simp add: vs')
qed

lemma get_and_update_same_voters:
  assumes "get_and_update_authorized_voter vs c = Ok (k, vs')" and "voters_ok vs" and "c \<le> e"
  shows "get_authorized_voter vs' e = get_authorized_voter vs e"
  unfolding get_authorized_voter_def
  using get_and_update_Ok [OF assms(1,2)] assms(2,3)
  by (intro av_get_cong [where c = c]) (auto simp: voters_ok_def get_authorized_voter_def)

text \<open>C16: Setting a new authorized voter is confirmed by the voter of the current epoch, changes nobody's
  authority before the target epoch, takes effect at the target epoch, and cannot be repeated for it.\<close>

theorem reauthorize_voter:
  assumes "set_new_authorized_voter vs k current target verify = Ok vs'" and "voters_ok vs" and "current < target"
  shows "(\<exists>v. get_authorized_voter vs current = Some v \<and> verify v = Ok ())
    \<and> (\<forall>e. current \<le> e \<longrightarrow> e < target \<longrightarrow> get_authorized_voter vs' e = get_authorized_voter vs e)
    \<and> get_authorized_voter vs' target = Some k \<and> voters_ok vs'
    \<and> (\<forall>k' c verify' vs''. c \<le> target \<longrightarrow> set_new_authorized_voter vs' k' c target verify' \<noteq> Ok vs'')"
proof -
  from assms(1) obtain v vs1 where g: "get_and_update_authorized_voter vs current = Ok (v, vs1)"
      and ver: "verify v = Ok ()" and free: "bt_get (voters vs1) target = None"
      and vs': "voters vs' = bt_insert target k (voters vs1)"
    unfolding set_new_authorized_voter_def Let_def
    by (elim ok_elims) (auto simp: ok_simps split: if_splits)
  note u = get_and_update_Ok [OF g assms(2)]
  have inv: "bt_invar (voters vs1)" "bt_invar (voters vs')"
    using u(2) by (simp_all add: voters_ok_def vs' bt_invar_insert)
  have get: "bt_get (voters vs') j = (if j = target then Some k else bt_get (voters vs1) j)" for j
    using inv by (simp add: vs' bt_get_insert)
  have before: "get_authorized_voter vs' e = get_authorized_voter vs e" if "current \<le> e" "e < target" for e
  proof -
    have c: "bt_get (voters vs1) current = Some v" using u(3) [of current] by simp
    have "av_get_authorized_voter e (voters vs') = av_get_authorized_voter e (voters vs1)"
    proof (rule av_get_cong [OF inv that(1)])
      show "av_get_authorized_voter current (voters vs1) = bt_get (voters vs') current"
        using c get [of current] less_imp_neq [OF assms(3)]
        by (simp add: av_get_authorized_voter_def get_or_calculate_authorized_voter_for_epoch_def)
    qed (use get c assms(3) that(2) in auto)
    then show ?thesis
      using get_and_update_same_voters [OF g assms(2) that(1)] by (simp add: get_authorized_voter_def)
  qed
  have again: "set_new_authorized_voter vs' k' c target verify' \<noteq> Ok vs''" if "c \<le> target" for k' c verify' vs''
  proof
    assume "set_new_authorized_voter vs' k' c target verify' = Ok vs''"
    then obtain w vs2 where "get_and_update_authorized_voter vs' c = Ok (w, vs2)" "bt_get (voters vs2) target = None"
      unfolding set_new_authorized_voter_def Let_def by (elim ok_elims) (auto simp: ok_simps)
    with get_and_update_Ok(3) [of vs' c w vs2 target] inv(2) get [of target] that show False
      by (auto simp: voters_ok_def split: if_splits)
  qed
  have "get_authorized_voter vs' target = Some k"
    using get [of target] by (simp add: get_authorized_voter_def av_get_authorized_voter_def
        get_or_calculate_authorized_voter_for_epoch_def)
  with u(1) ver before again inv(2) show ?thesis by (auto simp: voters_ok_def)
qed

theorem reauthorize_voter_witness:
  "\<exists>vs'. set_new_authorized_voter (vote_state_default\<lparr>voters := [(3, 7)]\<rparr>) 8 4 6 (\<lambda>v. if v = 7 then Ok () else Err GenericError) = Ok vs'
     \<and> get_authorized_voter vs' 5 = Some 7 \<and> get_authorized_voter vs' 6 = Some 8"
proof -
  let ?vs = "vote_state_default\<lparr>voters := [(3, 7)]\<rparr>" and ?ver = "\<lambda>v. if v = 7 then Ok () else Err GenericError"
  have "is_ok (set_new_authorized_voter ?vs 8 4 6 ?ver)" by code_simp
  then obtain vs' where run: "set_new_authorized_voter ?vs 8 4 6 ?ver = Ok vs'"
    by (auto simp: is_ok_iff)
  have "voters_ok ?vs" by (simp add: voters_ok_def bt_invar_def)
  moreover have "get_authorized_voter ?vs 5 = Some 7" by code_simp
  ultimately show ?thesis
    using reauthorize_voter [OF run] run by auto
qed

section \<open>The ring of prior voters\<close>

text \<open>The ring in order: the items from the oldest slot to the one written last.\<close>

definition circ_buf_ok :: "'a circ_buf \<Rightarrow> bool" where
  "circ_buf_ok b \<longleftrightarrow> length (cb_buf b) = MAX_ITEMS \<and> cb_idx b < MAX_ITEMS"

definition circ_buf_items :: "'a circ_buf \<Rightarrow> 'a list" where
  "circ_buf_items b = drop (Suc (cb_idx b)) (cb_buf b) @ take (Suc (cb_idx b)) (cb_buf b)"

text \<open>The ring of prior voters keeps the last 32 entries: appending drops the oldest one and makes the new
  one the last.\<close>

theorem circ_buf_append_items:
  assumes "circ_buf_ok b"
  shows "circ_buf_ok (circ_buf_append x b) \<and> circ_buf_items (circ_buf_append x b) = tl (circ_buf_items b) @ [x]
    \<and> circ_buf_last (circ_buf_append x b) = Some x"
proof -
  have len: "length (cb_buf b) = 32" and i: "cb_idx b < 32" using assms by (simp_all add: circ_buf_ok_def MAX_ITEMS_def)
  show ?thesis
  proof (cases "cb_idx b = 31")
    case True
    obtain y ys where "cb_buf b = y # ys" using len by (cases "cb_buf b") auto
    then show ?thesis
      using True len by (simp add: circ_buf_append_def circ_buf_items_def circ_buf_last_def circ_buf_ok_def MAX_ITEMS_def Let_def)
  next
    case False
    then have m: "(cb_idx b + 1) mod 32 = Suc (cb_idx b)" and lt: "Suc (cb_idx b) < length (cb_buf b)"
      using i len by auto
    show ?thesis
      using m lt len
      by (simp add: circ_buf_append_def circ_buf_items_def circ_buf_last_def circ_buf_ok_def MAX_ITEMS_def Let_def
          take_Suc_conv_app_nth drop_update_cancel take_update_cancel flip: Cons_nth_drop_Suc)
  qed
qed

theorem circ_buf_append_items_witness:
  "circ_buf_items (circ_buf_append (7 :: nat) (circ_buf_default 0)) = replicate 31 0 @ [7]"
proof -
  have "circ_buf_ok (circ_buf_default (0 :: nat))" by (simp add: circ_buf_ok_def circ_buf_default_def MAX_ITEMS_def)
  moreover have "tl (circ_buf_items (circ_buf_default (0 :: nat))) = replicate 31 0"
    by code_simp
  ultimately show ?thesis using circ_buf_append_items [of "circ_buf_default 0" "7 :: nat"] by simp
qed

section \<open>Timestamps\<close>

text \<open>Accepted vote timestamps never go back in slot or in time, and a slot other than 0 has one timestamp.\<close>

theorem timestamps_monotone:
  assumes "process_timestamp s t vs = Ok vs'"
  shows "bt_slot (last_timestamp vs) \<le> bt_slot (last_timestamp vs')
    \<and> sint (bt_timestamp (last_timestamp vs)) \<le> sint (bt_timestamp (last_timestamp vs'))
    \<and> (bt_slot (last_timestamp vs') = bt_slot (last_timestamp vs) \<longrightarrow> bt_slot (last_timestamp vs) \<noteq> 0
        \<longrightarrow> last_timestamp vs' = last_timestamp vs)
    \<and> last_timestamp vs' = \<lparr>bt_slot = s, bt_timestamp = t\<rparr>
    \<and> vs'\<lparr>last_timestamp := last_timestamp vs\<rparr> = vs"
  using assms by (auto simp: process_timestamp_def Let_def not_less split: if_splits)

theorem timestamps_monotone_witness:
  "\<exists>vs'. process_timestamp 5 9 vote_state_default = Ok vs' \<and> last_timestamp vs' = \<lparr>bt_slot = 5, bt_timestamp = 9\<rparr>"
proof -
  have "is_ok (process_timestamp 5 9 vote_state_default)" by code_simp
  then obtain vs' where "process_timestamp 5 9 vote_state_default = Ok vs'" by (auto simp: is_ok_iff)
  with timestamps_monotone [OF this] show ?thesis by blast
qed

end
