(* ===== verification/Sdk_Builder.thy ===== *)
theory Sdk_Builder
  imports Sdk_Message Sdk_Sysvar
begin

text \<open>
  Instructions with bincode data (\<open>sdk/program/src/instruction.rs\<close>) and the keyed accounts a program sees
  when it is called with the accounts of an instruction.
\<close>

definition new_with_bincode :: "pubkey \<Rightarrow> 'a bincode \<Rightarrow> 'a \<Rightarrow> account_meta list \<Rightarrow> instruction ix_result" where
  "new_with_bincode program_id bc x metas =
     (case bc_serialize bc x of
        Some bs \<Rightarrow> Ok \<lparr>ix_program_id = program_id, ix_accounts = metas, ix_data = bs\<rparr>
      | None \<Rightarrow> Panic)"

definition keyed_of_meta :: "account_meta \<Rightarrow> keyed_account" where
  "keyed_of_meta m = \<lparr>is_signer = am_is_signer m, is_writable = am_is_writable m, unsigned_key = am_pubkey m\<rparr>"

text \<open>The limit that \<open>limited_deserialize\<close> of \<open>sdk/src/program_utils.rs\<close> puts on instruction data.\<close>

definition PACKET_DATA_SIZE :: nat where "PACKET_DATA_SIZE = 1232"

lemma get_signers_Cons:
  "get_signers (\<lparr>is_signer = b, is_writable = w, unsigned_key = x\<rparr> # kas) = (if b then insert x (get_signers kas) else get_signers kas)"
  "get_signers [] = {}"
  by (simp_all add: get_signers_def map_filter_def signer_key_def)

lemma keyed_of_meta_new [simp]:
  "keyed_of_meta (meta_new k b) = \<lparr>is_signer = b, is_writable = True, unsigned_key = k\<rparr>"
  "keyed_of_meta (meta_new_readonly k b) = \<lparr>is_signer = b, is_writable = False, unsigned_key = k\<rparr>"
  by (simp_all add: keyed_of_meta_def meta_new_def meta_new_readonly_def)

lemma new_with_bincode_Ok:
  assumes "new_with_bincode program_id bc x metas = Ok ix"
  shows "ix_program_id ix = program_id" and "ix_accounts ix = metas" and "bc_serialize bc x = Some (ix_data ix)"
  using assms by (auto simp: new_with_bincode_def split: option.splits)

lemma bincode_ok_data: "bincode_ok bc \<Longrightarrow> bc_serialize bc x = Some bs \<Longrightarrow> bc_deserialize bc bs = Some x"
  unfolding bincode_ok_def using append_Nil2 by metis

section \<open>A format for finitely many values\<close>

text \<open>One byte that gives the position of the value in a list: an instance of the format parameter.\<close>

fun index_of :: "'a list \<Rightarrow> 'a \<Rightarrow> nat option" where
  "index_of [] x = None"
| "index_of (y # ys) x = (if y = x then Some 0 else map_option Suc (index_of ys x))"

definition table_format :: "'a list \<Rightarrow> 'a bincode" where
  "table_format xs =
     \<lparr>bc_serialize = (\<lambda>x. map_option (\<lambda>i. [of_nat i]) (index_of xs x)),
      bc_deserialize = (\<lambda>bs. case bs of b # _ \<Rightarrow> if unat b < length xs then Some (xs ! unat b) else None | [] \<Rightarrow> None)\<rparr>"

lemma index_of_Some: "index_of xs x = Some i \<Longrightarrow> i < length xs \<and> xs ! i = x"
  by (induction xs arbitrary: i) (auto split: if_splits)

lemma bincode_ok_table: "length xs \<le> 256 \<Longrightarrow> bincode_ok (table_format xs)"
  by (auto simp: bincode_ok_def table_format_def unat_of_nat dest!: index_of_Some)

end
