(* ===== verification/Vote_Program.thy ===== *)
theory Vote_Program
  imports Vote_State Sdk_Builder
begin

text \<open>
  The vote program: the functions of \<open>programs/vote/src/vote_state/mod.rs\<close> that work on accounts, the builders
  of its instructions and its entry point (\<open>vote_instruction.rs\<close>). The formats of the external
  \<open>bincode\<close> crate are collected in \<open>vote_formats\<close> (\<open>limited_deserialize\<close> stops after
  the bytes of a packet); \<open>new_rand\<close> are the random keys that only serve to
  measure the largest vote state.
\<close>

section \<open>Versioned states\<close>

datatype vote_state_versions = Current vote_state

definition new_current :: "vote_state \<Rightarrow> vote_state_versions" where
  "new_current vs = Current vs"

fun convert_to_current :: "vote_state_versions \<Rightarrow> vote_state" where
  "convert_to_current (Current vs) = vs"

fun is_uninitialized :: "vote_state_versions \<Rightarrow> bool" where
  "is_uninitialized (Current vs) \<longleftrightarrow> voters vs = []"

datatype vote_instruction =
    InitializeAccount vote_init
  | Authorize pubkey vote_authorize
  | Vote vote
  | Withdraw u64
  | UpdateValidatorIdentity
  | UpdateCommission u8
  | VoteSwitch vote hash_value
  | AuthorizeChecked vote_authorize

record vote_formats =
  state_format :: "vote_state_versions bincode"
  vote_ix_format :: "vote_instruction bincode"
  vote_ix_limited_deserialize :: "u8 list \<Rightarrow> vote_instruction option"
  clock_format :: "clock bincode"
  new_rand :: "u64 \<Rightarrow> pubkey"

definition get_max_sized_vote_state :: "(u64 \<Rightarrow> pubkey) \<Rightarrow> vote_state" where
  "get_max_sized_vote_state rand =
     vote_state_default\<lparr>
       votes := replicate MAX_LOCKOUT_HISTORY \<lparr>lo_slot = 0, confirmation_count = 0\<rparr>,
       root_slot := Some (- 1),
       epoch_credits := replicate MAX_EPOCH_CREDITS_HISTORY (0, 0, 0),
       voters := fold (\<lambda>i. bt_insert (of_nat i) (rand (of_nat i))) [0..<Suc (unat MAX_LEADER_SCHEDULE_EPOCH_OFFSET)] []\<rparr>"

definition vote_state_size_of :: "vote_formats \<Rightarrow> ('e, nat) result" where
  "vote_state_size_of vf =
     (case bc_serialize (state_format vf) (new_current (get_max_sized_vote_state (new_rand vf))) of
        Some bs \<Rightarrow> Ok (length bs)
      | None \<Rightarrow> Panic)"

definition get_rent_exempt_reserve :: "vote_formats \<Rightarrow> rent \<Rightarrow> ('e, u64) result" where
  "get_rent_exempt_reserve vf r = and_then (vote_state_size_of vf) (\<lambda>n. Ok (minimum_balance r n))"

definition vote_state_deserialize :: "vote_formats \<Rightarrow> u8 list \<Rightarrow> vote_state ix_result" where
  "vote_state_deserialize vf input =
     (case bc_deserialize (state_format vf) input of
        Some v \<Rightarrow> Ok (convert_to_current v)
      | None \<Rightarrow> Err InvalidAccountData)"

definition credits_from :: "vote_formats \<Rightarrow> account \<Rightarrow> u64 option" where
  "credits_from vf a =
     (case vote_state_deserialize vf (data a) of Ok vs \<Rightarrow> Some (credits vs) | Err _ \<Rightarrow> None | Panic \<Rightarrow> None)"

section \<open>Operations on the account\<close>

definition verify_authorized_signer :: "pubkey \<Rightarrow> pubkey set \<Rightarrow> unit ix_result" where
  "verify_authorized_signer authorized signers =
     (if authorized \<in> signers then Ok () else Err MissingRequiredSignature)"

definition get_vote_state :: "vote_formats \<Rightarrow> store \<Rightarrow> keyed_account \<Rightarrow> vote_state ix_result" where
  "get_vote_state vf s ka = and_then (ka_state (state_format vf) s ka) (\<lambda>v. Ok (convert_to_current v))"

definition put_vote_state :: "vote_formats \<Rightarrow> store \<Rightarrow> keyed_account \<Rightarrow> vote_state \<Rightarrow> store ix_result" where
  "put_vote_state vf s ka vs = ka_set_state (state_format vf) s ka (new_current vs)"

definition authorize_vote ::
  "vote_formats \<Rightarrow> bool \<Rightarrow> store \<Rightarrow> keyed_account \<Rightarrow> pubkey \<Rightarrow> vote_authorize \<Rightarrow> pubkey set \<Rightarrow> clock \<Rightarrow> store ix_result" where
  "authorize_vote vf withdrawer_may_change s vote_account authorized va signers clk =
     and_then (get_vote_state vf s vote_account) (\<lambda>vs.
     and_then (case va of
         Voter \<Rightarrow>
           let authorized_withdrawer_signer =
                 withdrawer_may_change \<and> is_ok (verify_authorized_signer (authorized_withdrawer vs) signers)
           in set_new_authorized_voter vs authorized (clk_epoch clk) (leader_schedule_epoch clk + 1)
                (\<lambda>epoch_authorized_voter.
                   if authorized_withdrawer_signer then Ok ()
                   else verify_authorized_signer epoch_authorized_voter signers)
       | Withdrawer \<Rightarrow>
           and_then (verify_authorized_signer (authorized_withdrawer vs) signers) (\<lambda>_.
           Ok (vs\<lparr>authorized_withdrawer := authorized\<rparr>))) (\<lambda>vs.
     put_vote_state vf s vote_account vs))"

definition update_validator_identity :: "vote_formats \<Rightarrow> store \<Rightarrow> keyed_account \<Rightarrow> pubkey \<Rightarrow> pubkey set \<Rightarrow> store ix_result" where
  "update_validator_identity vf s vote_account node signers =
     and_then (get_vote_state vf s vote_account) (\<lambda>vs.
     and_then (verify_authorized_signer (authorized_withdrawer vs) signers) (\<lambda>_.
     and_then (verify_authorized_signer node signers) (\<lambda>_.
     put_vote_state vf s vote_account (vs\<lparr>node_pubkey := node\<rparr>))))"

definition update_commission :: "vote_formats \<Rightarrow> store \<Rightarrow> keyed_account \<Rightarrow> u8 \<Rightarrow> pubkey set \<Rightarrow> store ix_result" where
  "update_commission vf s vote_account c signers =
     and_then (get_vote_state vf s vote_account) (\<lambda>vs.
     and_then (verify_authorized_signer (authorized_withdrawer vs) signers) (\<lambda>_.
     put_vote_state vf s vote_account (vs\<lparr>commission := c\<rparr>)))"

definition withdraw_vote ::
  "vote_formats \<Rightarrow> store \<Rightarrow> keyed_account \<Rightarrow> u64 \<Rightarrow> keyed_account \<Rightarrow> pubkey set \<Rightarrow> rent option \<Rightarrow> clock option
   \<Rightarrow> store ix_result" where
  "withdraw_vote vf s vote_account amount to_account signers rent_sysvar clk =
     and_then (get_vote_state vf s vote_account) (\<lambda>vs.
     and_then (verify_authorized_signer (authorized_withdrawer vs) signers) (\<lambda>_.
     and_then (ok_or InsufficientFunds (checked_sub (ka_lamports s vote_account) amount)) (\<lambda>remaining_balance.
     and_then
       (if remaining_balance = 0
        then let reject_active_vote_account_close =
                   (case (clk, epoch_credits vs) of
                      (Some c, _ # _) \<Rightarrow> saturating_sub (clk_epoch c) (fst (last (epoch_credits vs))) < 2
                    | _ \<Rightarrow> False)
             in if reject_active_vote_account_close then Err ActiveVoteAccountClose
                else put_vote_state vf s vote_account vote_state_default
        else case rent_sysvar of
               Some r \<Rightarrow> if remaining_balance < minimum_balance r (ka_data_len s vote_account) then Err InsufficientFunds else Ok s
             | None \<Rightarrow> Ok s) (\<lambda>s.
     and_then (map_err lamports_error_into (checked_sub_lamports amount (cell s vote_account))) (\<lambda>a.
     let s = update_cell s vote_account (\<lambda>_. a) in
     and_then (map_err lamports_error_into (checked_add_lamports amount (cell s to_account))) (\<lambda>a.
     Ok (update_cell s to_account (\<lambda>_. a))))))))"

definition initialize_account_vote ::
  "vote_formats \<Rightarrow> store \<Rightarrow> keyed_account \<Rightarrow> vote_init \<Rightarrow> pubkey set \<Rightarrow> clock \<Rightarrow> store ix_result" where
  "initialize_account_vote vf s vote_account init signers clk =
     and_then (vote_state_size_of vf) (\<lambda>size.
     if ka_data_len s vote_account \<noteq> size then Err InvalidAccountData
     else
       and_then (ka_state (state_format vf) s vote_account) (\<lambda>versioned.
       if \<not> is_uninitialized versioned then Err AccountAlreadyInitialized
       else
         and_then (verify_authorized_signer (vi_node_pubkey init) signers) (\<lambda>_.
         put_vote_state vf s vote_account (vote_state_new init clk))))"

definition process_vote_account ::
  "vote_formats \<Rightarrow> store \<Rightarrow> keyed_account \<Rightarrow> slot_hash list \<Rightarrow> clock \<Rightarrow> vote \<Rightarrow> pubkey set \<Rightarrow> store ix_result" where
  "process_vote_account vf s vote_account slot_hashes clk vt signers =
     and_then (ka_state (state_format vf) s vote_account) (\<lambda>versioned.
     if is_uninitialized versioned then Err UninitializedAccount
     else
       and_then (get_and_update_authorized_voter (convert_to_current versioned) (clk_epoch clk)) (\<lambda>(authorized_voter, vs).
       and_then (verify_authorized_signer authorized_voter signers) (\<lambda>_.
       and_then (map_err vote_err (process_vote vs vt slot_hashes (clk_epoch clk))) (\<lambda>vs.
       and_then (case vt_timestamp vt of
           Some timestamp \<Rightarrow>
             map_err vote_err (if vt_slots vt = [] then Err EmptySlots
                               else process_timestamp (Max (set (vt_slots vt))) timestamp vs)
         | None \<Rightarrow> Ok vs) (\<lambda>vs.
       put_vote_state vf s vote_account vs)))))"

section \<open>Builders\<close>

definition vote_program_id :: pubkey where
  "vote_program_id = 3338071818571248938818993247932504658966148473698877128351861063997718528000"

definition initialize_account_ix :: "vote_formats \<Rightarrow> pubkey \<Rightarrow> vote_init \<Rightarrow> instruction ix_result" where
  "initialize_account_ix vf vote_pubkey init =
     new_with_bincode vote_program_id (vote_ix_format vf) (InitializeAccount init)
       [meta_new vote_pubkey False, meta_new_readonly rent_id False, meta_new_readonly clock_id False,
        meta_new_readonly (vi_node_pubkey init) True]"

definition authorize_ix :: "vote_formats \<Rightarrow> pubkey \<Rightarrow> pubkey \<Rightarrow> pubkey \<Rightarrow> vote_authorize \<Rightarrow> instruction ix_result" where
  "authorize_ix vf vote_pubkey authorized_pubkey new_authorized_pubkey va =
     new_with_bincode vote_program_id (vote_ix_format vf) (Authorize new_authorized_pubkey va)
       [meta_new vote_pubkey False, meta_new_readonly clock_id False, meta_new_readonly authorized_pubkey True]"

definition authorize_checked_ix :: "vote_formats \<Rightarrow> pubkey \<Rightarrow> pubkey \<Rightarrow> pubkey \<Rightarrow> vote_authorize \<Rightarrow> instruction ix_result" where
  "authorize_checked_ix vf vote_pubkey authorized_pubkey new_authorized_pubkey va =
     new_with_bincode vote_program_id (vote_ix_format vf) (AuthorizeChecked va)
       [meta_new vote_pubkey False, meta_new_readonly clock_id False, meta_new_readonly authorized_pubkey True,
        meta_new_readonly new_authorized_pubkey True]"

definition update_validator_identity_ix :: "vote_formats \<Rightarrow> pubkey \<Rightarrow> pubkey \<Rightarrow> pubkey \<Rightarrow> instruction ix_result" where
  "update_validator_identity_ix vf vote_pubkey authorized_withdrawer_pubkey node =
     new_with_bincode vote_program_id (vote_ix_format vf) UpdateValidatorIdentity
       [meta_new vote_pubkey False, meta_new_readonly node True, meta_new_readonly authorized_withdrawer_pubkey True]"

definition update_commission_ix :: "vote_formats \<Rightarrow> pubkey \<Rightarrow> pubkey \<Rightarrow> u8 \<Rightarrow> instruction ix_result" where
  "update_commission_ix vf vote_pubkey authorized_withdrawer_pubkey c =
     new_with_bincode vote_program_id (vote_ix_format vf) (UpdateCommission c)
       [meta_new vote_pubkey False, meta_new_readonly authorized_withdrawer_pubkey True]"

definition vote_ix :: "vote_formats \<Rightarrow> pubkey \<Rightarrow> pubkey \<Rightarrow> vote \<Rightarrow> instruction ix_result" where
  "vote_ix vf vote_pubkey authorized_voter_pubkey vt =
     new_with_bincode vote_program_id (vote_ix_format vf) (Vote vt)
       [meta_new vote_pubkey False, meta_new_readonly slot_hashes_id False, meta_new_readonly clock_id False,
        meta_new_readonly authorized_voter_pubkey True]"

definition vote_switch_ix :: "vote_formats \<Rightarrow> pubkey \<Rightarrow> pubkey \<Rightarrow> vote \<Rightarrow> hash_value \<Rightarrow> instruction ix_result" where
  "vote_switch_ix vf vote_pubkey authorized_voter_pubkey vt proof_hash =
     new_with_bincode vote_program_id (vote_ix_format vf) (VoteSwitch vt proof_hash)
       [meta_new vote_pubkey False, meta_new_readonly slot_hashes_id False, meta_new_readonly clock_id False,
        meta_new_readonly authorized_voter_pubkey True]"

definition withdraw_ix :: "vote_formats \<Rightarrow> pubkey \<Rightarrow> pubkey \<Rightarrow> u64 \<Rightarrow> pubkey \<Rightarrow> instruction ix_result" where
  "withdraw_ix vf vote_pubkey authorized_withdrawer_pubkey amount to_pubkey =
     new_with_bincode vote_program_id (vote_ix_format vf) (Withdraw amount)
       [meta_new vote_pubkey False, meta_new to_pubkey False, meta_new_readonly authorized_withdrawer_pubkey True]"

section \<open>The entry point\<close>

text \<open>The features the program asks for, and what it reads from the invocation besides its accounts.\<close>

record vote_features =
  vote_withdraw_authority_may_change_authorized_voter :: bool
  reject_non_rent_exempt_vote_withdraws :: bool
  reject_vote_account_close_unless_zero_credit_epoch :: bool

definition verify_rent_exemption :: "store \<Rightarrow> keyed_account \<Rightarrow> rent \<Rightarrow> unit ix_result" where
  "verify_rent_exemption s ka r =
     (if \<not> is_exempt r (ka_lamports s ka) (ka_data_len s ka) then Err InsufficientFunds else Ok ())"

definition checked_clock :: "store \<Rightarrow> keyed_account \<Rightarrow> sysvar_cache \<Rightarrow> clock ix_result" where
  "checked_clock s ka sc = and_then (check_sysvar_keyed_account clock_id s ka) (\<lambda>_. get_clock sc)"

definition checked_rent :: "store \<Rightarrow> keyed_account \<Rightarrow> sysvar_cache \<Rightarrow> rent ix_result" where
  "checked_rent s ka sc = and_then (check_sysvar_keyed_account rent_id s ka) (\<lambda>_. get_rent sc)"

definition checked_slot_hashes :: "store \<Rightarrow> keyed_account \<Rightarrow> sysvar_cache \<Rightarrow> slot_hash list ix_result" where
  "checked_slot_hashes s ka sc = and_then (check_sysvar_keyed_account slot_hashes_id s ka) (\<lambda>_. get_slot_hashes sc)"

text \<open>The match on the decoded instruction; \<open>acct i\<close> is the account at \<open>first_instruction_account + i\<close>.\<close>

definition run_vote_instruction ::
  "vote_formats \<Rightarrow> vote_features \<Rightarrow> sysvar_cache \<Rightarrow> store \<Rightarrow> keyed_account \<Rightarrow> (nat \<Rightarrow> keyed_account ix_result)
   \<Rightarrow> pubkey set \<Rightarrow> vote_instruction \<Rightarrow> store ix_result" where
  "run_vote_instruction vf fs sc s me acct signers ix =
     (case ix of
        InitializeAccount init \<Rightarrow>
          and_then (acct 1) (\<lambda>ka.
          and_then (checked_rent s ka sc) (\<lambda>r.
          and_then (verify_rent_exemption s me r) (\<lambda>_.
          and_then (acct 2) (\<lambda>ka.
          and_then (checked_clock s ka sc) (\<lambda>clk.
          initialize_account_vote vf s me init signers clk)))))
      | Authorize voter_pubkey va \<Rightarrow>
          and_then (acct 1) (\<lambda>ka.
          and_then (checked_clock s ka sc) (\<lambda>clk.
          authorize_vote vf (vote_withdraw_authority_may_change_authorized_voter fs) s me voter_pubkey va signers clk))
      | UpdateValidatorIdentity \<Rightarrow>
          and_then (acct 1) (\<lambda>ka. update_validator_identity vf s me (unsigned_key ka) signers)
      | UpdateCommission c \<Rightarrow> update_commission vf s me c signers
      | Vote vt \<Rightarrow>
          and_then (acct 1) (\<lambda>ka.
          and_then (checked_slot_hashes s ka sc) (\<lambda>slot_hashes.
          and_then (acct 2) (\<lambda>ka.
          and_then (checked_clock s ka sc) (\<lambda>clk.
          process_vote_account vf s me slot_hashes clk vt signers))))
      | VoteSwitch vt _ \<Rightarrow>
          and_then (acct 1) (\<lambda>ka.
          and_then (checked_slot_hashes s ka sc) (\<lambda>slot_hashes.
          and_then (acct 2) (\<lambda>ka.
          and_then (checked_clock s ka sc) (\<lambda>clk.
          process_vote_account vf s me slot_hashes clk vt signers))))
      | Withdraw amount \<Rightarrow>
          and_then (acct 1) (\<lambda>to.
          and_then (if reject_non_rent_exempt_vote_withdraws fs
                    then and_then (get_rent sc) (\<lambda>r. Ok (Some r)) else Ok None) (\<lambda>rent_sysvar.
          and_then (if reject_vote_account_close_unless_zero_credit_epoch fs
                    then and_then (get_clock sc) (\<lambda>c. Ok (Some c)) else Ok None) (\<lambda>clock_if_feature_active.
          withdraw_vote vf s me amount to signers rent_sysvar clock_if_feature_active)))
      | AuthorizeChecked va \<Rightarrow>
          and_then (acct 3) (\<lambda>ka.
          and_then (ok_or MissingRequiredSignature (signer_key ka)) (\<lambda>voter_pubkey.
          and_then (acct 1) (\<lambda>ka.
          and_then (from_keyed_account clock_id (clock_format vf) s ka) (\<lambda>clk.
          authorize_vote vf (vote_withdraw_authority_may_change_authorized_voter fs) s me voter_pubkey va signers clk)))))"

definition vote_process_instruction ::
  "vote_formats \<Rightarrow> vote_features \<Rightarrow> sysvar_cache \<Rightarrow> store \<Rightarrow> keyed_account list \<Rightarrow> nat \<Rightarrow> u8 list \<Rightarrow> store ix_result" where
  "vote_process_instruction vf fs sc s keyed_accounts first_instruction_account input =
     and_then (keyed_account_at_index keyed_accounts first_instruction_account) (\<lambda>me.
     if ka_owner s me \<noteq> vote_program_id then Err InvalidAccountOwner
     else
       let signers = get_signers (drop first_instruction_account keyed_accounts) in
       and_then (ok_or InvalidInstructionData (vote_ix_limited_deserialize vf input))
         (run_vote_instruction vf fs sc s me
            (\<lambda>i. keyed_account_at_index keyed_accounts (first_instruction_account + i)) signers))"

end
