(* ===== verification/Sdk_Lamports.thy ===== *)
theory Sdk_Lamports
  imports Sdk_Account
begin

text \<open>
  Moving lamports from one account to another with \<open>checked_sub_lamports\<close> and \<open>checked_add_lamports\<close>, as the vote
  and system programs do, and the lamports that a set of accounts holds together.
\<close>

definition moved :: "pubkey \<Rightarrow> pubkey \<Rightarrow> u64 \<Rightarrow> store \<Rightarrow> store \<Rightarrow> bool" where
  "moved k k' n s s' \<longleftrightarrow>
     unat n \<le> unat (lamports (s k))
     \<and> (if k = k' then s' = s
        else unat (lamports (s k')) + unat n < 2 ^ 64
          \<and> s' = s(k := (s k)\<lparr>lamports := lamports (s k) - n\<rparr>, k' := (s k')\<lparr>lamports := lamports (s k') + n\<rparr>))"

lemma moved_Ok:
  assumes "and_then (map_err lamports_error_into (checked_sub_lamports n (cell s ka))) (\<lambda>a.
     let s = update_cell s ka (\<lambda>_. a) in
     and_then (map_err lamports_error_into (checked_add_lamports n (cell s ka'))) (\<lambda>a.
     Ok (update_cell s ka' (\<lambda>_. a)))) = Ok s'"
  shows "moved (unsigned_key ka) (unsigned_key ka') n s s'"
proof -
  have sub: "checked_sub x n = Some y \<longleftrightarrow> n \<le> x \<and> y = x - n" for x y :: u64 by (auto simp: checked_sub_def)
  have add: "checked_add x n = Some y \<longleftrightarrow> unat x + unat n < 2 ^ 64 \<and> y = x + n" for x y :: u64 by (auto simp: checked_add_def)
  show ?thesis
    using assms
    by (auto simp: moved_def checked_sub_lamports_def checked_add_lamports_def ok_simps Let_def update_cell_def set_lamports_def
        word_le_nat_alt sub add simp del: checked_sub_eq_Some checked_add_eq_Some)
qed

lemma moved_set_lamports:
  assumes "and_then (ok_or e (checked_sub (ka_lamports s ka) n)) (\<lambda>l.
     let s = ka_set_lamports s ka l in
     and_then (ok_or e' (checked_add (ka_lamports s ka') n)) (\<lambda>l. Ok (ka_set_lamports s ka' l))) = Ok s'"
  shows "moved (unsigned_key ka) (unsigned_key ka') n s s'"
proof -
  have sub: "checked_sub x n = Some y \<longleftrightarrow> n \<le> x \<and> y = x - n" for x y :: u64 by (auto simp: checked_sub_def)
  have add: "checked_add x n = Some y \<longleftrightarrow> unat x + unat n < 2 ^ 64 \<and> y = x + n" for x y :: u64 by (auto simp: checked_add_def)
  show ?thesis
    using assms
    by (auto simp: moved_def ok_simps Let_def store_simps word_le_nat_alt sub add
        simp del: checked_sub_eq_Some checked_add_eq_Some)
qed

lemma moved_simps:
  assumes "moved k k' n s s'"
  shows "data (s' x) = data (s x)" and "owner (s' x) = owner (s x)" and "executable (s' x) = executable (s x)"
    and "x \<noteq> k \<Longrightarrow> x \<noteq> k' \<Longrightarrow> s' x = s x"
    and "x \<noteq> k \<Longrightarrow> unat (lamports (s x)) \<le> unat (lamports (s' x))"
    and "s' x = (s x)\<lparr>lamports := lamports (s' x)\<rparr>"
  using assms by (auto simp: moved_def unat_word_ariths split: if_splits)

lemma moved_outside: "moved k k' n s s' \<Longrightarrow> k \<in> K \<Longrightarrow> k' \<in> K \<Longrightarrow> x \<notin> K \<Longrightarrow> s' x = s x"
  by (metis moved_simps(4))

definition total_lamports :: "pubkey set \<Rightarrow> store \<Rightarrow> nat" where
  "total_lamports K s = (\<Sum>k\<in>K. unat (lamports (s k)))"

lemma total_lamports_cong: "(\<And>k. k \<in> K \<Longrightarrow> lamports (s' k) = lamports (s k)) \<Longrightarrow> total_lamports K s' = total_lamports K s"
  by (simp add: total_lamports_def)

lemma total_moved:
  assumes "moved k k' n s s'" and "finite K" and "k \<in> K" and "k' \<in> K"
  shows "total_lamports K s' = total_lamports K s"
proof (cases "k = k'")
  case True
  then show ?thesis using assms(1) by (simp add: moved_def)
next
  case False
  have split: "total_lamports K t = unat (lamports (t k)) + (unat (lamports (t k')) + total_lamports (K - {k} - {k'}) t)" for t
    unfolding total_lamports_def
    using assms(2-4) False by (subst sum.remove [where x = k]) (auto simp: sum.remove [where x = k'])
  have "total_lamports (K - {k} - {k'}) s' = total_lamports (K - {k} - {k'}) s"
    using moved_simps(4) [OF assms(1)] by (intro total_lamports_cong) auto
  moreover have "unat (lamports (s' k)) = unat (lamports (s k)) - unat n" "unat n \<le> unat (lamports (s k))"
    "unat (lamports (s' k')) = unat (lamports (s k')) + unat n"
    using assms(1) False by (auto simp: moved_def unat_sub word_le_nat_alt unat_word_ariths)
  ultimately show ?thesis
    by (simp add: split)
qed

end
