(* ===== verification/Vote_Authority.thy ===== *)
theory Vote_Authority
  imports Vote_Tower Vote_Checks Vote_Program Sdk_Lamports
begin

text \<open>
  What an instruction of the vote program may do to a vote account: an inductive relation lists the changes
  with the signatures they need; every successful instruction is one of them. From this follow who can
  change an account, that withdrawals balance and that the invariants of the state hold throughout.
\<close>

section \<open>Reading and writing the state\<close>

definition vote_view :: "vote_formats \<Rightarrow> store \<Rightarrow> pubkey \<Rightarrow> vote_state option" where
  "vote_view vf s k = (case get_state (state_format vf) (s k) of Ok v \<Rightarrow> Some (convert_to_current v) | _ \<Rightarrow> None)"

lemma ka_state_view: "ka_state (state_format vf) s ka = Ok v \<Longrightarrow> vote_view vf s (unsigned_key ka) = Some (convert_to_current v)"
  by (simp add: ka_state_def vote_view_def)

lemma get_vote_state_Ok [ok_simps]: "get_vote_state vf s ka = Ok vs \<longleftrightarrow> vote_view vf s (unsigned_key ka) = Some vs"
  by (auto simp: get_vote_state_def vote_view_def ka_state_def ok_simps split: result.splits)

lemma put_vote_state_Ok:
  assumes "put_vote_state vf s ka vs = Ok s'" and "bincode_ok (state_format vf)"
  shows "vote_view vf s' (unsigned_key ka) = Some vs" and "lamports (s' k) = lamports (s k)"
    and "owner (s' k) = owner (s k)" and "length (data (s' k)) = length (data (s k))" and "k \<noteq> unsigned_key ka \<Longrightarrow> s' k = s k"
proof -
  obtain a where a: "set_state (state_format vf) (new_current vs) (s (unsigned_key ka)) = Ok a" "s' = s(unsigned_key ka := a)"
    using assms(1) by (auto simp: put_vote_state_def ka_set_state_def update_cell_def ok_simps)
  show "vote_view vf s' (unsigned_key ka) = Some vs"
    using get_set_state [OF assms(2) a(1)] by (simp add: a(2) vote_view_def new_current_def)
  show "lamports (s' k) = lamports (s k)" "owner (s' k) = owner (s k)" "length (data (s' k)) = length (data (s k))"
    "k \<noteq> unsigned_key ka \<Longrightarrow> s' k = s k"
    using set_state_Ok [OF a(1)] by (simp_all add: a(2))
qed

lemma verify_authorized_signer_Ok [ok_simps]: "verify_authorized_signer k signers = Ok u \<longleftrightarrow> k \<in> signers"
  by (simp add: verify_authorized_signer_def)

lemma is_ok_verify [simp]: "is_ok (verify_authorized_signer k signers) \<longleftrightarrow> k \<in> signers"
  by (simp add: verify_authorized_signer_def)

section \<open>The changes of a vote state\<close>

definition vote_applied :: "vote_state \<Rightarrow> vote \<Rightarrow> slot_hash list \<Rightarrow> epoch \<Rightarrow> vote_state \<Rightarrow> bool" where
  "vote_applied vs vt slot_hashes ep vs' \<longleftrightarrow>
     (\<exists>vs1. process_vote vs vt slot_hashes ep = Ok vs1
        \<and> (case vt_timestamp vt of None \<Rightarrow> vs' = vs1
           | Some t \<Rightarrow> process_timestamp (Max (set (vt_slots vt))) t vs1 = Ok vs'))"

inductive vote_change :: "pubkey set \<Rightarrow> sysvar_cache \<Rightarrow> vote_state \<Rightarrow> vote_state \<Rightarrow> bool"
  for signers :: "pubkey set" and sc :: sysvar_cache where
  initialize: "voters vs = [] \<Longrightarrow> vi_node_pubkey init \<in> signers \<Longrightarrow> vote_change signers sc vs (vote_state_new init clk)"
| voter: "set_new_authorized_voter vs k ep target verify = Ok vs'
    \<Longrightarrow> authorized_withdrawer vs \<in> signers \<or> (\<forall>v. verify v = Ok () \<longrightarrow> v \<in> signers)
    \<Longrightarrow> vote_change signers sc vs vs'"
| withdrawer: "authorized_withdrawer vs \<in> signers
    \<Longrightarrow> vote_change signers sc vs (vs\<lparr>authorized_withdrawer := k\<rparr>)"
| identity: "authorized_withdrawer vs \<in> signers \<Longrightarrow> k \<in> signers \<Longrightarrow> vote_change signers sc vs (vs\<lparr>node_pubkey := k\<rparr>)"
| commission: "authorized_withdrawer vs \<in> signers \<Longrightarrow> vote_change signers sc vs (vs\<lparr>commission := c\<rparr>)"
| vote: "voters vs \<noteq> [] \<Longrightarrow> sc_clock sc = Some clk \<Longrightarrow> sc_slot_hashes sc = Some hs
    \<Longrightarrow> get_and_update_authorized_voter vs (clk_epoch clk) = Ok (v, vs1) \<Longrightarrow> v \<in> signers
    \<Longrightarrow> vote_applied vs1 vt hs (clk_epoch clk) vs' \<Longrightarrow> vote_change signers sc vs vs'"
| close: "authorized_withdrawer vs \<in> signers \<Longrightarrow> vote_change signers sc vs vote_state_default"
| keep: "authorized_withdrawer vs \<in> signers \<Longrightarrow> vote_change signers sc vs vs"

inductive_cases vote_changeE: "vote_change signers sc vs vs'"

text \<open>Handlers that only rewrite the state leave the lamports of every account and all other accounts.\<close>

definition state_written :: "vote_formats \<Rightarrow> store \<Rightarrow> pubkey \<Rightarrow> vote_state \<Rightarrow> store \<Rightarrow> bool" where
  "state_written vf s me vs' s' \<longleftrightarrow>
     vote_view vf s' me = Some vs' \<and> (\<forall>k. lamports (s' k) = lamports (s k) \<and> owner (s' k) = owner (s k)) \<and> (\<forall>k. k \<noteq> me \<longrightarrow> s' k = s k)"

lemma put_state_written:
  "put_vote_state vf s ka vs = Ok s' \<Longrightarrow> bincode_ok (state_format vf) \<Longrightarrow> state_written vf s (unsigned_key ka) vs s'"
  using put_vote_state_Ok [of vf s ka vs s'] by (simp add: state_written_def)

lemma initialize_change:
  assumes "initialize_account_vote vf s ka init signers clk = Ok s'" and "bincode_ok (state_format vf)"
  shows "\<exists>vs. vote_view vf s (unsigned_key ka) = Some vs \<and> vote_change signers sc vs (vote_state_new init clk)
    \<and> state_written vf s (unsigned_key ka) (vote_state_new init clk) s'"
proof -
  from assms(1) obtain v where v: "ka_state (state_format vf) s ka = Ok v" "is_uninitialized v" "vi_node_pubkey init \<in> signers"
      "put_vote_state vf s ka (vote_state_new init clk) = Ok s'"
    by (auto simp: initialize_account_vote_def ok_simps split: if_splits)
  from v(2) have "voters (convert_to_current v) = []" by (cases v) simp
  then show ?thesis
    using v(3) ka_state_view [OF v(1)] put_state_written [OF v(4) assms(2)] by (auto intro: vote_change.initialize)
qed

lemma authorize_change:
  assumes "authorize_vote vf may s ka k va signers clk = Ok s'" and "bincode_ok (state_format vf)"
  shows "\<exists>vs vs'. vote_view vf s (unsigned_key ka) = Some vs \<and> vote_change signers sc vs vs' \<and> state_written vf s (unsigned_key ka) vs' s'"
proof -
  from assms(1) obtain vs vs' where vs: "vote_view vf s (unsigned_key ka) = Some vs"
      and run: "(case va of
         Voter \<Rightarrow>
           let authorized_withdrawer_signer = may \<and> is_ok (verify_authorized_signer (authorized_withdrawer vs) signers)
           in set_new_authorized_voter vs k (clk_epoch clk) (leader_schedule_epoch clk + 1)
                (\<lambda>v. if authorized_withdrawer_signer then Ok () else verify_authorized_signer v signers)
       | Withdrawer \<Rightarrow>
           and_then (verify_authorized_signer (authorized_withdrawer vs) signers) (\<lambda>_.
           Ok (vs\<lparr>authorized_withdrawer := k\<rparr>))) = Ok vs'"
      and put: "put_vote_state vf s ka vs' = Ok s'"
    unfolding authorize_vote_def by (elim ok_elims) (simp add: ok_simps)
  have "vote_change signers sc vs vs'"
  proof (cases va)
    case Voter
    let ?verify = "\<lambda>v. if may \<and> authorized_withdrawer vs \<in> signers then Ok () else verify_authorized_signer v signers"
    from run have "set_new_authorized_voter vs k (clk_epoch clk) (leader_schedule_epoch clk + 1) ?verify = Ok vs'"
      by (simp add: Voter)
    then show ?thesis
      by (rule vote_change.voter) (auto simp: ok_simps)
  next
    case Withdrawer
    with run show ?thesis by (auto simp: ok_simps intro: vote_change.withdrawer)
  qed
  with vs put_state_written [OF put assms(2)] show ?thesis by blast
qed

lemma update_identity_change:
  assumes "update_validator_identity vf s ka node signers = Ok s'" and "bincode_ok (state_format vf)"
  shows "\<exists>vs vs'. vote_view vf s (unsigned_key ka) = Some vs \<and> vote_change signers sc vs vs' \<and> state_written vf s (unsigned_key ka) vs' s'"
  using assms by (auto simp: update_validator_identity_def ok_simps dest!: put_state_written) (blast intro: vote_change.identity)

lemma update_commission_change:
  assumes "update_commission vf s ka c signers = Ok s'" and "bincode_ok (state_format vf)"
  shows "\<exists>vs vs'. vote_view vf s (unsigned_key ka) = Some vs \<and> vote_change signers sc vs vs' \<and> state_written vf s (unsigned_key ka) vs' s'"
  using assms by (auto simp: update_commission_def ok_simps dest!: put_state_written) (blast intro: vote_change.commission)

lemma process_vote_change:
  assumes "process_vote_account vf s ka hs clk vt signers = Ok s'" and "bincode_ok (state_format vf)"
    and "sc_slot_hashes sc = Some hs" and "sc_clock sc = Some clk"
  shows "\<exists>vs vs'. vote_view vf s (unsigned_key ka) = Some vs \<and> vote_change signers sc vs vs' \<and> state_written vf s (unsigned_key ka) vs' s'"
proof -
  from assms(1) obtain v av vs1 vs2 vs' where v: "ka_state (state_format vf) s ka = Ok v" "\<not> is_uninitialized v"
      and g: "get_and_update_authorized_voter (convert_to_current v) (clk_epoch clk) = Ok (av, vs1)" "av \<in> signers"
      and p: "process_vote vs1 vt hs (clk_epoch clk) = Ok vs2"
      and t: "(case vt_timestamp vt of
           Some timestamp \<Rightarrow>
             map_err vote_err (if vt_slots vt = [] then Err EmptySlots
                               else process_timestamp (Max (set (vt_slots vt))) timestamp vs2)
         | None \<Rightarrow> Ok vs2) = Ok vs'"
      and put: "put_vote_state vf s ka vs' = Ok s'"
    unfolding process_vote_account_def by (elim ok_elims) (simp add: ok_simps)
  have "voters (convert_to_current v) \<noteq> []" using v(2) by (cases v) simp
  moreover have "vote_applied vs1 vt hs (clk_epoch clk) vs'"
    using p t by (auto simp: vote_applied_def ok_simps split: option.splits if_splits)
  ultimately have "vote_change signers sc (convert_to_current v) vs'"
    using g assms(3,4) by (intro vote_change.vote) auto
  with ka_state_view [OF v(1)] put_state_written [OF put assms(2)] show ?thesis by blast
qed

section \<open>Withdrawals\<close>

lemma vote_view_data: "data (s' k) = data (s k) \<Longrightarrow> vote_view vf s' k = vote_view vf s k"
  by (simp add: vote_view_def get_state_def)

definition recent_credits :: "clock \<Rightarrow> vote_state \<Rightarrow> bool" where
  "recent_credits clk vs \<longleftrightarrow>
     epoch_credits vs \<noteq> [] \<and> unat (clk_epoch clk) < unat (fst (last (epoch_credits vs))) + 2"

lemma reject_close_iff:
  "(case (clk, epoch_credits vs) of
      (Some c, _ # _) \<Rightarrow> saturating_sub (clk_epoch c) (fst (last (epoch_credits vs))) < 2
    | _ \<Rightarrow> False) \<longleftrightarrow> (\<exists>c. clk = Some c \<and> recent_credits c vs)"
  by (auto simp: recent_credits_def word_less_nat_alt unat_saturating_sub split: option.splits list.splits)

lemma withdraw_Ok:
  assumes "withdraw_vote vf s ka n to signers r clk = Ok s'" and "bincode_ok (state_format vf)"
  obtains vs s1 where "vote_view vf s (unsigned_key ka) = Some vs" and "authorized_withdrawer vs \<in> signers"
    and "moved (unsigned_key ka) (unsigned_key to) n s1 s'"
    and "if lamports (s (unsigned_key ka)) = n
         then state_written vf s (unsigned_key ka) vote_state_default s1 \<and> (\<forall>c. clk = Some c \<longrightarrow> \<not> recent_credits c vs)
         else s1 = s \<and> (\<forall>x. r = Some x \<longrightarrow> minimum_balance x (length (data (s (unsigned_key ka)))) \<le> lamports (s (unsigned_key ka)) - n)"
proof -
  from assms(1) obtain vs rest s1 where vs: "vote_view vf s (unsigned_key ka) = Some vs" "authorized_withdrawer vs \<in> signers"
      and rest: "checked_sub (ka_lamports s ka) n = Some rest"
      and s1: "(if rest = 0
        then let reject_active_vote_account_close =
                   (case (clk, epoch_credits vs) of
                      (Some c, _ # _) \<Rightarrow> saturating_sub (clk_epoch c) (fst (last (epoch_credits vs))) < 2
                    | _ \<Rightarrow> False)
             in if reject_active_vote_account_close then Err ActiveVoteAccountClose
                else put_vote_state vf s ka vote_state_default
        else case r of
               Some r \<Rightarrow> if rest < minimum_balance r (ka_data_len s ka) then Err InsufficientFunds else Ok s
             | None \<Rightarrow> Ok s) = Ok s1"
      and mv: "and_then (map_err lamports_error_into (checked_sub_lamports n (cell s1 ka))) (\<lambda>a.
     let s = update_cell s1 ka (\<lambda>_. a) in
     and_then (map_err lamports_error_into (checked_add_lamports n (cell s to))) (\<lambda>a.
     Ok (update_cell s to (\<lambda>_. a)))) = Ok s'"
    unfolding withdraw_vote_def by (elim ok_elims) (simp add: ok_simps del: checked_sub_eq_Some)
  have r0: "n \<le> lamports (s (unsigned_key ka))" "rest = lamports (s (unsigned_key ka)) - n"
    using rest by (auto simp: checked_sub_def ka_lamports_def split: if_splits)
  show thesis
  proof (rule that [OF vs moved_Ok [OF mv]])
    show "if lamports (s (unsigned_key ka)) = n
         then state_written vf s (unsigned_key ka) vote_state_default s1 \<and> (\<forall>c. clk = Some c \<longrightarrow> \<not> recent_credits c vs)
         else s1 = s \<and> (\<forall>x. r = Some x \<longrightarrow> minimum_balance x (length (data (s (unsigned_key ka)))) \<le> lamports (s (unsigned_key ka)) - n)"
      using s1 [unfolded reject_close_iff Let_def] put_state_written [OF _ assms(2)]
      by (auto simp: r0(2) ka_data_len_def not_less split: if_splits option.splits)
  qed
qed

lemma moved_view:
  "moved k k' n s s' \<Longrightarrow> vote_view vf s' x = vote_view vf s x"
  by (rule vote_view_data) (auto simp: moved_def split: if_splits)

lemma withdraw_change:
  assumes "withdraw_vote vf s ka n to signers r clk = Ok s'" and "bincode_ok (state_format vf)"
  shows "\<exists>vs vs'. vote_view vf s (unsigned_key ka) = Some vs \<and> vote_change signers sc vs vs'
    \<and> vote_view vf s' (unsigned_key ka) = Some vs' \<and> authorized_withdrawer vs \<in> signers
    \<and> (\<forall>k. k \<noteq> unsigned_key ka \<longrightarrow> data (s' k) = data (s k))"
  using assms
proof (rule withdraw_Ok)
  fix vs s1
  assume vs: "vote_view vf s (unsigned_key ka) = Some vs" "authorized_withdrawer vs \<in> signers"
    and mv: "moved (unsigned_key ka) (unsigned_key to) n s1 s'"
    and s1: "if lamports (s (unsigned_key ka)) = n
         then state_written vf s (unsigned_key ka) vote_state_default s1 \<and> (\<forall>c. clk = Some c \<longrightarrow> \<not> recent_credits c vs)
         else s1 = s \<and> (\<forall>x. r = Some x \<longrightarrow> minimum_balance x (length (data (s (unsigned_key ka)))) \<le> lamports (s (unsigned_key ka)) - n)"
  have "vote_view vf s' (unsigned_key ka) = (if lamports (s (unsigned_key ka)) = n then Some vote_state_default else Some vs)"
    using s1 vs by (simp add: moved_view [OF mv] state_written_def split: if_splits)
  moreover have "data (s' k) = data (s k)" if "k \<noteq> unsigned_key ka" for k
    using s1 mv that by (auto simp: moved_def state_written_def split: if_splits)
  ultimately show ?thesis
    using vs by (auto intro: vote_change.close vote_change.keep split: if_splits)
qed

lemmas checked_sysvar_defs = checked_slot_hashes_def get_slot_hashes_def checked_clock_def get_clock_def

text \<open>The change an instruction makes, with the lamports of the account.\<close>

lemma run_vote_instruction_change:
  assumes "run_vote_instruction vf fs sc s me acct signers ix = Ok s'" and "bincode_ok (state_format vf)"
  shows "\<exists>vs vs'. vote_view vf s (unsigned_key me) = Some vs \<and> vote_view vf s' (unsigned_key me) = Some vs'
    \<and> vote_change signers sc vs vs'
    \<and> (lamports (s' (unsigned_key me)) < lamports (s (unsigned_key me)) \<longrightarrow> authorized_withdrawer vs \<in> signers)
    \<and> (\<forall>k. k \<noteq> unsigned_key me \<longrightarrow> data (s' k) = data (s k))"
proof -
  have w: ?thesis if "\<exists>vs vs'. vote_view vf s (unsigned_key me) = Some vs \<and> vote_change signers sc vs vs'
      \<and> state_written vf s (unsigned_key me) vs' s'"
    using that by (force simp: state_written_def)
  show ?thesis
  proof (cases ix)
    case (InitializeAccount init)
    then obtain clk where "initialize_account_vote vf s me init signers clk = Ok s'"
      using assms(1) by (auto simp: run_vote_instruction_def ok_simps)
    then show ?thesis using initialize_change [OF _ assms(2)] w by blast
  next
    case (Authorize k va)
    then obtain clk where "authorize_vote vf (vote_withdraw_authority_may_change_authorized_voter fs) s me k va signers clk = Ok s'"
      using assms(1) by (auto simp: run_vote_instruction_def ok_simps)
    then show ?thesis using authorize_change [OF _ assms(2)] w by blast
  next
    case (AuthorizeChecked va)
    then obtain k clk where "authorize_vote vf (vote_withdraw_authority_may_change_authorized_voter fs) s me k va signers clk = Ok s'"
      using assms(1) by (auto simp: run_vote_instruction_def ok_simps)
    then show ?thesis using authorize_change [OF _ assms(2)] w by blast
  next
    case UpdateValidatorIdentity
    then obtain k where "update_validator_identity vf s me k signers = Ok s'"
      using assms(1) by (auto simp: run_vote_instruction_def ok_simps)
    then show ?thesis using update_identity_change [OF _ assms(2)] w by blast
  next
    case (UpdateCommission c)
    then have "update_commission vf s me c signers = Ok s'"
      using assms(1) by (simp add: run_vote_instruction_def)
    then show ?thesis using update_commission_change [OF _ assms(2)] w by blast
  next
    case (Vote vt)
    then obtain hs clk where "sc_slot_hashes sc = Some hs" "sc_clock sc = Some clk" "process_vote_account vf s me hs clk vt signers = Ok s'"
      using assms(1) by (auto simp: run_vote_instruction_def ok_simps checked_sysvar_defs)
    then show ?thesis using process_vote_change [OF _ assms(2)] w by metis
  next
    case (VoteSwitch vt h)
    then obtain hs clk where "sc_slot_hashes sc = Some hs" "sc_clock sc = Some clk" "process_vote_account vf s me hs clk vt signers = Ok s'"
      using assms(1) by (auto simp: run_vote_instruction_def ok_simps checked_sysvar_defs)
    then show ?thesis using process_vote_change [OF _ assms(2)] w by metis
  next
    case (Withdraw n)
    then obtain to r clk where "withdraw_vote vf s me n to signers r clk = Ok s'"
      using assms(1) by (auto simp: run_vote_instruction_def ok_simps)
    then show ?thesis using withdraw_change [OF _ assms(2)] by blast
  qed
qed

section \<open>Authority\<close>

lemma process_next_vote_slot_frame:
  "authorized_withdrawer (process_next_vote_slot n e vs) = authorized_withdrawer vs"
  "node_pubkey (process_next_vote_slot n e vs) = node_pubkey vs"
  "commission (process_next_vote_slot n e vs) = commission vs"
  "voters (process_next_vote_slot n e vs) = voters vs"
  by (simp_all add: process_next_vote_slot_def pop_expired_votes_def double_lockouts_def increment_credits_def Let_def
      split: prod.splits option.splits)

lemma process_vote_frame:
  assumes "process_vote vs vt hs ep = Ok vs'"
  shows "authorized_withdrawer vs' = authorized_withdrawer vs" "node_pubkey vs' = node_pubkey vs"
    "commission vs' = commission vs" "voters vs' = voters vs"
proof -
  have "authorized_withdrawer (fold (\<lambda>s. process_next_vote_slot s ep) slots vs) = authorized_withdrawer vs
    \<and> node_pubkey (fold (\<lambda>s. process_next_vote_slot s ep) slots vs) = node_pubkey vs
    \<and> commission (fold (\<lambda>s. process_next_vote_slot s ep) slots vs) = commission vs
    \<and> voters (fold (\<lambda>s. process_next_vote_slot s ep) slots vs) = voters vs" for slots
    by (induction slots arbitrary: vs) (simp_all add: process_next_vote_slot_frame)
  then show "authorized_withdrawer vs' = authorized_withdrawer vs" "node_pubkey vs' = node_pubkey vs"
    "commission vs' = commission vs" "voters vs' = voters vs"
    using assms by (auto simp: process_vote_def ok_simps)
qed

lemma vote_applied_frame:
  assumes "vote_applied vs vt hs ep vs'"
  shows "authorized_withdrawer vs' = authorized_withdrawer vs" "node_pubkey vs' = node_pubkey vs"
    "commission vs' = commission vs" "voters vs' = voters vs"
proof -
  from assms obtain vs1 where p: "process_vote vs vt hs ep = Ok vs1"
      and t: "case vt_timestamp vt of None \<Rightarrow> vs' = vs1 | Some t \<Rightarrow> process_timestamp (Max (set (vt_slots vt))) t vs1 = Ok vs'"
    by (auto simp: vote_applied_def)
  from t have "vs' = vs1\<lparr>last_timestamp := last_timestamp vs'\<rparr>"
    by (auto simp: process_timestamp_def Let_def split: option.splits if_splits)
  then have "authorized_withdrawer vs' = authorized_withdrawer vs1" "node_pubkey vs' = node_pubkey vs1"
    "commission vs' = commission vs1" "voters vs' = voters vs1"
    by (metis vote_state.select_convs vote_state.surjective vote_state.update_convs)+
  with process_vote_frame [OF p] show "authorized_withdrawer vs' = authorized_withdrawer vs" "node_pubkey vs' = node_pubkey vs"
    "commission vs' = commission vs" "voters vs' = voters vs" by simp_all
qed

lemma set_new_authorized_voter_Ok:
  assumes "set_new_authorized_voter vs k ep target verify = Ok vs'"
  obtains v vs1 where "get_and_update_authorized_voter vs ep = Ok (v, vs1)" and "verify v = Ok ()"
    and "vs' = vs1\<lparr>voters := bt_insert target k (voters vs1)\<rparr>
      \<or> (\<exists>p. vs' = vs1\<lparr>prior_voters := p, voters := bt_insert target k (voters vs1)\<rparr>)"
  using assms unfolding set_new_authorized_voter_def Let_def
  apply (elim ok_elims)
  subgoal premises run for v vs1 u le lk vs2
  proof (rule run(1) [OF run(2)])
    show "verify v = Ok ()" using run(3) by simp
    have "vs2 = vs1 \<or> (\<exists>p. vs2 = vs1\<lparr>prior_voters := p\<rparr>)" using run(6) by (auto split: if_splits)
    moreover have "vs' = vs2\<lparr>voters := bt_insert target k (voters vs2)\<rparr>" using run(7) by simp
    ultimately show "vs' = vs1\<lparr>voters := bt_insert target k (voters vs1)\<rparr>
      \<or> (\<exists>p. vs' = vs1\<lparr>prior_voters := p, voters := bt_insert target k (voters vs1)\<rparr>)"
      by (elim disjE exE) (simp, simp, blast)
  qed
  done

lemma set_new_authorized_voter_frame:
  assumes "set_new_authorized_voter vs k ep target verify = Ok vs'" and "voters_ok vs"
  shows "vs' = vs\<lparr>voters := voters vs', prior_voters := prior_voters vs'\<rparr>"
    and "\<exists>v. get_authorized_voter vs ep = Some v \<and> verify v = Ok ()" and "voters_ok vs'" and "voters vs' \<noteq> []"
proof -
  from assms(1) obtain v vs1 where g: "get_and_update_authorized_voter vs ep = Ok (v, vs1)"
      and ver: "verify v = Ok ()" and vs': "vs' = vs1\<lparr>voters := bt_insert target k (voters vs1)\<rparr>
        \<or> (\<exists>p. vs' = vs1\<lparr>prior_voters := p, voters := bt_insert target k (voters vs1)\<rparr>)"
    by (rule set_new_authorized_voter_Ok)
  note u = get_and_update_Ok [OF g assms(2)]
  obtain av where vs1: "vs1 = vs\<lparr>voters := av\<rparr>" using u(4) by blast
  show "vs' = vs\<lparr>voters := voters vs', prior_voters := prior_voters vs'\<rparr>"
    using vs' by (elim disjE exE) (simp_all add: vs1)
  show "\<exists>v. get_authorized_voter vs ep = Some v \<and> verify v = Ok ()" using u(1) ver by blast
  have inv: "bt_invar (voters vs1)" using u(2) by (simp add: voters_ok_def)
  show "voters_ok vs'" using vs' inv by (auto simp: voters_ok_def bt_invar_insert)
  have "bt_get (voters vs') target = Some k" using vs' inv by (auto simp: bt_get_insert)
  then show "voters vs' \<noteq> []" by auto
qed

end
