(* ===== verification/Vote_Properties.thy ===== *)
theory Vote_Properties
  imports Vote_Authority
begin

text \<open>
  Properties of the vote program as a whole: withdrawals, the invariants of vote accounts under any
  sequence of instructions, and the agreement of the instruction builders with the entry point.
\<close>

section \<open>Authority\<close>


section \<open>Withdrawals\<close>


section \<open>Invariants under all instructions\<close>

lemma slots_loop_covered:
  assumes "slots_loop l slots hs i j = (i', j')" and "i' = length slots" and "j \<le> length hs" and "i \<le> k" and "k < length slots"
  shows "(\<exists>x. l = Some x \<and> slots ! k \<le> x) \<or> slots ! k \<in> fst ` set hs"
  using assms
proof (induction l slots hs i j arbitrary: k rule: slots_loop.induct)
  case (1 l slots hs i j)
  show ?case
  proof (cases "i < length slots \<and> 0 < j")
    case False
    then show ?thesis using "1.prems" slots_loop_stop [OF False, of l hs] by simp
  next
    case True
    show ?thesis
    proof (cases "case l of Some x \<Rightarrow> slots ! i \<le> x | None \<Rightarrow> False")
      case old: True
      then show ?thesis
        using "1.IH"(1) [OF True old, of k] "1.prems" True
        by (cases "k = i") (auto simp: slots_loop.simps [of l slots hs i j] split: option.splits)
    next
      case new: False
      show ?thesis
      proof (cases "slots ! i \<noteq> fst (hs ! (j - 1))")
        case ne: True
        then show ?thesis
          using "1.IH"(2) [OF True new ne, of k] "1.prems" True new by (auto simp: slots_loop.simps [of l slots hs i j])
      next
        case eq: False
        have "slots ! i \<in> fst ` set hs" using eq True "1.prems"(3) by force
        then show ?thesis
          using "1.IH"(3) [OF True new eq, of k] "1.prems" True new eq
          by (cases "k = i") (auto simp: slots_loop.simps [of l slots hs i j])
      qed
    qed
  qed
qed

lemma accepted_slots:
  assumes "check_slots_are_valid vs vt hs = Ok ()" and "x \<in> set (vt_slots vt)"
  shows "(\<exists>l. last_voted_slot vs = Some l \<and> x \<le> l) \<or> x \<in> fst ` set hs"
proof -
  obtain i j where r: "slots_loop (last_voted_slot vs) (vt_slots vt) hs 0 (length hs) = (i, j)" by fastforce
  with assms(1) have "i = length (vt_slots vt)" by (auto simp: check_slots_are_valid_def split: if_splits)
  moreover obtain k where "k < length (vt_slots vt)" "x = vt_slots vt ! k" using assms(2) by (auto simp: in_set_conv_nth)
  ultimately show ?thesis using slots_loop_covered [OF r, of k] by simp
qed

lemma last_voted_slot_bound: "vote_wf vs \<Longrightarrow> last_voted_slot vs = Some l \<Longrightarrow> unat l < 2 ^ 63"
  by (cases "votes vs" rule: rev_cases)
    (auto simp: vote_wf_def tower_ok_def last_voted_slot_def last_lockout_def dest: spec [of _ "length (votes vs) - 1"])

definition vote_inv :: "vote_state \<Rightarrow> bool" where
  "vote_inv vs \<longleftrightarrow> vote_wf vs \<and> voters_ok vs"

definition hashes_ok :: "sysvar_cache \<Rightarrow> bool" where
  "hashes_ok sc \<longleftrightarrow> (\<forall>hs. sc_slot_hashes sc = Some hs \<longrightarrow> (\<forall>(slot, h)\<in>set hs. unat slot < 2 ^ 63))"

lemma vote_applied_inv:
  assumes "vote_applied vs vt hs ep vs'" and "vote_inv vs" and "\<forall>(slot, h)\<in>set hs. unat slot < 2 ^ 63"
  shows "vote_inv vs'"
proof -
  from assms(1) obtain vs1 where p: "process_vote vs vt hs ep = Ok vs1"
      and t: "case vt_timestamp vt of None \<Rightarrow> vs' = vs1 | Some t \<Rightarrow> process_timestamp (Max (set (vt_slots vt))) t vs1 = Ok vs'"
    by (auto simp: vote_applied_def)
  have "\<forall>x\<in>set (vt_slots vt). unat x < 2 ^ 63"
  proof
    fix x assume x: "x \<in> set (vt_slots vt)"
    have "check_slots_are_valid vs vt hs = Ok ()" using p by (auto simp: process_vote_def ok_simps)
    from accepted_slots [OF this x] show "unat x < 2 ^ 63"
      using assms(2,3) last_voted_slot_bound by (fastforce simp: vote_inv_def word_le_nat_alt)
  qed
  then have "vote_wf vs1" using process_vote_wf [OF p] assms(2) by (simp add: vote_inv_def)
  moreover have "votes vs' = votes vs1" "root_slot vs' = root_slot vs1"
    using t by (auto simp: process_timestamp_def Let_def split: option.splits if_splits)
  ultimately show ?thesis
    using vote_applied_frame(4) [OF assms(1)] assms(2) by (simp add: vote_inv_def vote_wf_def voters_ok_def)
qed

lemma vote_inv_default: "vote_inv vote_state_default" "vote_inv (vote_state_new init clk)"
  by (simp_all add: vote_inv_def vote_state_new_def vote_wf_def voters_ok_def vote_state_default_def authorized_voters_new_def
      bt_invar_insert bt_invar_def tower_ok_def)

lemma vote_change_inv:
  assumes "vote_change signers sc vs vs'" and "vote_inv vs" and "hashes_ok sc"
  shows "vote_inv vs'"
  using assms(1)
proof cases
  case (voter k ep target verify)
  have ok: "voters_ok vs" using assms(2) by (simp add: vote_inv_def)
  note f = set_new_authorized_voter_frame [OF voter(1) ok]
  have "votes vs' = votes vs" "root_slot vs' = root_slot vs" by (subst f(1), simp)+
  then show ?thesis using assms(2) f(3) by (simp add: vote_inv_def vote_wf_def)
next
  case (vote clk hs v vs1 vt)
  have ok: "voters_ok vs" using assms(2) by (simp add: vote_inv_def)
  note u = get_and_update_Ok [OF vote(4) ok]
  have "votes vs1 = votes vs" "root_slot vs1 = root_slot vs" by (subst u(4), simp)+
  then have "vote_inv vs1" using assms(2) u(2) by (simp add: vote_inv_def vote_wf_def)
  then show ?thesis using vote_applied_inv [OF vote(6)] vote(3) assms(3) by (simp add: hashes_ok_def)
qed (use assms(2) vote_inv_default in \<open>simp_all add: vote_inv_def vote_wf_def voters_ok_def\<close>)

text \<open>Runs of the vote program: any instructions on any accounts, under sysvars with sound slot hashes.\<close>

inductive vote_run :: "vote_formats \<Rightarrow> store \<Rightarrow> store \<Rightarrow> bool" for vf :: vote_formats where
  start: "vote_run vf s s"
| step: "vote_run vf s s1 \<Longrightarrow> hashes_ok sc \<Longrightarrow> vote_process_instruction vf fs sc s1 kas first input = Ok s2 \<Longrightarrow> vote_run vf s s2"

text \<open>C29: Whatever instructions of the vote program are run, every vote account keeps a tower of at most 31 votes in
  order above its root, and a history of authorized voters sorted by epoch.\<close>

theorem vote_accounts_invariant:
  assumes "vote_run vf s s'" and "bincode_ok (state_format vf)" and "\<forall>k vs. vote_view vf s k = Some vs \<longrightarrow> vote_inv vs"
  shows "\<forall>k vs. vote_view vf s' k = Some vs \<longrightarrow> vote_inv vs"
  using assms(1,3)
proof induction
  case (start s)
  then show ?case .
next
  case (step s s1 sc fs kas first input s2)
  let ?me = "unsigned_key (kas ! first)" and ?signers = "get_signers (drop first kas)"
  obtain ix where "run_vote_instruction vf fs sc s1 (kas ! first) (\<lambda>i. keyed_account_at_index kas (first + i)) ?signers ix = Ok s2"
    using step(3) by (auto simp: vote_process_instruction_def keyed_account_at_index_def ok_simps Let_def)
  from run_vote_instruction_change [OF this assms(2)] obtain vs vs' where c: "vote_view vf s1 ?me = Some vs"
      "vote_view vf s2 ?me = Some vs'" "vote_change ?signers sc vs vs'" "\<And>k. k \<noteq> ?me \<Longrightarrow> data (s2 k) = data (s1 k)"
    by blast
  have inv: "vote_inv vs'" using vote_change_inv [OF c(3)] step(2) step.IH [OF step.prems] c(1) by blast
  show ?case
  proof (intro allI impI)
    fix k vs2 assume v: "vote_view vf s2 k = Some vs2"
    show "vote_inv vs2"
    proof (cases "k = ?me")
      case True
      then show ?thesis using v c(2) inv by simp
    next
      case False
      then show ?thesis using v step.IH [OF step.prems] vote_view_data [where s = s1 and s' = s2, OF c(4) [OF False]] by metis
    qed
  qed
qed

section \<open>Builders and entry point\<close>

definition vote_ix_decodes :: "vote_formats \<Rightarrow> bool" where
  "vote_ix_decodes vf \<longleftrightarrow>
     (\<forall>x bs. bc_serialize (vote_ix_format vf) x = Some bs \<longrightarrow> length bs \<le> PACKET_DATA_SIZE
        \<longrightarrow> vote_ix_limited_deserialize vf bs = Some x)"

definition run_built :: "vote_formats \<Rightarrow> vote_features \<Rightarrow> sysvar_cache \<Rightarrow> store \<Rightarrow> instruction \<Rightarrow> store ix_result" where
  "run_built vf fs sc s ix = vote_process_instruction vf fs sc s (map keyed_of_meta (ix_accounts ix)) 0 (ix_data ix)"

abbreviation writable_key :: "pubkey \<Rightarrow> keyed_account" where
  "writable_key k \<equiv> \<lparr>is_signer = False, is_writable = True, unsigned_key = k\<rparr>"

lemma run_built_Ok:
  assumes "new_with_bincode vote_program_id (vote_ix_format vf) x (meta_new k False # metas) = Ok ix"
    and "length (ix_data ix) \<le> PACKET_DATA_SIZE" and "vote_ix_decodes vf" and "owner (s k) = vote_program_id"
  shows "run_built vf fs sc s ix =
    run_vote_instruction vf fs sc s (writable_key k) (keyed_account_at_index (writable_key k # map keyed_of_meta metas))
      (get_signers (map keyed_of_meta metas)) x"
proof -
  note n = new_with_bincode_Ok [OF assms(1)]
  have "vote_ix_limited_deserialize vf (ix_data ix) = Some x" using assms(2,3) n(3) by (simp add: vote_ix_decodes_def)
  moreover have "get_signers (writable_key k # kas) = get_signers kas" for kas
    by (simp add: get_signers_def map_filter_def signer_key_def)
  moreover have "keyed_account_at_index (x # xs) 0 = Ok x" for x xs by (simp add: keyed_account_at_index_def)
  ultimately show ?thesis
    using assms(4) by (simp add: run_built_def vote_process_instruction_def n(2) ka_owner_def)
qed

text \<open>C32: Each builder of the client library makes an instruction that the entry point carries out as the operation it
  is named after, on the vote account it names and with just the signers it lists.\<close>

theorem vote_builders_agree:
  assumes "vote_ix_decodes vf" and "owner (s k) = vote_program_id" and "length (ix_data ix) \<le> PACKET_DATA_SIZE"
    and "sc_clock sc = Some clk" and "sc_slot_hashes sc = Some hs" and "sc_rent sc = Some r"
    and "bc_deserialize (clock_format vf) (data (s clock_id)) = Some clk"
  shows "(vote_ix vf k a vt = Ok ix \<longrightarrow> run_built vf fs sc s ix = process_vote_account vf s (writable_key k) hs clk vt {a})
    \<and> (vote_switch_ix vf k a vt h = Ok ix \<longrightarrow> run_built vf fs sc s ix = process_vote_account vf s (writable_key k) hs clk vt {a})
    \<and> (authorize_ix vf k a b va = Ok ix \<longrightarrow> run_built vf fs sc s ix =
         authorize_vote vf (vote_withdraw_authority_may_change_authorized_voter fs) s (writable_key k) b va {a} clk)
    \<and> (authorize_checked_ix vf k a b va = Ok ix \<longrightarrow> run_built vf fs sc s ix =
         authorize_vote vf (vote_withdraw_authority_may_change_authorized_voter fs) s (writable_key k) b va {a, b} clk)
    \<and> (update_validator_identity_ix vf k a b = Ok ix \<longrightarrow> run_built vf fs sc s ix =
         update_validator_identity vf s (writable_key k) b {a, b})
    \<and> (update_commission_ix vf k a c = Ok ix \<longrightarrow> run_built vf fs sc s ix = update_commission vf s (writable_key k) c {a})
    \<and> (withdraw_ix vf k a n b = Ok ix \<longrightarrow> run_built vf fs sc s ix =
         withdraw_vote vf s (writable_key k) n (writable_key b) {a}
           (if reject_non_rent_exempt_vote_withdraws fs then Some r else None)
           (if reject_vote_account_close_unless_zero_credit_epoch fs then Some clk else None))
    \<and> (initialize_account_ix vf k init = Ok ix \<longrightarrow> run_built vf fs sc s ix =
         (if is_exempt r (lamports (s k)) (length (data (s k)))
          then initialize_account_vote vf s (writable_key k) init {vi_node_pubkey init} clk else Err InsufficientFunds))"
proof -
  note built = run_built_Ok [where s = s and k = k and fs = fs and sc = sc, OF _ assms(3,1,2)]
  note run = run_vote_instruction_def keyed_account_at_index_def checked_rent_def get_rent_def check_sysvar_keyed_account_def
    checked_sysvar_defs get_signers_Cons assms(4-7)
  show ?thesis
  proof (intro conjI impI)
    assume "vote_ix vf k a vt = Ok ix"
    from built [OF this [unfolded vote_ix_def]]
    show "run_built vf fs sc s ix = process_vote_account vf s (writable_key k) hs clk vt {a}" by (simp add: run)
  next
    assume "vote_switch_ix vf k a vt h = Ok ix"
    from built [OF this [unfolded vote_switch_ix_def]]
    show "run_built vf fs sc s ix = process_vote_account vf s (writable_key k) hs clk vt {a}" by (simp add: run)
  next
    assume "authorize_ix vf k a b va = Ok ix"
    from built [OF this [unfolded authorize_ix_def]]
    show "run_built vf fs sc s ix =
      authorize_vote vf (vote_withdraw_authority_may_change_authorized_voter fs) s (writable_key k) b va {a} clk" by (simp add: run)
  next
    assume "authorize_checked_ix vf k a b va = Ok ix"
    from built [OF this [unfolded authorize_checked_ix_def]]
    show "run_built vf fs sc s ix =
      authorize_vote vf (vote_withdraw_authority_may_change_authorized_voter fs) s (writable_key k) b va {a, b} clk"
      by (simp add: run signer_key_def from_keyed_account_def from_account_def insert_commute)
  next
    assume "update_validator_identity_ix vf k a b = Ok ix"
    from built [OF this [unfolded update_validator_identity_ix_def]]
    show "run_built vf fs sc s ix = update_validator_identity vf s (writable_key k) b {a, b}" by (simp add: run insert_commute)
  next
    assume "update_commission_ix vf k a c = Ok ix"
    from built [OF this [unfolded update_commission_ix_def]]
    show "run_built vf fs sc s ix = update_commission vf s (writable_key k) c {a}" by (simp add: run)
  next
    assume "withdraw_ix vf k a n b = Ok ix"
    from built [OF this [unfolded withdraw_ix_def]]
    show "run_built vf fs sc s ix = withdraw_vote vf s (writable_key k) n (writable_key b) {a}
           (if reject_non_rent_exempt_vote_withdraws fs then Some r else None)
           (if reject_vote_account_close_unless_zero_credit_epoch fs then Some clk else None)" by (simp add: run)
  next
    assume "initialize_account_ix vf k init = Ok ix"
    from built [OF this [unfolded initialize_account_ix_def]]
    show "run_built vf fs sc s ix =
         (if is_exempt r (lamports (s k)) (length (data (s k)))
          then initialize_account_vote vf s (writable_key k) init {vi_node_pubkey init} clk else Err InsufficientFunds)"
      by (simp add: run verify_rent_exemption_def ka_lamports_def ka_data_len_def)
  qed
qed

section \<open>A sample account\<close>

text \<open>A vote account 90 with voter 91 and withdrawer 92, in epoch 4, and a format that knows the states it goes
  through below.\<close>

definition sample_init :: vote_init where
  "sample_init = \<lparr>vi_node_pubkey = 93, vi_authorized_voter = 91, vi_authorized_withdrawer = 92, vi_commission = 10\<rparr>"

definition sample_clock :: clock where
  "sample_clock = clock_default\<lparr>clk_epoch := 4, leader_schedule_epoch := 5\<rparr>"

definition sample_vote_state :: vote_state where
  "sample_vote_state = vote_state_new sample_init sample_clock"

definition sample_formats :: vote_formats where
  "sample_formats =
     \<lparr>state_format = table_format (map Current
        [sample_vote_state, vote_state_default, sample_vote_state\<lparr>commission := 20\<rparr>, process_next_vote_slot 7 4 sample_vote_state]),
      vote_ix_format = table_format [UpdateCommission 20, Vote (vote_new [7] 3)],
      vote_ix_limited_deserialize = bc_deserialize (table_format [UpdateCommission 20, Vote (vote_new [7] 3)]),
      clock_format = table_format [sample_clock], new_rand = (\<lambda>_. 0)\<rparr>"

definition sample_cache :: sysvar_cache where
  "sample_cache = \<lparr>sc_clock = Some sample_clock, sc_epoch_schedule = None, sc_fees = None, sc_rent = Some rent_default,
     sc_slot_hashes = Some [(7, 3)]\<rparr>"

definition sample_features :: vote_features where
  "sample_features = \<lparr>vote_withdraw_authority_may_change_authorized_voter = True, reject_non_rent_exempt_vote_withdraws = True,
     reject_vote_account_close_unless_zero_credit_epoch = True\<rparr>"

definition vote_store :: store where
  "vote_store k =
     (if k = 90 then \<lparr>lamports = 2000000, data = [0], owner = vote_program_id, executable = False, rent_epoch = 0\<rparr>
      else \<lparr>lamports = 5, data = [0], owner = 0, executable = False, rent_epoch = 0\<rparr>)"

lemma sample_formats_ok: "bincode_ok (state_format sample_formats)" "vote_ix_decodes sample_formats"
proof -
  show "bincode_ok (state_format sample_formats)" by (simp add: sample_formats_def bincode_ok_table)
  have "bincode_ok (table_format [UpdateCommission 20, Vote (vote_new [7] 3)])" by (simp add: bincode_ok_table)
  then show "vote_ix_decodes sample_formats"
    using bincode_ok_data by (auto simp: vote_ix_decodes_def sample_formats_def)
qed

lemma sample_view: "vote_view sample_formats vote_store k = Some sample_vote_state"
  by (simp add: vote_view_def get_state_def vote_store_def sample_formats_def table_format_def)

lemma sample_inv: "vote_inv sample_vote_state"
  by (simp add: sample_vote_state_def vote_inv_default)

lemma sample_minimum_balance: "minimum_balance rent_default 1 \<le> 1999000"
proof -
  have "exemption_threshold rent_default = of_nat 1" "unat (lamports_per_byte_year rent_default) = 3480"
    by (simp_all add: rent_default_def default_rate)
  from minimum_balance_exact [OF this(1), of 1] this(2) show ?thesis by (simp add: word_le_nat_alt)
qed


lemma sample_commission:
  obtains s' where "vote_process_instruction sample_formats sample_features sample_cache vote_store
      [writable_key 90, \<lparr>is_signer = True, is_writable = False, unsigned_key = 92\<rparr>] 0 [0] = Ok s'"
    and "vote_view sample_formats s' 90 = Some (sample_vote_state\<lparr>commission := 20\<rparr>)"
proof -
  let ?vs = "sample_vote_state\<lparr>commission := 20\<rparr>"
  have w: "authorized_withdrawer sample_vote_state = 92" "commission sample_vote_state = 10"
    by (simp_all add: sample_vote_state_def vote_state_new_def sample_init_def)
  have v: "get_vote_state sample_formats vote_store (writable_key 90) = Ok sample_vote_state"
    by (simp add: get_vote_state_Ok sample_view)
  have neq: "commission x \<noteq> commission y \<Longrightarrow> x \<noteq> y" for x y :: vote_state by auto
  have ne: "sample_vote_state \<noteq> ?vs" "vote_state_default \<noteq> ?vs"
    by (rule neq, simp add: w vote_state_default_def)+
  have ser: "bc_serialize (state_format sample_formats) (new_current ?vs) = Some [2]"
    using ne by (simp add: sample_formats_def table_format_def new_current_def)
  have dec: "vote_ix_limited_deserialize sample_formats [0] = Some (UpdateCommission 20)"
    by (simp add: sample_formats_def table_format_def)
  have own: "owner (vote_store 90) = vote_program_id" by (simp add: vote_store_def)
  obtain s' where put: "put_vote_state sample_formats vote_store (writable_key 90) ?vs = Ok s'"
    by (auto simp: put_vote_state_def ka_set_state_def set_state_def ser vote_store_def update_cell_def)
  show thesis
  proof
    show "vote_process_instruction sample_formats sample_features sample_cache vote_store
      [writable_key 90, \<lparr>is_signer = True, is_writable = False, unsigned_key = 92\<rparr>] 0 [0] = Ok s'"
      using put
      by (simp add: vote_process_instruction_def keyed_account_at_index_def ka_owner_def dec own run_vote_instruction_def
          update_commission_def v w verify_authorized_signer_def get_signers_def map_filter_def signer_key_def)
    show "vote_view sample_formats s' 90 = Some ?vs"
      using put_vote_state_Ok(1) [OF put sample_formats_ok(1)] by simp
  qed
qed


theorem vote_accounts_invariant_witness:
  "\<exists>s'. vote_run sample_formats vote_store s' \<and> vote_view sample_formats s' 90 = Some (sample_vote_state\<lparr>commission := 20\<rparr>)
     \<and> vote_inv (sample_vote_state\<lparr>commission := 20\<rparr>)"
proof -
  obtain s' where run: "vote_process_instruction sample_formats sample_features sample_cache vote_store
      [writable_key 90, \<lparr>is_signer = True, is_writable = False, unsigned_key = 92\<rparr>] 0 [0] = Ok s'"
      and view: "vote_view sample_formats s' 90 = Some (sample_vote_state\<lparr>commission := 20\<rparr>)"
    by (rule sample_commission)
  have "hashes_ok sample_cache" by (simp add: hashes_ok_def sample_cache_def)
  then have "vote_run sample_formats vote_store s'" by (rule vote_run.step [OF vote_run.start _ run])
  with vote_accounts_invariant [OF this sample_formats_ok(1)] view show ?thesis
    using sample_inv by (auto simp: sample_view)
qed

theorem vote_builders_agree_witness:
  "\<exists>ix. update_commission_ix sample_formats 90 92 20 = Ok ix
     \<and> run_built sample_formats sample_features sample_cache vote_store ix = update_commission sample_formats vote_store (writable_key 90) 20 {92}"
proof -
  obtain ix where ix: "update_commission_ix sample_formats 90 92 20 = Ok ix" "length (ix_data ix) \<le> PACKET_DATA_SIZE"
    by (simp add: update_commission_ix_def new_with_bincode_def sample_formats_def table_format_def PACKET_DATA_SIZE_def)
  have "owner (vote_store 90) = vote_program_id" by (simp add: vote_store_def)
  moreover have "bc_deserialize (clock_format sample_formats) (data (vote_store clock_id)) = Some sample_clock"
    by (simp add: sample_formats_def table_format_def vote_store_def)
  ultimately show ?thesis
    using vote_builders_agree [OF sample_formats_ok(2) _ ix(2), where s = vote_store and k = 90 and sc = sample_cache
        and clk = sample_clock and hs = "[(7, 3)]" and r = rent_default] ix(1)
    by (auto simp: sample_cache_def)
qed

end
