(* ===== verification/Sdk_Epoch_Laws.thy ===== *)
theory Sdk_Epoch_Laws
  imports Sdk_Epoch_Schedule
begin

text \<open>
  The schedule of epochs on natural numbers: how far the saturating functions are exact, and that
  epochs tile the slots.
\<close>

section \<open>Powers of two and saturating products\<close>

lemma unat_saturating_mul:
  "unat (saturating_mul (a :: 'a::len word) b) = min (unat a * unat b) (2 ^ LENGTH('a) - 1)"
proof (cases "unat a * unat b < 2 ^ LENGTH('a)")
  case True
  then have "unat a * unat b \<le> 2 ^ LENGTH('a) - 1" by linarith
  with True show ?thesis by (simp add: saturating_mul_def unat_word_ariths)
next
  case False
  then have "2 ^ LENGTH('a) - 1 \<le> unat a * unat b" by linarith
  with False show ?thesis
    by (simp add: saturating_mul_def unsigned_minus_1_eq_mask mask_eq_exp_minus_1)
qed

lemma unat_saturating_pow:
  "unat (saturating_pow (2 :: u64) n) = min (2 ^ unat n) (2 ^ 64 - 1)"
proof -
  have "unat (((saturating_mul (2 :: u64)) ^^ k) 1) = min (2 ^ k) (2 ^ 64 - 1)" for k
    by (induction k) (auto simp: unat_saturating_mul min_def)
  then show ?thesis by (simp add: saturating_pow_def)
qed

lemma trailing_zeros_power: "k < 64 \<Longrightarrow> trailing_zeros (of_nat (2 ^ k) :: u64) = of_nat k"
proof -
  assume k: "k < 64"
  have "takeWhile (\<lambda>i. \<not> bit (of_nat (2 ^ k) :: u64) i) [0..<64] = [0..<k]"
  proof -
    have "[0..<64] = [0..<k] @ k # [Suc k..<64]"
      using k upt_add_eq_append [of 0 k "64 - k"] by (simp add: upt_conv_Cons)
    moreover have "bit (of_nat (2 ^ k) :: u64) i \<longleftrightarrow> i = k" for i
      using k by (auto simp: bit_simps)
    ultimately show ?thesis by (simp add: takeWhile_append)
  qed
  then show ?thesis by (simp add: trailing_zeros_def)
qed

section \<open>The shape of a schedule\<close>

text \<open>A schedule as \<open>custom\<close> builds it for at most \<open>2^63\<close> slots: \<open>l\<close> doublings of 32 slots lead to normal length.\<close>

definition schedule_ok :: "epoch_schedule \<Rightarrow> bool" where
  "schedule_ok es \<longleftrightarrow> 32 \<le> unat (slots_per_epoch es) \<and> unat (first_normal_epoch es) \<le> 58
     \<and> unat (first_normal_slot es) = 32 * (2 ^ unat (first_normal_epoch es) - 1)"

lemma trailing_zeros_32 [simp]: "trailing_zeros MINIMUM_SLOTS_PER_EPOCH = 5"
  using trailing_zeros_power [of 5] by (simp add: MINIMUM_SLOTS_PER_EPOCH_def)

lemma unat_MINIMUM [simp]: "unat MINIMUM_SLOTS_PER_EPOCH = 32"
  by (simp add: MINIMUM_SLOTS_PER_EPOCH_def)

lemma schedule_ok_custom:
  assumes "epoch_schedule_custom slots offset warm = Ok es" and "unat slots \<le> 2 ^ 63"
  shows "schedule_ok es" and "slots_per_epoch es = slots" and "leader_schedule_slot_offset es = offset"
proof -
  have min: "32 \<le> unat slots"
    using assms(1) by (auto simp: epoch_schedule_custom_def MINIMUM_SLOTS_PER_EPOCH_def word_le_nat_alt split: if_splits)
  let ?k = "ceillog2 (unat slots)"
  have k: "5 \<le> ?k" "?k \<le> 63"
    using min assms(2) by (simp_all add: ceillog2_ge_iff ceillog2_le_iff)
  have np: "next_power_of_two slots = of_nat (2 ^ ?k)" by (simp add: next_power_of_two_def)
  have un: "unat (next_power_of_two slots) = 2 ^ ?k"
  proof -
    have "(2 :: nat) ^ ?k < 2 ^ 64" using k by (intro power_strict_increasing) simp_all
    then have "unat (of_nat (2 ^ ?k) :: u64) = 2 ^ ?k" unfolding unat_of_nat by simp
    then show ?thesis by (simp only: np)
  qed
  have tz: "trailing_zeros (next_power_of_two slots) = of_nat ?k" using k trailing_zeros_power [of ?k] by (simp only: np)
  have "unat (ucast (saturating_sub (of_nat ?k :: u32) 5) :: u64) = ?k - 5"
    using k by (simp add: unsigned_ucast_eq take_bit_nat_eq_self unat_saturating_sub unat_of_nat)
  moreover have "32 * (2 ^ (?k - 5) - 1) = (2 :: nat) ^ ?k - 32"
  proof -
    have "(2 :: nat) ^ ?k = 2 ^ (?k - 5) * 2 ^ 5" using k power_add [of "2 :: nat" "?k - 5" 5] by simp
    then show ?thesis by (simp add: diff_mult_distrib2)
  qed
  ultimately show "schedule_ok es" "slots_per_epoch es = slots" "leader_schedule_slot_offset es = offset"
    using assms(1) min k
    by (auto simp: schedule_ok_def epoch_schedule_custom_def tz Let_def unat_saturating_sub un
        split: if_splits)
qed


text \<open>The functions on natural numbers, as long as nothing saturates.\<close>

lemma unat_slots_in_epoch:
  assumes "schedule_ok es"
  shows "unat (get_slots_in_epoch es e) = (if unat e < unat (first_normal_epoch es) then 2 ^ (unat e + 5) else unat (slots_per_epoch es))"
proof -
  have "unat (saturating_add (ucast e :: u32) 5) = unat e + 5" if "unat e < 58"
    using that by (simp add: unat_saturating_add unsigned_ucast_eq take_bit_nat_eq_self min_def)
  moreover have "(2 :: nat) ^ (unat e + 5) \<le> 2 ^ 62" if "unat e < 58" using that by (intro power_increasing) simp_all
  ultimately show ?thesis
    using assms by (auto simp: get_slots_in_epoch_def schedule_ok_def word_less_nat_alt unat_saturating_pow min_def)
qed

lemma unat_first_slot:
  assumes "schedule_ok es" and "unat e \<le> unat (first_normal_epoch es)
    \<or> unat (first_normal_slot es) + (unat e - unat (first_normal_epoch es)) * unat (slots_per_epoch es) < 2 ^ 64"
  shows "unat (get_first_slot_in_epoch es e) =
    (if unat e \<le> unat (first_normal_epoch es) then 32 * (2 ^ unat e - 1)
     else unat (first_normal_slot es) + (unat e - unat (first_normal_epoch es)) * unat (slots_per_epoch es))"
proof (cases "unat e \<le> unat (first_normal_epoch es)")
  case True
  then have e: "unat e \<le> 58" using assms(1) by (simp add: schedule_ok_def)
  have "unat (ucast e :: u32) = unat e" using e by (simp add: unsigned_ucast_eq take_bit_nat_eq_self)
  moreover have p: "(2 :: nat) ^ unat e \<le> 2 ^ 58" using e by (intro power_increasing) simp_all
  ultimately have "unat (saturating_sub (saturating_pow (2 :: u64) (ucast e)) 1) = 2 ^ unat e - 1"
    by (simp add: unat_saturating_sub unat_saturating_pow min_def)
  moreover have "(2 ^ unat e - 1) * 32 \<le> (2 :: nat) ^ 64 - 1" using p by simp
  ultimately show ?thesis
    using True by (simp add: get_first_slot_in_epoch_def word_le_nat_alt unat_saturating_mul MINIMUM_SLOTS_PER_EPOCH_def)
next
  case False
  then show ?thesis
    using assms(2)
    by (simp add: get_first_slot_in_epoch_def word_le_nat_alt unat_saturating_mul unat_saturating_add unat_saturating_sub)
qed

lemma unat_warmup_epoch:
  assumes "schedule_ok es" and "s < first_normal_slot es" and "get_epoch_and_slot_index es s = (e, i)"
  shows "unat e < unat (first_normal_epoch es)" and "unat s = 32 * (2 ^ unat e - 1) + unat i" and "unat i < 2 ^ (unat e + 5)"
proof -
  let ?l = "unat (first_normal_epoch es)" and ?k = "ceillog2 (unat s + 33)"
  have l: "?l \<le> 58" and s: "unat s < 32 * (2 ^ ?l - 1)"
    using assms(1,2) by (auto simp: schedule_ok_def word_less_nat_alt)
  have p: "(2 :: nat) ^ ?l \<le> 2 ^ 58" using l by (intro power_increasing) simp_all
  have "(2 :: nat) ^ (?l + 5) = 32 * 2 ^ ?l" by (simp add: power_add)
  then have k: "6 \<le> ?k" "?k \<le> ?l + 5"
    using s by (simp_all add: ceillog2_ge_iff ceillog2_le_iff)
  have sum: "unat (saturating_add (saturating_add s MINIMUM_SLOTS_PER_EPOCH) 1) = unat s + 33"
    using s p by (simp add: unat_saturating_add MINIMUM_SLOTS_PER_EPOCH_def)
  have tz: "trailing_zeros (next_power_of_two (saturating_add (saturating_add s MINIMUM_SLOTS_PER_EPOCH) 1)) = of_nat ?k"
    unfolding next_power_of_two_def sum using k l by (intro trailing_zeros_power) simp
  let ?e = "saturating_sub (saturating_sub (of_nat ?k :: u32) 5) 1"
  have e32: "unat ?e = ?k - 6" using k l by (simp add: unat_saturating_sub unat_of_nat)
  have len: "unat (saturating_pow (2 :: u64) (saturating_add ?e 5)) = 2 ^ (?k - 1)"
  proof -
    have "unat (saturating_add ?e 5) = ?k - 1" using k l by (simp add: unat_saturating_add e32 min_def)
    moreover have "(2 :: nat) ^ (?k - 1) \<le> 2 ^ 62" using k l by (intro power_increasing) simp_all
    ultimately show ?thesis by (simp add: unat_saturating_pow)
  qed
  have e: "unat e = ?k - 6" and i: "unat i = unat s - (2 ^ (?k - 1) - 32)"
    using assms(2,3) k l e32
    by (auto simp: get_epoch_and_slot_index_def tz Let_def unat_saturating_sub len
        unsigned_ucast_eq take_bit_nat_eq_self)
  have "(2 :: nat) ^ ?k = 2 * 2 ^ (?k - 1)" using k power_Suc [of "2 :: nat" "?k - 1"] by simp
  then have lo: "2 ^ (?k - 1) < unat s + 33" and hi: "unat s + 33 \<le> 2 * 2 ^ (?k - 1)"
    using two_power_ceillog2_gt [of "unat s + 33"] le_two_power_ceillog2 [of "unat s + 33"] by simp_all
  have len': "(2 :: nat) ^ (unat e + 5) = 2 ^ (?k - 1)" "32 * (2 ^ unat e :: nat) = 2 ^ (?k - 1)"
  proof -
    show a: "(2 :: nat) ^ (unat e + 5) = 2 ^ (?k - 1)" using k by (simp add: e)
    have "32 * (2 :: nat) ^ unat e = 2 ^ (unat e + 5)" by (simp add: power_add)
    with a show "32 * (2 ^ unat e :: nat) = 2 ^ (?k - 1)" by simp
  qed
  have "1 \<le> (2 :: nat) ^ unat e" by simp
  then have len_ge: "32 \<le> (2 :: nat) ^ (?k - 1)" using len'(2) by linarith
  show "unat e < ?l" using k by (simp add: e)
  show "unat s = 32 * (2 ^ unat e - 1) + unat i"
    using lo len_ge len' i by (simp add: diff_mult_distrib2)
  show "unat i < 2 ^ (unat e + 5)" unfolding len'(1) i using lo hi len_ge by linarith
qed

lemma unat_normal_epoch:
  assumes "schedule_ok es" and "\<not> s < first_normal_slot es" and "get_epoch_and_slot_index es s = (e, i)"
  shows "unat e = unat (first_normal_epoch es) + (unat s - unat (first_normal_slot es)) div unat (slots_per_epoch es)"
    and "unat i = (unat s - unat (first_normal_slot es)) mod unat (slots_per_epoch es)"
proof -
  have spe: "slots_per_epoch es \<noteq> 0" "32 \<le> unat (slots_per_epoch es)" "unat (first_normal_epoch es) \<le> 58"
    using assms(1) by (auto simp: schedule_ok_def)
  have "(unat s - unat (first_normal_slot es)) div unat (slots_per_epoch es) \<le> unat s div 32"
  proof -
    have "(unat s - unat (first_normal_slot es)) div unat (slots_per_epoch es) \<le> unat s div unat (slots_per_epoch es)"
      by (rule div_le_mono) simp
    also have "\<dots> \<le> unat s div 32" using spe(2) by (intro div_le_mono2) simp_all
    finally show ?thesis .
  qed
  moreover have "unat s < 2 ^ 64" using unsigned_less [of s] by simp
  ultimately have "unat (first_normal_epoch es) + (unat s - unat (first_normal_slot es)) div unat (slots_per_epoch es) < 2 ^ 64"
    using spe(3) by (simp add: less_eq_div_iff_mult_less_eq)
  then show "unat e = unat (first_normal_epoch es) + (unat s - unat (first_normal_slot es)) div unat (slots_per_epoch es)"
    and "unat i = (unat s - unat (first_normal_slot es)) mod unat (slots_per_epoch es)"
    using assms(2,3) spe(1)
    by (auto simp: get_epoch_and_slot_index_def Let_def checked_div_def checked_rem_def unat_saturating_add unat_saturating_sub
        unat_div unat_mod min_def)
qed

text \<open>C40: Epochs tile the slots: the epoch and index of a slot lead back to the slot, the index is below the length
  of the epoch, and the slot lies between the first and the last slot of its epoch.\<close>

theorem epoch_of_slot:
  assumes "epoch_schedule_custom slots offset warm = Ok es" and "unat slots \<le> 2 ^ 63"
    and "get_epoch_and_slot_index es s = (e, i)" and "unat s < 2 ^ 64 - 1"
  shows "unat s = unat (get_first_slot_in_epoch es e) + unat i \<and> i < get_slots_in_epoch es e
    \<and> get_first_slot_in_epoch es e \<le> s \<and> s \<le> get_last_slot_in_epoch es e"
proof -
  note ok = schedule_ok_custom(1) [OF assms(1,2)]
  have main: "unat s = unat (get_first_slot_in_epoch es e) + unat i \<and> unat i < unat (get_slots_in_epoch es e)"
  proof (cases "s < first_normal_slot es")
    case True
    note w = unat_warmup_epoch [OF ok True assms(3)]
    then show ?thesis by (simp add: unat_first_slot [OF ok] unat_slots_in_epoch [OF ok])
  next
    case False
    note n = unat_normal_epoch [OF ok False assms(3)]
    let ?d = "unat s - unat (first_normal_slot es)" and ?m = "unat (slots_per_epoch es)"
    have m: "0 < ?m" using ok by (simp add: schedule_ok_def)
    have ge: "unat (first_normal_slot es) \<le> unat s" using False by (simp add: word_less_nat_alt)
    have le: "?d div ?m * ?m \<le> ?d" by simp
    have "unat s < 2 ^ 64" using unsigned_less [of s] by simp
    then have "unat (first_normal_slot es) + (unat e - unat (first_normal_epoch es)) * ?m < 2 ^ 64"
      using n(1) ge le by (simp only: add_diff_cancel_left')
    from unat_first_slot [OF ok disjI2 [OF this]]
    have "unat (get_first_slot_in_epoch es e) = unat (first_normal_slot es) + ?d div ?m * ?m"
      using n(1) ok by (auto simp: schedule_ok_def)
    moreover have "?d = ?d div ?m * ?m + ?d mod ?m" by simp
    ultimately show ?thesis
      using n m ge by (simp add: unat_slots_in_epoch [OF ok])
  qed
  with assms(4) show ?thesis
    by (auto simp: word_less_nat_alt word_le_nat_alt get_last_slot_in_epoch_def unat_saturating_add unat_saturating_sub min_def)
qed

lemma sample_schedule:
  "epoch_schedule_custom 100 100 True =
     Ok \<lparr>slots_per_epoch = 100, leader_schedule_slot_offset = 100, warmup = True, first_normal_epoch = 2, first_normal_slot = 96\<rparr>"
proof -
  have logs: "ceillog2 100 = 7" by (rule ceillog2_eqI) simp_all
  show ?thesis
    using trailing_zeros_power [of 7]
    by (simp add: epoch_schedule_custom_def next_power_of_two_def logs MINIMUM_SLOTS_PER_EPOCH_def [symmetric]
        saturating_sub_def checked_sub_def Let_def) (simp add: MINIMUM_SLOTS_PER_EPOCH_def)
qed

theorem epoch_of_slot_witness:
  "\<exists>es. epoch_schedule_new 100 = Ok es \<and> get_epoch_and_slot_index es 97 = (2, 1)
     \<and> unat (97 :: u64) = unat (get_first_slot_in_epoch es 2) + 1"
proof -
  let ?es = "\<lparr>slots_per_epoch = 100, leader_schedule_slot_offset = 100, warmup = True, first_normal_epoch = 2, first_normal_slot = 96\<rparr>"
  have g: "get_epoch_and_slot_index ?es 97 = (2, 1)"
    by (simp add: get_epoch_and_slot_index_def saturating_sub_def checked_sub_def saturating_add_def checked_add_def
        checked_div_def checked_rem_def)
  from epoch_of_slot [OF sample_schedule _ g] sample_schedule g show ?thesis by (auto simp: epoch_schedule_new_def)
qed

section \<open>Consecutive epochs\<close>

text \<open>From the first normal epoch on, the first slots are equally spaced.\<close>

lemma unat_first_slot_normal:
  assumes "schedule_ok es" and "unat (first_normal_epoch es) \<le> unat e"
    and "unat (first_normal_slot es) + (unat e - unat (first_normal_epoch es)) * unat (slots_per_epoch es) < 2 ^ 64"
  shows "unat (get_first_slot_in_epoch es e) = unat (first_normal_slot es) + (unat e - unat (first_normal_epoch es)) * unat (slots_per_epoch es)"
  using unat_first_slot [OF assms(1) disjI2 [OF assms(3)]] assms(1,2) by (auto simp: schedule_ok_def)

lemma unat_first_slot_warmup:
  assumes "schedule_ok es" and "unat e \<le> unat (first_normal_epoch es)"
  shows "unat (get_first_slot_in_epoch es e) = 32 * (2 ^ unat e - 1)"
  using unat_first_slot [OF assms(1) disjI1 [OF assms(2)]] assms(2) by simp

lemma first_normal_slot_bound: "schedule_ok es \<Longrightarrow> unat (first_normal_slot es) < 2 ^ 63"
proof -
  assume ok: "schedule_ok es"
  then have "(2 :: nat) ^ unat (first_normal_epoch es) \<le> 2 ^ 58" by (intro power_increasing) (simp_all add: schedule_ok_def)
  with ok show ?thesis by (simp add: schedule_ok_def)
qed

text \<open>The position of the first slot of an epoch.\<close>

lemma index_of_first_slot:
  assumes ok: "schedule_ok es"
    and fit: "unat (first_normal_slot es) + (unat e - unat (first_normal_epoch es)) * unat (slots_per_epoch es) < 2 ^ 64"
  shows "get_epoch_and_slot_index es (get_first_slot_in_epoch es e) = (e, 0)"
proof -
  let ?l = "unat (first_normal_epoch es)" and ?s = "get_first_slot_in_epoch es e"
  obtain e' i where g: "get_epoch_and_slot_index es ?s = (e', i)" by fastforce
  have fns: "unat (first_normal_slot es) = 32 * (2 ^ ?l - 1)" using ok by (simp add: schedule_ok_def)
  show ?thesis
  proof (cases "?l \<le> unat e")
    case True
    note s = unat_first_slot_normal [OF ok True fit]
    then have "\<not> ?s < first_normal_slot es" by (simp add: word_less_nat_alt)
    note n = unat_normal_epoch [OF ok this g]
    have "unat e' = unat e" "unat i = 0"
      using n s True ok by (auto simp: schedule_ok_def)
    then show ?thesis using g by (simp add: word_unat_eq_iff)
  next
    case False
    then have s: "unat ?s = 32 * (2 ^ unat e - 1)" by (intro unat_first_slot_warmup [OF ok]) simp
    have lt: "(2 :: nat) ^ unat e < 2 ^ ?l" using False by simp
    then have "32 * ((2 :: nat) ^ unat e - 1) < 32 * (2 ^ ?l - 1)" by (simp add: diff_less_mono)
    then have "?s < first_normal_slot es" by (simp add: word_less_nat_alt s fns)
    note w = unat_warmup_epoch [OF ok this g]
    have one: "1 \<le> (2 :: nat) ^ unat e" "1 \<le> (2 :: nat) ^ unat e'" by simp_all
    have len: "(2 :: nat) ^ (unat e' + 5) = 32 * 2 ^ unat e'" by (simp add: power_add)
    have eq: "32 * (2 :: nat) ^ unat e = 32 * 2 ^ unat e' + unat i"
      using w(2) s one by linarith
    have "(2 :: nat) ^ unat e' \<le> 2 ^ unat e" using eq by linarith
    moreover have "(2 :: nat) ^ unat e < 2 ^ Suc (unat e')" using eq w(3) len by simp
    ultimately have "unat e' = unat e" by (simp add: power_increasing_iff power_strict_increasing_iff del: power_Suc)
    with eq have "unat i = 0" by simp
    with \<open>unat e' = unat e\<close> show ?thesis using g by (simp add: word_unat_eq_iff)
  qed
qed

text \<open>The epochs follow each other without gap or overlap: the first slot of the next epoch comes right after the
  last slot of an epoch, and the first slot of an epoch belongs to it, at index 0.\<close>

theorem epochs_contiguous:
  assumes "epoch_schedule_custom slots offset warm = Ok es" and "unat slots \<le> 2 ^ 63"
    and "(unat e + 1) * unat slots \<le> 2 ^ 62"
  shows "get_first_slot_in_epoch es (e + 1) = get_last_slot_in_epoch es e + 1
    \<and> get_epoch_and_slot_index es (get_first_slot_in_epoch es e) = (e, 0)"
proof -
  note ok = schedule_ok_custom(1) [OF assms(1,2)] and m = schedule_ok_custom(2) [OF assms(1,2)]
  let ?l = "unat (first_normal_epoch es)" and ?f = "unat (first_normal_slot es)" and ?m = "unat slots"
  have m32: "32 \<le> ?m" "?l \<le> 58" "?f = 32 * (2 ^ ?l - 1)" using ok m by (simp_all add: schedule_ok_def)
  have fb: "?f < 2 ^ 63" by (rule first_normal_slot_bound [OF ok])
  have "(unat e + 1) * 1 \<le> (unat e + 1) * ?m" using m32 by (intro mult_le_mono2) simp
  then have e1: "unat (e + 1) = unat e + 1" using assms(3) by (simp add: unat_word_ariths)
  have fit: "?f + (d - ?l) * ?m < 2 ^ 64" if "d \<le> unat e + 1" for d
  proof -
    have "(d - ?l) * ?m \<le> (unat e + 1) * ?m" using that by (intro mult_le_mono1) simp
    with assms(3) fb show ?thesis by simp
  qed
  have "unat (get_first_slot_in_epoch es (e + 1)) = unat (get_first_slot_in_epoch es e) + unat (get_slots_in_epoch es e)"
  proof (cases "unat e < ?l")
    case True
    have "1 \<le> (2 :: nat) ^ unat e" by simp
    with True show ?thesis
      using unat_first_slot_warmup [OF ok, of e] unat_first_slot_warmup [OF ok, of "e + 1"]
      by (simp add: e1 unat_slots_in_epoch [OF ok] power_add diff_mult_distrib2)
  next
    case False
    then have "(unat e + 1 - ?l) * ?m = (unat e - ?l) * ?m + ?m" by (simp add: Suc_diff_le)
    with False show ?thesis
      using unat_first_slot_normal [OF ok, of e] unat_first_slot_normal [OF ok, of "e + 1"] fit [of "unat e"] fit [of "unat e + 1"]
      by (simp add: e1 unat_slots_in_epoch [OF ok] m)
  qed
  moreover have "0 < unat (get_slots_in_epoch es e)" using m32 by (simp add: unat_slots_in_epoch [OF ok] m)
  moreover have "unat (get_first_slot_in_epoch es (e + 1)) < 2 ^ 64" using unsigned_less [of "get_first_slot_in_epoch es (e + 1)"] by simp
  ultimately have "unat (get_first_slot_in_epoch es (e + 1)) = unat (get_last_slot_in_epoch es e + 1)"
    by (simp add: get_last_slot_in_epoch_def unat_word_ariths unat_saturating_add unat_saturating_sub)
  then show ?thesis
    using index_of_first_slot [OF ok] fit [of "unat e"] by (simp add: m word_unat_eq_iff)
qed

theorem epochs_contiguous_witness:
  "\<exists>es. epoch_schedule_new 100 = Ok es \<and> get_first_slot_in_epoch es (3 + 1) = get_last_slot_in_epoch es 3 + 1"
  using epochs_contiguous [OF sample_schedule, of 3] sample_schedule by (auto simp: epoch_schedule_new_def)

text \<open>The leader schedule is computed ahead: with an offset of at least an epoch, the schedule saved at a slot is
  for a later epoch than that of the slot, and for the next one when the offset is one epoch.\<close>

theorem leader_schedule_ahead:
  assumes "epoch_schedule_custom slots offset warm = Ok es" and "unat slots \<le> 2 ^ 63" and "slots \<le> offset"
    and "unat s + unat offset < 2 ^ 64"
  shows "get_epoch es s < get_leader_schedule_epoch es s
    \<and> (offset = slots \<longrightarrow> get_leader_schedule_epoch es s = get_epoch es s + 1)"
proof -
  note ok = schedule_ok_custom(1) [OF assms(1,2)] and m = schedule_ok_custom(2,3) [OF assms(1,2)]
  let ?l = "unat (first_normal_epoch es)" and ?d = "unat s - unat (first_normal_slot es)" and ?m = "unat slots"
  have m32: "32 \<le> ?m" "?l \<le> 58" using ok m by (simp_all add: schedule_ok_def)
  obtain e i where g: "get_epoch_and_slot_index es s = (e, i)" by fastforce
  have "unat e < unat (get_leader_schedule_epoch es s)
    \<and> (offset = slots \<longrightarrow> unat (get_leader_schedule_epoch es s) = unat e + 1)"
  proof (cases "s < first_normal_slot es")
    case True
    then show ?thesis
      using unat_warmup_epoch(1) [OF ok True g] m32 by (simp add: get_leader_schedule_epoch_def g unat_saturating_add)
  next
    case False
    note n = unat_normal_epoch(1) [OF ok False g]
    have "(?d + unat offset) div ?m \<le> (?d + unat offset) div 32" using m32 by (intro div_le_mono2) simp_all
    moreover have "?d + unat offset < 2 ^ 64" using assms(4) by simp
    ultimately have fit: "?l + (?d + unat offset) div ?m < 2 ^ 64" "?d + unat offset < 2 ^ 64" using m32 by simp_all
    have ge: "(?d + ?m) div ?m \<le> (?d + unat offset) div ?m" using assms(3) by (intro div_le_mono) (simp add: word_le_nat_alt)
    have "(?d + ?m) div ?m = ?d div ?m + 1" using m32 by simp
    moreover have "slots \<noteq> 0" using m32 by auto
    ultimately show ?thesis
      using False n fit ge
      by (auto simp: get_leader_schedule_epoch_def Let_def unat_saturating_add unat_saturating_sub checked_div_def m unat_div)
  qed
  moreover have "unat (get_leader_schedule_epoch es s) < 2 ^ 64" using unsigned_less [of "get_leader_schedule_epoch es s"] by simp
  ultimately show ?thesis
    by (auto simp: get_epoch_def g word_less_nat_alt word_unat_eq_iff unat_word_ariths)
qed

theorem leader_schedule_ahead_witness:
  "\<exists>es. epoch_schedule_new 100 = Ok es \<and> get_leader_schedule_epoch es 500 = get_epoch es 500 + 1"
  using leader_schedule_ahead [OF sample_schedule, of 500] sample_schedule by (auto simp: epoch_schedule_new_def)

end
