(* ===== verification/System_Program.thy ===== *)
theory System_Program
  imports Runtime_Account Sdk_Builder
begin

text \<open>
  The system program: its errors, instructions and builders (\<open>sdk/program/src/system_instruction.rs\<close>), addresses
  derived from seeds (\<open>sdk/program/src/pubkey.rs\<close>), durable nonces (\<open>sdk/program/src/nonce/state/\<close>,
  \<open>runtime/src/nonce_keyed_account.rs\<close>) and the processor (\<open>runtime/src/system_instruction_processor.rs\<close>).
  The SHA-256 function and the bincode formats are parameters, collected with what the program reads
  from its invocation in \<open>system_env\<close>. A string is the list of its bytes.
\<close>

section \<open>Errors\<close>

datatype system_error =
    AccountAlreadyInUse | ResultWithNegativeLamports | InvalidProgramId | InvalidAccountDataLength
  | SystemMaxSeedLengthExceeded | AddressWithSeedMismatch | NonceNoRecentBlockhashes
  | NonceBlockhashNotExpired | NonceUnexpectedBlockhashValue

fun system_error_code :: "system_error \<Rightarrow> u32" where
  "system_error_code AccountAlreadyInUse = 0"
| "system_error_code ResultWithNegativeLamports = 1"
| "system_error_code InvalidProgramId = 2"
| "system_error_code InvalidAccountDataLength = 3"
| "system_error_code SystemMaxSeedLengthExceeded = 4"
| "system_error_code AddressWithSeedMismatch = 5"
| "system_error_code NonceNoRecentBlockhashes = 6"
| "system_error_code NonceBlockhashNotExpired = 7"
| "system_error_code NonceUnexpectedBlockhashValue = 8"

definition system_err :: "system_error \<Rightarrow> instruction_error" where
  "system_err e = Custom (system_error_code e)"

datatype nonce_error = NoRecentBlockhashes | NotExpired | UnexpectedValue | BadAccountState

text \<open>\<open>NonceErrorAdapter\<close> has the constructors and the numbers of \<open>NonceError\<close>.\<close>

fun nonce_error_code :: "nonce_error \<Rightarrow> u32" where
  "nonce_error_code NoRecentBlockhashes = 0"
| "nonce_error_code NotExpired = 1"
| "nonce_error_code UnexpectedValue = 2"
| "nonce_error_code BadAccountState = 3"

fun nonce_to_instruction_error :: "nonce_error \<Rightarrow> bool \<Rightarrow> instruction_error" where
  "nonce_to_instruction_error e use_system_variant =
     (if use_system_variant
      then case e of
             NoRecentBlockhashes \<Rightarrow> system_err NonceNoRecentBlockhashes
           | NotExpired \<Rightarrow> system_err NonceBlockhashNotExpired
           | UnexpectedValue \<Rightarrow> system_err NonceUnexpectedBlockhashValue
           | BadAccountState \<Rightarrow> InvalidAccountData
      else Custom (nonce_error_code e))"

definition instruction_to_nonce_error :: "instruction_error \<Rightarrow> bool \<Rightarrow> nonce_error option" where
  "instruction_to_nonce_error e use_system_variant =
     (if use_system_variant
      then case e of
             Custom n \<Rightarrow>
               if n = system_error_code NonceNoRecentBlockhashes then Some NoRecentBlockhashes
               else if n = system_error_code NonceBlockhashNotExpired then Some NotExpired
               else if n = system_error_code NonceUnexpectedBlockhashValue then Some UnexpectedValue
               else None
           | InvalidAccountData \<Rightarrow> Some BadAccountState
           | _ \<Rightarrow> None
      else case e of
             Custom n \<Rightarrow>
               if n = 0 then Some NoRecentBlockhashes else if n = 1 then Some NotExpired
               else if n = 2 then Some UnexpectedValue else if n = 3 then Some BadAccountState else None
           | _ \<Rightarrow> None)"

datatype pubkey_error = PkMaxSeedLengthExceeded | PkInvalidSeeds | PkIllegalOwner

fun pubkey_error_code :: "pubkey_error \<Rightarrow> u32" where
  "pubkey_error_code PkMaxSeedLengthExceeded = 0"
| "pubkey_error_code PkInvalidSeeds = 1"
| "pubkey_error_code PkIllegalOwner = 2"

section \<open>Addresses derived from seeds\<close>

type_synonym hash_function = "u8 list list \<Rightarrow> hash_value"

definition MAX_SEED_LEN :: nat where "MAX_SEED_LEN = 32"

definition PDA_MARKER :: "u8 list" where
  "PDA_MARKER = map (of_nat \<circ> of_char) ''ProgramDerivedAddress''"

definition create_with_seed :: "hash_function \<Rightarrow> pubkey \<Rightarrow> u8 list \<Rightarrow> pubkey \<Rightarrow> (pubkey_error, pubkey) result" where
  "create_with_seed hashv base seed owner_key =
     (let owner_bytes = to_bytes owner_key in
      if length seed > MAX_SEED_LEN then Err PkMaxSeedLengthExceeded
      else if length owner_bytes \<ge> length PDA_MARKER
              \<and> drop (length owner_bytes - length PDA_MARKER) owner_bytes = PDA_MARKER then Err PkIllegalOwner
      else Ok (hashv [to_bytes base, seed, owner_bytes]))"

section \<open>Durable nonces\<close>

record nonce_data =
  nd_authority :: pubkey
  nd_durable_nonce :: hash_value
  nd_fee_calculator :: fee_calculator

datatype nonce_state = NonceUninitialized | NonceInitialized nonce_data

datatype nonce_versions = LegacyNonce nonce_state | CurrentNonce nonce_state

definition nonce_data_new :: "pubkey \<Rightarrow> hash_value \<Rightarrow> u64 \<Rightarrow> nonce_data" where
  "nonce_data_new authority durable_nonce lamports_per_signature =
     \<lparr>nd_authority = authority, nd_durable_nonce = durable_nonce,
      nd_fee_calculator = \<lparr>fc_lamports_per_signature = lamports_per_signature\<rparr>\<rparr>"

definition get_lamports_per_signature :: "nonce_data \<Rightarrow> u64" where
  "get_lamports_per_signature d = fc_lamports_per_signature (nd_fee_calculator d)"

definition nonce_versions_new :: "nonce_state \<Rightarrow> bool \<Rightarrow> nonce_versions" where
  "nonce_versions_new st separate_domains = (if separate_domains then CurrentNonce st else LegacyNonce st)"

fun nonce_versions_state :: "nonce_versions \<Rightarrow> nonce_state" where
  "nonce_versions_state (LegacyNonce st) = st"
| "nonce_versions_state (CurrentNonce st) = st"

fun nonce_separate_domains :: "nonce_versions \<Rightarrow> bool" where
  "nonce_separate_domains (LegacyNonce _) = False"
| "nonce_separate_domains (CurrentNonce _) = True"

fun verify_recent_blockhash :: "nonce_versions \<Rightarrow> hash_value \<Rightarrow> bool \<Rightarrow> nonce_data option" where
  "verify_recent_blockhash (LegacyNonce st) blockhash separate_domains =
     (if separate_domains then None
      else case st of NonceUninitialized \<Rightarrow> None | NonceInitialized d \<Rightarrow> if blockhash = nd_durable_nonce d then Some d else None)"
| "verify_recent_blockhash (CurrentNonce st) blockhash separate_domains =
     (case st of NonceUninitialized \<Rightarrow> None | NonceInitialized d \<Rightarrow> if blockhash = nd_durable_nonce d then Some d else None)"

definition DURABLE_NONCE_HASH_PREFIX :: "u8 list" where
  "DURABLE_NONCE_HASH_PREFIX = map (of_nat \<circ> of_char) ''DURABLE_NONCE''"

definition durable_nonce_from_blockhash :: "hash_function \<Rightarrow> hash_value \<Rightarrow> bool \<Rightarrow> hash_value" where
  "durable_nonce_from_blockhash hashv blockhash separate_domains =
     (if separate_domains then hashv [DURABLE_NONCE_HASH_PREFIX, to_bytes blockhash] else blockhash)"

section \<open>Instructions and the environment\<close>

datatype system_instruction =
    SysCreateAccount u64 u64 pubkey
  | SysAssign pubkey
  | SysTransfer u64
  | SysCreateAccountWithSeed pubkey "u8 list" u64 u64 pubkey
  | SysAdvanceNonceAccount
  | SysWithdrawNonceAccount u64
  | SysInitializeNonceAccount pubkey
  | SysAuthorizeNonceAccount pubkey
  | SysAllocate u64
  | SysAllocateWithSeed pubkey "u8 list" u64 pubkey
  | SysAssignWithSeed pubkey "u8 list" pubkey
  | SysTransferWithSeed u64 "u8 list" pubkey

record blockhash_entry =
  be_blockhash :: hash_value
  be_fee_calculator :: fee_calculator

record system_env =
  sha256 :: hash_function
  nonce_format :: "nonce_versions bincode"
  blockhashes_format :: "blockhash_entry list bincode"
  rent_format :: "rent bincode"
  system_ix_format :: "system_instruction bincode"
  system_ix_limited_deserialize :: "u8 list \<Rightarrow> system_instruction option"
  env_blockhash :: hash_value
  env_lamports_per_signature :: u64
  feature_rent_for_sysvars :: bool
  feature_nonce_must_be_writable :: bool
  feature_merge_nonce_error :: bool

definition sysvar_owner_id :: pubkey where
  "sysvar_owner_id = 3010411245944251432122278937989630152839788565688054045150511135798998335488"

definition recent_blockhashes_id :: pubkey where
  "recent_blockhashes_id = 3010411246019275183202241475159751154561037627022909547359528646525818241024"

section \<open>Accounts\<close>

record address =
  addr_address :: pubkey
  addr_base :: "pubkey option"

definition address_is_signer :: "address \<Rightarrow> pubkey set \<Rightarrow> bool" where
  "address_is_signer a signers \<longleftrightarrow> (case addr_base a of Some base \<Rightarrow> base \<in> signers | None \<Rightarrow> addr_address a \<in> signers)"

definition address_create :: "system_env \<Rightarrow> pubkey \<Rightarrow> (pubkey \<times> u8 list \<times> pubkey) option \<Rightarrow> address ix_result" where
  "address_create env addr with_seed =
     and_then (case with_seed of
         Some (base, seed, owner_key) \<Rightarrow>
           and_then (map_err (Custom \<circ> pubkey_error_code) (create_with_seed (sha256 env) base seed owner_key)) (\<lambda>derived.
           if addr \<noteq> derived then Err (system_err AddressWithSeedMismatch) else Ok (Some base))
       | None \<Rightarrow> Ok None) (\<lambda>base.
     Ok \<lparr>addr_address = addr, addr_base = base\<rparr>)"

definition system_allocate :: "account \<Rightarrow> address \<Rightarrow> u64 \<Rightarrow> pubkey set \<Rightarrow> account ix_result" where
  "system_allocate a addr space signers =
     (if \<not> address_is_signer addr signers then Err MissingRequiredSignature
      else if data a \<noteq> [] \<or> owner a \<noteq> system_program_id then Err (system_err AccountAlreadyInUse)
      else if unat space > MAX_PERMITTED_DATA_LENGTH then Err (system_err InvalidAccountDataLength)
      else Ok (a\<lparr>data := replicate (unat space) 0\<rparr>))"

definition system_assign :: "system_env \<Rightarrow> account \<Rightarrow> address \<Rightarrow> pubkey \<Rightarrow> pubkey set \<Rightarrow> account ix_result" where
  "system_assign env a addr new_owner signers =
     (if owner a = new_owner then Ok a
      else if \<not> address_is_signer addr signers then Err MissingRequiredSignature
      else if \<not> feature_rent_for_sysvars env \<and> new_owner = sysvar_owner_id then Err (system_err InvalidProgramId)
      else Ok (a\<lparr>owner := new_owner\<rparr>))"

definition system_allocate_and_assign :: "system_env \<Rightarrow> account \<Rightarrow> address \<Rightarrow> u64 \<Rightarrow> pubkey \<Rightarrow> pubkey set \<Rightarrow> account ix_result" where
  "system_allocate_and_assign env a addr space new_owner signers =
     and_then (system_allocate a addr space signers) (\<lambda>a. system_assign env a addr new_owner signers)"

definition system_transfer_verified :: "store \<Rightarrow> keyed_account \<Rightarrow> keyed_account \<Rightarrow> u64 \<Rightarrow> store ix_result" where
  "system_transfer_verified s from to amount =
     (if data (cell s from) \<noteq> [] then Err InvalidArgument
      else if amount > ka_lamports s from then Err (system_err ResultWithNegativeLamports)
      else
        and_then (map_err lamports_error_into (checked_sub_lamports amount (cell s from))) (\<lambda>a.
        let s = update_cell s from (\<lambda>_. a) in
        and_then (map_err lamports_error_into (checked_add_lamports amount (cell s to))) (\<lambda>a.
        Ok (update_cell s to (\<lambda>_. a)))))"

definition system_transfer :: "store \<Rightarrow> keyed_account \<Rightarrow> keyed_account \<Rightarrow> u64 \<Rightarrow> store ix_result" where
  "system_transfer s from to amount =
     (if signer_key from = None then Err MissingRequiredSignature else system_transfer_verified s from to amount)"

definition system_transfer_with_seed ::
  "system_env \<Rightarrow> store \<Rightarrow> keyed_account \<Rightarrow> keyed_account \<Rightarrow> u8 list \<Rightarrow> pubkey \<Rightarrow> keyed_account \<Rightarrow> u64 \<Rightarrow> store ix_result" where
  "system_transfer_with_seed env s from from_base from_seed from_owner to amount =
     (if signer_key from_base = None then Err MissingRequiredSignature
      else
        and_then (map_err (Custom \<circ> pubkey_error_code)
                    (create_with_seed (sha256 env) (unsigned_key from_base) from_seed from_owner)) (\<lambda>derived.
        if unsigned_key from \<noteq> derived then Err (system_err AddressWithSeedMismatch)
        else system_transfer_verified s from to amount))"

definition system_create_account ::
  "system_env \<Rightarrow> store \<Rightarrow> keyed_account \<Rightarrow> keyed_account \<Rightarrow> address \<Rightarrow> u64 \<Rightarrow> u64 \<Rightarrow> pubkey \<Rightarrow> pubkey set \<Rightarrow> store ix_result" where
  "system_create_account env s from to to_address amount space new_owner signers =
     (if ka_lamports s to > 0 then Err (system_err AccountAlreadyInUse)
      else
        and_then (system_allocate_and_assign env (cell s to) to_address space new_owner signers) (\<lambda>a.
        system_transfer (update_cell s to (\<lambda>_. a)) from to amount))"

section \<open>Nonce accounts\<close>

definition get_durable_nonce :: "system_env \<Rightarrow> hash_value \<times> bool" where
  "get_durable_nonce env = (durable_nonce_from_blockhash (sha256 env) (env_blockhash env) True, True)"

definition advance_nonce_account :: "system_env \<Rightarrow> store \<Rightarrow> keyed_account \<Rightarrow> pubkey set \<Rightarrow> store ix_result" where
  "advance_nonce_account env s me signers =
     (if feature_nonce_must_be_writable env \<and> \<not> is_writable me then Err InvalidArgument
      else
        and_then (ka_state (nonce_format env) s me) (\<lambda>st.
        case nonce_versions_state st of
          NonceInitialized d \<Rightarrow>
            if nd_authority d \<notin> signers then Err MissingRequiredSignature
            else let (next_durable_nonce, separate_domains) = get_durable_nonce env in
                 if nd_durable_nonce d = next_durable_nonce
                 then Err (nonce_to_instruction_error NotExpired (feature_merge_nonce_error env))
                 else ka_set_state (nonce_format env) s me
                        (nonce_versions_new
                           (NonceInitialized (nonce_data_new (nd_authority d) next_durable_nonce (env_lamports_per_signature env)))
                           separate_domains)
        | NonceUninitialized \<Rightarrow> Err (nonce_to_instruction_error BadAccountState (feature_merge_nonce_error env))))"

definition ix_checked_add :: "u64 \<Rightarrow> u64 \<Rightarrow> u64 ix_result" where
  "ix_checked_add a b = ok_or InsufficientFunds (checked_add a b)"

definition withdraw_nonce_account ::
  "system_env \<Rightarrow> store \<Rightarrow> keyed_account \<Rightarrow> u64 \<Rightarrow> keyed_account \<Rightarrow> rent \<Rightarrow> pubkey set \<Rightarrow> store ix_result" where
  "withdraw_nonce_account env s me amount to rnt signers =
     (if feature_nonce_must_be_writable env \<and> \<not> is_writable me then Err InvalidArgument
      else
        and_then (ka_state (nonce_format env) s me) (\<lambda>st.
        and_then (case nonce_versions_state st of
            NonceUninitialized \<Rightarrow>
              if amount > ka_lamports s me then Err InsufficientFunds else Ok (unsigned_key me, s)
          | NonceInitialized d \<Rightarrow>
              and_then
                (if amount = ka_lamports s me
                 then let (durable_nonce, separate_domains) = get_durable_nonce env in
                      if nd_durable_nonce d = durable_nonce
                      then Err (nonce_to_instruction_error NotExpired (feature_merge_nonce_error env))
                      else ka_set_state (nonce_format env) s me (nonce_versions_new NonceUninitialized separate_domains)
                 else
                   and_then (ix_checked_add amount (minimum_balance rnt (ka_data_len s me))) (\<lambda>total.
                   if total > ka_lamports s me then Err InsufficientFunds else Ok s)) (\<lambda>s.
              Ok (nd_authority d, s))) (\<lambda>(signer, s).
        if signer \<notin> signers then Err MissingRequiredSignature
        else
          and_then (ok_or ArithmeticOverflow (checked_sub (ka_lamports s me) amount)) (\<lambda>balance.
          let s = ka_set_lamports s me balance in
          and_then (ok_or ArithmeticOverflow (checked_add (ka_lamports s to) amount)) (\<lambda>balance.
          Ok (ka_set_lamports s to balance))))))"

definition initialize_nonce_account :: "system_env \<Rightarrow> store \<Rightarrow> keyed_account \<Rightarrow> pubkey \<Rightarrow> rent \<Rightarrow> store ix_result" where
  "initialize_nonce_account env s me authority rnt =
     (if feature_nonce_must_be_writable env \<and> \<not> is_writable me then Err InvalidArgument
      else
        and_then (ka_state (nonce_format env) s me) (\<lambda>st.
        case nonce_versions_state st of
          NonceUninitialized \<Rightarrow>
            if ka_lamports s me < minimum_balance rnt (ka_data_len s me) then Err InsufficientFunds
            else let (durable_nonce, separate_domains) = get_durable_nonce env in
                 ka_set_state (nonce_format env) s me
                   (nonce_versions_new
                      (NonceInitialized (nonce_data_new authority durable_nonce (env_lamports_per_signature env))) separate_domains)
        | NonceInitialized _ \<Rightarrow> Err (nonce_to_instruction_error BadAccountState (feature_merge_nonce_error env))))"

definition authorize_nonce_account :: "system_env \<Rightarrow> store \<Rightarrow> keyed_account \<Rightarrow> pubkey \<Rightarrow> pubkey set \<Rightarrow> store ix_result" where
  "authorize_nonce_account env s me authority signers =
     (if feature_nonce_must_be_writable env \<and> \<not> is_writable me then Err InvalidArgument
      else
        and_then (ka_state (nonce_format env) s me) (\<lambda>st.
        case nonce_versions_state st of
          NonceInitialized d \<Rightarrow>
            if nd_authority d \<notin> signers then Err MissingRequiredSignature
            else ka_set_state (nonce_format env) s me
                   (nonce_versions_new
                      (NonceInitialized (nonce_data_new authority (nd_durable_nonce d) (get_lamports_per_signature d)))
                      (nonce_separate_domains st))
        | NonceUninitialized \<Rightarrow> Err (nonce_to_instruction_error BadAccountState (feature_merge_nonce_error env))))"

section \<open>The processor\<close>

text \<open>The match on the instruction; \<open>acct i\<close> is the account at \<open>first_instruction_account + i\<close>.\<close>

definition run_system_instruction ::
  "system_env \<Rightarrow> store \<Rightarrow> (nat \<Rightarrow> keyed_account ix_result) \<Rightarrow> pubkey set \<Rightarrow> system_instruction \<Rightarrow> store ix_result" where
  "run_system_instruction env s acct signers ix =
     (case ix of
        SysCreateAccount amount space new_owner \<Rightarrow>
          and_then (acct 0) (\<lambda>from.
          and_then (acct 1) (\<lambda>to.
          and_then (address_create env (unsigned_key to) None) (\<lambda>to_address.
          system_create_account env s from to to_address amount space new_owner signers)))
      | SysCreateAccountWithSeed base seed amount space new_owner \<Rightarrow>
          and_then (acct 0) (\<lambda>from.
          and_then (acct 1) (\<lambda>to.
          and_then (address_create env (unsigned_key to) (Some (base, seed, new_owner))) (\<lambda>to_address.
          system_create_account env s from to to_address amount space new_owner signers)))
      | SysAssign new_owner \<Rightarrow>
          and_then (acct 0) (\<lambda>ka.
          and_then (address_create env (unsigned_key ka) None) (\<lambda>addr.
          and_then (system_assign env (cell s ka) addr new_owner signers) (\<lambda>a.
          Ok (update_cell s ka (\<lambda>_. a)))))
      | SysTransfer amount \<Rightarrow>
          and_then (acct 0) (\<lambda>from.
          and_then (acct 1) (\<lambda>to.
          system_transfer s from to amount))
      | SysTransferWithSeed amount from_seed from_owner \<Rightarrow>
          and_then (acct 0) (\<lambda>from.
          and_then (acct 1) (\<lambda>base.
          and_then (acct 2) (\<lambda>to.
          system_transfer_with_seed env s from base from_seed from_owner to amount)))
      | SysAdvanceNonceAccount \<Rightarrow>
          and_then (acct 0) (\<lambda>me.
          and_then (acct 1) (\<lambda>ka.
          and_then (from_keyed_account recent_blockhashes_id (blockhashes_format env) s ka) (\<lambda>bhs.
          if bhs = [] then Err (Custom (nonce_error_code NoRecentBlockhashes))
          else advance_nonce_account env s me signers)))
      | SysWithdrawNonceAccount amount \<Rightarrow>
          and_then (acct 0) (\<lambda>me.
          and_then (acct 1) (\<lambda>to.
          and_then (acct 2) (\<lambda>ka.
          and_then (from_keyed_account recent_blockhashes_id (blockhashes_format env) s ka) (\<lambda>_.
          and_then (acct 3) (\<lambda>ka.
          and_then (from_keyed_account rent_id (rent_format env) s ka) (\<lambda>rnt.
          withdraw_nonce_account env s me amount to rnt signers))))))
      | SysInitializeNonceAccount authority \<Rightarrow>
          and_then (acct 0) (\<lambda>me.
          and_then (acct 1) (\<lambda>ka.
          and_then (from_keyed_account recent_blockhashes_id (blockhashes_format env) s ka) (\<lambda>bhs.
          if bhs = [] then Err (Custom (nonce_error_code NoRecentBlockhashes))
          else
            and_then (acct 2) (\<lambda>ka.
            and_then (from_keyed_account rent_id (rent_format env) s ka) (\<lambda>rnt.
            initialize_nonce_account env s me authority rnt)))))
      | SysAuthorizeNonceAccount authority \<Rightarrow>
          and_then (acct 0) (\<lambda>me. authorize_nonce_account env s me authority signers)
      | SysAllocate space \<Rightarrow>
          and_then (acct 0) (\<lambda>ka.
          and_then (address_create env (unsigned_key ka) None) (\<lambda>addr.
          and_then (system_allocate (cell s ka) addr space signers) (\<lambda>a.
          Ok (update_cell s ka (\<lambda>_. a)))))
      | SysAllocateWithSeed base seed space new_owner \<Rightarrow>
          and_then (acct 0) (\<lambda>ka.
          and_then (address_create env (unsigned_key ka) (Some (base, seed, new_owner))) (\<lambda>addr.
          and_then (system_allocate_and_assign env (cell s ka) addr space new_owner signers) (\<lambda>a.
          Ok (update_cell s ka (\<lambda>_. a)))))
      | SysAssignWithSeed base seed new_owner \<Rightarrow>
          and_then (acct 0) (\<lambda>ka.
          and_then (address_create env (unsigned_key ka) (Some (base, seed, new_owner))) (\<lambda>addr.
          and_then (system_assign env (cell s ka) addr new_owner signers) (\<lambda>a.
          Ok (update_cell s ka (\<lambda>_. a))))))"

definition system_process_instruction ::
  "system_env \<Rightarrow> store \<Rightarrow> keyed_account list \<Rightarrow> nat \<Rightarrow> u8 list \<Rightarrow> store ix_result" where
  "system_process_instruction env s keyed_accounts first_instruction_account input =
     and_then (ok_or InvalidInstructionData (system_ix_limited_deserialize env input)) (\<lambda>ix.
     and_then (keyed_account_at_index keyed_accounts first_instruction_account) (\<lambda>_.
     let signers = get_signers (drop first_instruction_account keyed_accounts) in
     run_system_instruction env s (\<lambda>i. keyed_account_at_index keyed_accounts (first_instruction_account + i)) signers ix))"

datatype system_account_kind = SystemKind | NonceKind

definition nonce_state_size :: "system_env \<Rightarrow> ('e, nat) result" where
  "nonce_state_size env =
     (case bc_serialize (nonce_format env) (nonce_versions_new (NonceInitialized (nonce_data_new 0 0 0)) True) of
        Some bs \<Rightarrow> Ok (length bs)
      | None \<Rightarrow> Panic)"

definition get_system_account_kind :: "system_env \<Rightarrow> account \<Rightarrow> ('e, system_account_kind option) result" where
  "get_system_account_kind env a =
     (if owner a = system_program_id
      then if data a = [] then Ok (Some SystemKind)
           else and_then (nonce_state_size env) (\<lambda>size.
             if length (data a) = size
             then Ok (case get_state (nonce_format env) a of
                        Ok versions \<Rightarrow> (case nonce_versions_state versions of NonceUninitialized \<Rightarrow> None | NonceInitialized _ \<Rightarrow> Some NonceKind)
                      | _ \<Rightarrow> None)
             else Ok None)
      else Ok None)"

section \<open>Builders\<close>

definition create_account_ix :: "system_env \<Rightarrow> pubkey \<Rightarrow> pubkey \<Rightarrow> u64 \<Rightarrow> u64 \<Rightarrow> pubkey \<Rightarrow> instruction ix_result" where
  "create_account_ix env from_pubkey to_pubkey amount space new_owner =
     new_with_bincode system_program_id (system_ix_format env) (SysCreateAccount amount space new_owner)
       [meta_new from_pubkey True, meta_new to_pubkey True]"

definition create_account_with_seed_ix ::
  "system_env \<Rightarrow> pubkey \<Rightarrow> pubkey \<Rightarrow> pubkey \<Rightarrow> u8 list \<Rightarrow> u64 \<Rightarrow> u64 \<Rightarrow> pubkey \<Rightarrow> instruction ix_result" where
  "create_account_with_seed_ix env from_pubkey to_pubkey base seed amount space new_owner =
     new_with_bincode system_program_id (system_ix_format env) (SysCreateAccountWithSeed base seed amount space new_owner)
       [meta_new from_pubkey True, meta_new to_pubkey False, meta_new_readonly base True]"

definition assign_ix :: "system_env \<Rightarrow> pubkey \<Rightarrow> pubkey \<Rightarrow> instruction ix_result" where
  "assign_ix env pubkey new_owner =
     new_with_bincode system_program_id (system_ix_format env) (SysAssign new_owner) [meta_new pubkey True]"

definition assign_with_seed_ix :: "system_env \<Rightarrow> pubkey \<Rightarrow> pubkey \<Rightarrow> u8 list \<Rightarrow> pubkey \<Rightarrow> instruction ix_result" where
  "assign_with_seed_ix env address base seed new_owner =
     new_with_bincode system_program_id (system_ix_format env) (SysAssignWithSeed base seed new_owner)
       [meta_new address False, meta_new_readonly base True]"

definition transfer_ix :: "system_env \<Rightarrow> pubkey \<Rightarrow> pubkey \<Rightarrow> u64 \<Rightarrow> instruction ix_result" where
  "transfer_ix env from_pubkey to_pubkey amount =
     new_with_bincode system_program_id (system_ix_format env) (SysTransfer amount)
       [meta_new from_pubkey True, meta_new to_pubkey False]"

definition transfer_with_seed_ix ::
  "system_env \<Rightarrow> pubkey \<Rightarrow> pubkey \<Rightarrow> u8 list \<Rightarrow> pubkey \<Rightarrow> pubkey \<Rightarrow> u64 \<Rightarrow> instruction ix_result" where
  "transfer_with_seed_ix env from_pubkey from_base from_seed from_owner to_pubkey amount =
     new_with_bincode system_program_id (system_ix_format env) (SysTransferWithSeed amount from_seed from_owner)
       [meta_new from_pubkey False, meta_new_readonly from_base True, meta_new to_pubkey False]"

definition allocate_ix :: "system_env \<Rightarrow> pubkey \<Rightarrow> u64 \<Rightarrow> instruction ix_result" where
  "allocate_ix env pubkey space =
     new_with_bincode system_program_id (system_ix_format env) (SysAllocate space) [meta_new pubkey True]"

definition allocate_with_seed_ix :: "system_env \<Rightarrow> pubkey \<Rightarrow> pubkey \<Rightarrow> u8 list \<Rightarrow> u64 \<Rightarrow> pubkey \<Rightarrow> instruction ix_result" where
  "allocate_with_seed_ix env address base seed space new_owner =
     new_with_bincode system_program_id (system_ix_format env) (SysAllocateWithSeed base seed space new_owner)
       [meta_new address False, meta_new_readonly base True]"

definition transfer_many :: "system_env \<Rightarrow> pubkey \<Rightarrow> (pubkey \<times> u64) list \<Rightarrow> instruction list ix_result" where
  "transfer_many env from_pubkey to_lamports =
     try_map (\<lambda>(to_pubkey, amount). transfer_ix env from_pubkey to_pubkey amount) to_lamports"

definition initialize_nonce_ix :: "system_env \<Rightarrow> pubkey \<Rightarrow> pubkey \<Rightarrow> instruction ix_result" where
  "initialize_nonce_ix env nonce_pubkey authority =
     new_with_bincode system_program_id (system_ix_format env) (SysInitializeNonceAccount authority)
       [meta_new nonce_pubkey False, meta_new_readonly recent_blockhashes_id False, meta_new_readonly rent_id False]"

definition create_nonce_account_with_seed_ix ::
  "system_env \<Rightarrow> pubkey \<Rightarrow> pubkey \<Rightarrow> pubkey \<Rightarrow> u8 list \<Rightarrow> pubkey \<Rightarrow> u64 \<Rightarrow> instruction list ix_result" where
  "create_nonce_account_with_seed_ix env from_pubkey nonce_pubkey base seed authority amount =
     and_then (nonce_state_size env) (\<lambda>size.
     and_then (create_account_with_seed_ix env from_pubkey nonce_pubkey base seed amount (of_nat size) system_program_id) (\<lambda>a.
     and_then (initialize_nonce_ix env nonce_pubkey authority) (\<lambda>b. Ok [a, b])))"

definition create_nonce_account_ix :: "system_env \<Rightarrow> pubkey \<Rightarrow> pubkey \<Rightarrow> pubkey \<Rightarrow> u64 \<Rightarrow> instruction list ix_result" where
  "create_nonce_account_ix env from_pubkey nonce_pubkey authority amount =
     and_then (nonce_state_size env) (\<lambda>size.
     and_then (create_account_ix env from_pubkey nonce_pubkey amount (of_nat size) system_program_id) (\<lambda>a.
     and_then (initialize_nonce_ix env nonce_pubkey authority) (\<lambda>b. Ok [a, b])))"

definition advance_nonce_account_ix :: "system_env \<Rightarrow> pubkey \<Rightarrow> pubkey \<Rightarrow> instruction ix_result" where
  "advance_nonce_account_ix env nonce_pubkey authorized_pubkey =
     new_with_bincode system_program_id (system_ix_format env) SysAdvanceNonceAccount
       [meta_new nonce_pubkey False, meta_new_readonly recent_blockhashes_id False, meta_new_readonly authorized_pubkey True]"

definition withdraw_nonce_account_ix :: "system_env \<Rightarrow> pubkey \<Rightarrow> pubkey \<Rightarrow> pubkey \<Rightarrow> u64 \<Rightarrow> instruction ix_result" where
  "withdraw_nonce_account_ix env nonce_pubkey authorized_pubkey to_pubkey amount =
     new_with_bincode system_program_id (system_ix_format env) (SysWithdrawNonceAccount amount)
       [meta_new nonce_pubkey False, meta_new to_pubkey False, meta_new_readonly recent_blockhashes_id False,
        meta_new_readonly rent_id False, meta_new_readonly authorized_pubkey True]"

definition authorize_nonce_account_ix :: "system_env \<Rightarrow> pubkey \<Rightarrow> pubkey \<Rightarrow> pubkey \<Rightarrow> instruction ix_result" where
  "authorize_nonce_account_ix env nonce_pubkey authorized_pubkey new_authority =
     new_with_bincode system_program_id (system_ix_format env) (SysAuthorizeNonceAccount new_authority)
       [meta_new nonce_pubkey False, meta_new_readonly authorized_pubkey True]"

end
