(* ===== verification/System_Laws.thy ===== *)
theory System_Laws
  imports System_Program Sdk_Lamports
begin

text \<open>
  What each operation of the system program changes and who has to have signed: the inversion of every successful
  operation, the change of an account as one predicate, and the life of a durable nonce as a step relation.
\<close>

section \<open>Control of an account\<close>

definition nonce_view :: "system_env \<Rightarrow> store \<Rightarrow> pubkey \<Rightarrow> nonce_versions option" where
  "nonce_view env s k = bc_deserialize (nonce_format env) (data (s k))"

text \<open>A key is controlled by the signers if it signed, is derived from a key that signed, or holds a nonce whose
  authority signed.\<close>

definition controls :: "system_env \<Rightarrow> pubkey set \<Rightarrow> store \<Rightarrow> pubkey \<Rightarrow> bool" where
  "controls env signers s k \<longleftrightarrow>
     k \<in> signers
     \<or> (\<exists>base seed o'. base \<in> signers \<and> create_with_seed (sha256 env) base seed o' = Ok k)
     \<or> (\<exists>v d. nonce_view env s k = Some v \<and> nonce_versions_state v = NonceInitialized d \<and> nd_authority d \<in> signers)"

definition nonce_now :: "system_env \<Rightarrow> hash_value" where
  "nonce_now env = fst (get_durable_nonce env)"

lemma get_durable_nonce_eq: "get_durable_nonce env = (nonce_now env, True)"
  by (simp add: nonce_now_def get_durable_nonce_def)

definition credited :: "account \<Rightarrow> account \<Rightarrow> bool" where
  "credited a a' \<longleftrightarrow> a' = a\<lparr>lamports := lamports a'\<rparr> \<and> unat (lamports a) \<le> unat (lamports a')"

definition nonce_initialized :: "system_env \<Rightarrow> store \<Rightarrow> store \<Rightarrow> pubkey \<Rightarrow> bool" where
  "nonce_initialized env s s' k \<longleftrightarrow>
     (\<exists>v auth. nonce_view env s k = Some v \<and> nonce_versions_state v = NonceUninitialized
        \<and> nonce_view env s' k
          = Some (CurrentNonce (NonceInitialized (nonce_data_new auth (nonce_now env) (env_lamports_per_signature env))))
        \<and> s' k = (s k)\<lparr>data := data (s' k)\<rparr>)"

definition system_change :: "system_env \<Rightarrow> pubkey set \<Rightarrow> store \<Rightarrow> store \<Rightarrow> bool" where
  "system_change env signers s s' \<longleftrightarrow>
     (\<forall>k. controls env signers s k \<or> credited (s k) (s' k) \<or> nonce_initialized env s s' k)"

lemma credited_refl [simp]: "credited a a"
  by (simp add: credited_def)

lemma system_changeI:
  assumes "\<And>k. \<not> controls env signers s k \<Longrightarrow> credited (s k) (s' k) \<or> nonce_initialized env s s' k"
  shows "system_change env signers s s'"
  using assms by (auto simp: system_change_def)

section \<open>Operations on one account\<close>

lemma address_create_Ok:
  assumes "address_create env k with_seed = Ok addr" and "address_is_signer addr signers"
  shows "controls env signers s k"
  using assms by (auto simp: address_create_def address_is_signer_def controls_def ok_simps split: option.splits prod.splits)

lemma system_allocate_Ok:
  "system_allocate a addr space signers = Ok a' \<longleftrightarrow>
     address_is_signer addr signers \<and> data a = [] \<and> owner a = system_program_id
     \<and> unat space \<le> MAX_PERMITTED_DATA_LENGTH \<and> a' = a\<lparr>data := replicate (unat space) 0\<rparr>"
  by (auto simp: system_allocate_def ok_simps)

lemma system_assign_Ok:
  "system_assign env a addr o' signers = Ok a' \<longleftrightarrow>
     (if owner a = o' then a' = a
      else address_is_signer addr signers \<and> (feature_rent_for_sysvars env \<or> o' \<noteq> sysvar_owner_id) \<and> a' = a\<lparr>owner := o'\<rparr>)"
  by (auto simp: system_assign_def ok_simps)

lemma system_allocate_and_assign_Ok:
  "system_allocate_and_assign env a addr space o' signers = Ok a' \<longleftrightarrow>
     address_is_signer addr signers \<and> data a = [] \<and> owner a = system_program_id
     \<and> unat space \<le> MAX_PERMITTED_DATA_LENGTH
     \<and> (o' = system_program_id \<or> feature_rent_for_sysvars env \<or> o' \<noteq> sysvar_owner_id)
     \<and> a' = a\<lparr>data := replicate (unat space) 0, owner := o'\<rparr>"
  by (auto simp: system_allocate_and_assign_def ok_simps system_allocate_Ok system_assign_Ok split: if_splits)

section \<open>Transfers\<close>

lemma system_transfer_verified_Ok:
  assumes "system_transfer_verified s from to n = Ok s'"
  shows "data (cell s from) = []" and "moved (unsigned_key from) (unsigned_key to) n s s'"
  using assms moved_Ok by (auto simp: system_transfer_verified_def simp del: Let_def split: if_splits)

lemma system_transfer_Ok:
  assumes "system_transfer s from to n = Ok s'"
  shows "is_signer from" and "data (cell s from) = []" and "moved (unsigned_key from) (unsigned_key to) n s s'"
  using assms system_transfer_verified_Ok by (auto simp: system_transfer_def split: if_splits)

lemma system_transfer_with_seed_Ok:
  assumes "system_transfer_with_seed env s from base seed o' to n = Ok s'"
  shows "is_signer base" and "create_with_seed (sha256 env) (unsigned_key base) seed o' = Ok (unsigned_key from)"
    and "data (cell s from) = []" and "moved (unsigned_key from) (unsigned_key to) n s s'"
  using assms system_transfer_verified_Ok
  by (auto simp: system_transfer_with_seed_def ok_simps split: if_splits)

lemma system_create_account_Ok:
  assumes "system_create_account env s from to addr n space o' signers = Ok s'"
  obtains a where "lamports (cell s to) = 0" and "address_is_signer addr signers" and "is_signer from"
    and "data (cell s to) = []" and "owner (cell s to) = system_program_id" and "unat space \<le> MAX_PERMITTED_DATA_LENGTH"
    and "a = (cell s to)\<lparr>data := replicate (unat space) 0, owner := o'\<rparr>"
    and "data ((s(unsigned_key to := a)) (unsigned_key from)) = []"
    and "moved (unsigned_key from) (unsigned_key to) n (s(unsigned_key to := a)) s'"
proof -
  from assms obtain a where free: "lamports (cell s to) = 0"
      and a: "system_allocate_and_assign env (cell s to) addr space o' signers = Ok a"
      and tr: "system_transfer (s(unsigned_key to := a)) from to n = Ok s'"
    by (auto simp: system_create_account_def ok_simps ka_lamports_def update_cell_def word_gt_0)
  show thesis
    using that [OF free _ system_transfer_Ok(1) [OF tr] _ _ _ _ system_transfer_Ok(2,3) [OF tr]] a
    by (simp add: system_allocate_and_assign_Ok)
qed

section \<open>Nonce operations\<close>

lemma ka_set_state_view:
  assumes "ka_set_state (nonce_format env) s me v = Ok s'" and "bincode_ok (nonce_format env)"
  shows "nonce_view env s' (unsigned_key me) = Some v"
    and "s' (unsigned_key me) = (s (unsigned_key me))\<lparr>data := data (s' (unsigned_key me))\<rparr>"
    and "k \<noteq> unsigned_key me \<Longrightarrow> s' k = s k" and "lamports (s' k) = lamports (s k)"
  using ka_state_set_state [OF assms(2,1)] assms(1)
  by (auto simp: nonce_view_def ka_state_def get_state_def ka_set_state_def set_state_def update_cell_def ok_simps
      split: option.splits if_splits)

lemma nonce_state_view: "ka_state (nonce_format env) s me = Ok v \<longleftrightarrow> nonce_view env s (unsigned_key me) = Some v"
  by (simp add: ka_state_def get_state_def nonce_view_def ok_simps)

lemma nonce_state_Ok_iff [ok_simps]:
  "(case st of NonceUninitialized \<Rightarrow> Err e | NonceInitialized d \<Rightarrow> f d) = Ok y \<longleftrightarrow> (\<exists>d. st = NonceInitialized d \<and> f d = Ok y)"
  "(case st of NonceUninitialized \<Rightarrow> r | NonceInitialized d \<Rightarrow> Err e) = Ok y \<longleftrightarrow> st = NonceUninitialized \<and> r = Ok y"
  by (cases st; simp)+

lemma advance_nonce_account_Ok:
  assumes "advance_nonce_account env s me signers = Ok s'"
  obtains v d where "nonce_view env s (unsigned_key me) = Some v" and "nonce_versions_state v = NonceInitialized d"
    and "nd_authority d \<in> signers" and "nd_durable_nonce d \<noteq> nonce_now env"
    and "ka_set_state (nonce_format env) s me
      (CurrentNonce (NonceInitialized (nonce_data_new (nd_authority d) (nonce_now env) (env_lamports_per_signature env)))) = Ok s'"
  using assms that
  by (auto simp: advance_nonce_account_def ok_simps nonce_state_view get_durable_nonce_eq nonce_versions_new_def)

lemma authorize_nonce_account_Ok:
  assumes "authorize_nonce_account env s me auth signers = Ok s'"
  obtains v d where "nonce_view env s (unsigned_key me) = Some v" and "nonce_versions_state v = NonceInitialized d"
    and "nd_authority d \<in> signers"
    and "ka_set_state (nonce_format env) s me
      (nonce_versions_new (NonceInitialized (d\<lparr>nd_authority := auth\<rparr>)) (nonce_separate_domains v)) = Ok s'"
proof -
  have "nonce_data_new auth (nd_durable_nonce d) (get_lamports_per_signature d) = d\<lparr>nd_authority := auth\<rparr>" for d
    by (simp add: nonce_data_new_def get_lamports_per_signature_def)
  then show thesis
    using assms that
    by (auto simp: authorize_nonce_account_def ok_simps nonce_state_view)
qed

lemma initialize_nonce_account_Ok:
  assumes "initialize_nonce_account env s me auth r = Ok s'"
  obtains v where "nonce_view env s (unsigned_key me) = Some v" and "nonce_versions_state v = NonceUninitialized"
    and "minimum_balance r (length (data (cell s me))) \<le> lamports (cell s me)"
    and "ka_set_state (nonce_format env) s me
      (CurrentNonce (NonceInitialized (nonce_data_new auth (nonce_now env) (env_lamports_per_signature env)))) = Ok s'"
  using assms that
  by (auto simp: initialize_nonce_account_def ok_simps nonce_state_view get_durable_nonce_eq nonce_versions_new_def
      ka_lamports_def ka_data_len_def not_less)

lemma withdraw_nonce_account_Ok:
  assumes "withdraw_nonce_account env s me n to r signers = Ok s'"
  obtains v s1 where "nonce_view env s (unsigned_key me) = Some v"
    and "case nonce_versions_state v of
           NonceUninitialized \<Rightarrow> unsigned_key me \<in> signers \<and> s1 = s
         | NonceInitialized d \<Rightarrow> nd_authority d \<in> signers
             \<and> (if n = lamports (cell s me)
                then nd_durable_nonce d \<noteq> nonce_now env
                  \<and> ka_set_state (nonce_format env) s me (CurrentNonce NonceUninitialized) = Ok s1
                else s1 = s \<and> unat n + unat (minimum_balance r (length (data (cell s me)))) \<le> unat (lamports (cell s me)))"
    and "moved (unsigned_key me) (unsigned_key to) n s1 s'"
proof -
  have sum: "unat a + unat b \<le> unat c" if "ix_checked_add a b = Ok t" "t \<le> c" for a b c t :: u64
    using that by (auto simp: ix_checked_add_def ok_simps word_le_nat_alt)
  show thesis
    using assms unfolding withdraw_nonce_account_def
    apply (elim ok_elims)
    subgoal premises run for v signer s1
    proof (rule that)
      show "nonce_view env s (unsigned_key me) = Some v"
        using run by (simp add: nonce_state_view)
      show "moved (unsigned_key me) (unsigned_key to) n s1 s'"
        using run by (intro moved_set_lamports [where e = ArithmeticOverflow and e' = ArithmeticOverflow]) simp
      show "case nonce_versions_state v of
           NonceUninitialized \<Rightarrow> unsigned_key me \<in> signers \<and> s1 = s
         | NonceInitialized d \<Rightarrow> nd_authority d \<in> signers
             \<and> (if n = lamports (cell s me)
                then nd_durable_nonce d \<noteq> nonce_now env
                  \<and> ka_set_state (nonce_format env) s me (CurrentNonce NonceUninitialized) = Ok s1
                else s1 = s \<and> unat n + unat (minimum_balance r (length (data (cell s me)))) \<le> unat (lamports (cell s me)))"
        using run
        by (auto simp: ok_simps get_durable_nonce_eq nonce_versions_new_def ka_lamports_def ka_data_len_def not_less
            intro: sum split: nonce_state.splits if_splits)
    qed
    done
qed

end
