(* ===== verification/System_Effects.thy ===== *)
theory System_Effects
  imports System_Laws
begin

text \<open>
  The effect of a system instruction as a step relation, that every instruction of the program has such an effect, and
  what an effect respects: who may change an account, the lamports of the accounts, the nonces that are accepted.
\<close>

section \<open>The effect of an instruction\<close>

inductive system_effect :: "system_env \<Rightarrow> pubkey set \<Rightarrow> pubkey set \<Rightarrow> store \<Rightarrow> store \<Rightarrow> bool"
  for env :: system_env and K :: "pubkey set" and signers :: "pubkey set" where
  keep: "system_effect env K signers s s"
| rewrite: "k \<in> K \<Longrightarrow> controls env signers s k \<Longrightarrow> lamports a = lamports (s k) \<Longrightarrow>
    data a = data (s k) \<or> data (s k) = [] \<and> data a = replicate m 0
    \<Longrightarrow> system_effect env K signers s (s(k := a))"
| pay: "k \<in> K \<Longrightarrow> k' \<in> K \<Longrightarrow> controls env signers s k \<Longrightarrow> data (s k) = [] \<Longrightarrow> moved k k' n s s'
    \<Longrightarrow> system_effect env K signers s s'"
| create: "k \<in> K \<Longrightarrow> k' \<in> K \<Longrightarrow> controls env signers s k \<Longrightarrow> controls env signers s k' \<Longrightarrow> data (s k') = [] \<Longrightarrow>
    lamports a = lamports (s k') \<Longrightarrow> data a = replicate m 0 \<Longrightarrow> moved k k' n (s(k' := a)) s' \<Longrightarrow> system_effect env K signers s s'"
| advance: "unsigned_key me \<in> K \<Longrightarrow> nonce_view env s (unsigned_key me) = Some v \<Longrightarrow> nonce_versions_state v = NonceInitialized d \<Longrightarrow>
    nd_authority d \<in> signers \<Longrightarrow> nd_durable_nonce d \<noteq> nonce_now env \<Longrightarrow>
    ka_set_state (nonce_format env) s me
      (CurrentNonce (NonceInitialized (nonce_data_new (nd_authority d) (nonce_now env) (env_lamports_per_signature env)))) = Ok s'
    \<Longrightarrow> system_effect env K signers s s'"
| authorize: "unsigned_key me \<in> K \<Longrightarrow> nonce_view env s (unsigned_key me) = Some v \<Longrightarrow> nonce_versions_state v = NonceInitialized d \<Longrightarrow>
    nd_authority d \<in> signers \<Longrightarrow>
    ka_set_state (nonce_format env) s me
      (nonce_versions_new (NonceInitialized (d\<lparr>nd_authority := auth\<rparr>)) (nonce_separate_domains v)) = Ok s'
    \<Longrightarrow> system_effect env K signers s s'"
| initialize: "unsigned_key me \<in> K \<Longrightarrow> nonce_view env s (unsigned_key me) = Some v \<Longrightarrow> nonce_versions_state v = NonceUninitialized \<Longrightarrow>
    ka_set_state (nonce_format env) s me
      (CurrentNonce (NonceInitialized (nonce_data_new auth (nonce_now env) (env_lamports_per_signature env)))) = Ok s'
    \<Longrightarrow> system_effect env K signers s s'"
| withdraw: "k \<in> K \<Longrightarrow> k' \<in> K \<Longrightarrow> controls env signers s k \<Longrightarrow> nonce_view env s k = Some v \<Longrightarrow> moved k k' n s s'
    \<Longrightarrow> system_effect env K signers s s'"
| close: "unsigned_key me \<in> K \<Longrightarrow> k' \<in> K \<Longrightarrow> nonce_view env s (unsigned_key me) = Some v \<Longrightarrow>
    nonce_versions_state v = NonceInitialized d \<Longrightarrow> nd_authority d \<in> signers \<Longrightarrow> nd_durable_nonce d \<noteq> nonce_now env \<Longrightarrow>
    ka_set_state (nonce_format env) s me (CurrentNonce NonceUninitialized) = Ok s1 \<Longrightarrow>
    moved (unsigned_key me) k' (lamports (s (unsigned_key me))) s1 s'
    \<Longrightarrow> system_effect env K signers s s'"

lemma controls_signer: "k \<in> signers \<Longrightarrow> controls env signers s k"
  by (simp add: controls_def)

lemma controls_authority:
  "nonce_view env s k = Some v \<Longrightarrow> nonce_versions_state v = NonceInitialized d \<Longrightarrow> nd_authority d \<in> signers
   \<Longrightarrow> controls env signers s k"
  by (auto simp: controls_def)

lemma withdraw_effect:
  assumes "withdraw_nonce_account env s me n to r signers = Ok s'" and "unsigned_key me \<in> K" and "unsigned_key to \<in> K"
  shows "system_effect env K signers s s'"
  using assms(1)
proof (rule withdraw_nonce_account_Ok)
  fix v s1
  assume v: "nonce_view env s (unsigned_key me) = Some v"
    and s1: "case nonce_versions_state v of
           NonceUninitialized \<Rightarrow> unsigned_key me \<in> signers \<and> s1 = s
         | NonceInitialized d \<Rightarrow> nd_authority d \<in> signers
             \<and> (if n = lamports (cell s me)
                then nd_durable_nonce d \<noteq> nonce_now env
                  \<and> ka_set_state (nonce_format env) s me (CurrentNonce NonceUninitialized) = Ok s1
                else s1 = s \<and> unat n + unat (minimum_balance r (length (data (cell s me)))) \<le> unat (lamports (cell s me)))"
    and mv: "moved (unsigned_key me) (unsigned_key to) n s1 s'"
  show ?thesis
  proof (cases "nonce_versions_state v")
    case NonceUninitialized
    then show ?thesis
      using s1 v mv assms(2,3) by (auto intro: withdraw controls_signer)
  next
    case (NonceInitialized d)
    then show ?thesis
      using s1 v mv assms(2,3) by (auto intro: withdraw close controls_authority split: if_splits)
  qed
qed

lemma create_effect:
  assumes "system_create_account env s from to addr n space o' signers = Ok s'"
    and "address_create env (unsigned_key to) with_seed = Ok addr"
    and "unsigned_key from \<in> K" and "unsigned_key to \<in> K" and "is_signer from \<Longrightarrow> unsigned_key from \<in> signers"
  shows "system_effect env K signers s s'"
  using assms(1)
proof (rule system_create_account_Ok)
  fix a
  assume "address_is_signer addr signers" "is_signer from" "data (cell s to) = []"
    "a = (cell s to)\<lparr>data := replicate (unat space) 0, owner := o'\<rparr>"
    "moved (unsigned_key from) (unsigned_key to) n (s(unsigned_key to := a)) s'"
  then show ?thesis
    using assms(3-5) address_create_Ok [OF assms(2)] by (intro create) (auto intro: controls_signer)
qed

lemma assign_effect:
  assumes "system_assign env (cell s ka) addr o' signers = Ok a" and "address_create env (unsigned_key ka) with_seed = Ok addr"
    and "unsigned_key ka \<in> K"
  shows "system_effect env K signers s (update_cell s ka (\<lambda>_. a))"
proof (cases "owner (cell s ka) = o'")
  case True
  then show ?thesis using assms(1) by (simp add: system_assign_Ok update_cell_def keep)
next
  case False
  then show ?thesis
    using assms address_create_Ok [OF assms(2)] by (auto simp: system_assign_Ok update_cell_def intro!: rewrite)
qed

lemma transfer_effect:
  assumes "system_transfer s from to n = Ok s'"
    and "unsigned_key from \<in> K" and "unsigned_key to \<in> K" and "is_signer from \<Longrightarrow> unsigned_key from \<in> signers"
  shows "system_effect env K signers s s'"
  using system_transfer_Ok [OF assms(1)] assms(2-4) by (auto intro: pay controls_signer)

lemma transfer_with_seed_effect:
  assumes "system_transfer_with_seed env s from base seed o' to n = Ok s'"
    and "unsigned_key from \<in> K" and "unsigned_key to \<in> K" and "is_signer base \<Longrightarrow> unsigned_key base \<in> signers"
  shows "system_effect env K signers s s'"
proof (rule pay [OF assms(2,3) _ system_transfer_with_seed_Ok(3,4) [OF assms(1)]])
  show "controls env signers s (unsigned_key from)"
    using system_transfer_with_seed_Ok(1,2) [OF assms(1)] assms(4) by (auto simp: controls_def)
qed

lemma advance_effect:
  "advance_nonce_account env s me signers = Ok s' \<Longrightarrow> unsigned_key me \<in> K \<Longrightarrow> system_effect env K signers s s'"
  by (erule advance_nonce_account_Ok) (rule advance)

lemma authorize_effect:
  "authorize_nonce_account env s me auth signers = Ok s' \<Longrightarrow> unsigned_key me \<in> K \<Longrightarrow> system_effect env K signers s s'"
  by (erule authorize_nonce_account_Ok) (rule authorize)

lemma initialize_effect:
  "initialize_nonce_account env s me auth r = Ok s' \<Longrightarrow> unsigned_key me \<in> K \<Longrightarrow> system_effect env K signers s s'"
  by (erule initialize_nonce_account_Ok) (rule initialize)

lemma allocate_effect:
  assumes "system_allocate (cell s ka) addr space signers = Ok a" and "address_create env (unsigned_key ka) with_seed = Ok addr"
    and "unsigned_key ka \<in> K"
  shows "system_effect env K signers s (update_cell s ka (\<lambda>_. a))"
  using assms address_create_Ok [OF assms(2)] by (auto simp: system_allocate_Ok update_cell_def intro!: rewrite)

lemma allocate_and_assign_effect:
  assumes "system_allocate_and_assign env (cell s ka) addr space o' signers = Ok a"
    and "address_create env (unsigned_key ka) with_seed = Ok addr" and "unsigned_key ka \<in> K"
  shows "system_effect env K signers s (update_cell s ka (\<lambda>_. a))"
  using assms address_create_Ok [OF assms(2)] by (auto simp: system_allocate_and_assign_Ok update_cell_def intro!: rewrite)

lemmas operation_effects = withdraw_effect create_effect assign_effect transfer_effect transfer_with_seed_effect
  advance_effect authorize_effect initialize_effect allocate_effect allocate_and_assign_effect

lemma run_system_instruction_effect:
  assumes "run_system_instruction env s acct signers ix = Ok s'"
    and "\<And>i ka. acct i = Ok ka \<Longrightarrow> unsigned_key ka \<in> K \<and> (is_signer ka \<longrightarrow> unsigned_key ka \<in> signers)"
  shows "system_effect env K signers s s'"
proof -
  note acct = assms(2) [THEN conjunct1] assms(2) [THEN conjunct2, rule_format]
  show ?thesis
    using assms(1)
    by (cases ix) (auto simp: run_system_instruction_def ok_simps intro: operation_effects acct)
qed

section \<open>What an effect respects\<close>

lemma effect_change:
  assumes "system_effect env K signers s s'" and "bincode_ok (nonce_format env)"
  shows "system_change env signers s s'"
  using assms
proof (induction rule: system_effect.induct)
  case (pay k k' s n s')
  then show ?case by (intro system_changeI) (auto simp: credited_def intro: moved_simps)
next
  case (create k k' s a m n s')
  show ?case
  proof (rule system_changeI)
    fix x
    assume "\<not> controls env signers s x"
    with create have "x \<noteq> k" "x \<noteq> k'" by auto
    with moved_simps(4) [OF create(8)] show "credited (s x) (s' x) \<or> nonce_initialized env s s' x" by simp
  qed
next
  case (advance me s v d s')
  then show ?case
    by (intro system_changeI) (metis controls_authority credited_refl ka_set_state_view(3))
next
  case (authorize me s v d auth s')
  then show ?case
    by (intro system_changeI) (metis controls_authority credited_refl ka_set_state_view(3))
next
  case (initialize me s v auth s')
  show ?case
  proof (rule system_changeI)
    fix x
    show "credited (s x) (s' x) \<or> nonce_initialized env s s' x"
      using initialize ka_set_state_view [OF initialize(4,5)]
      by (cases "x = unsigned_key me") (auto simp: nonce_initialized_def)
  qed
next
  case (withdraw k k' s v n s')
  then show ?case by (intro system_changeI) (auto simp: credited_def intro: moved_simps)
next
  case (close me k' s v d s1 s')
  show ?case
  proof (rule system_changeI)
    fix x
    assume "\<not> controls env signers s x"
    with close controls_authority have x: "x \<noteq> unsigned_key me" by metis
    then have "s1 x = s x" using ka_set_state_view(3) close by blast
    with x moved_simps(5,6) [OF close(8)] show "credited (s x) (s' x) \<or> nonce_initialized env s s' x"
      by (metis credited_def)
  qed
qed (auto intro: system_changeI)

lemma effect_lamports:
  assumes "system_effect env K signers s s'" and "bincode_ok (nonce_format env)" and "finite K"
  shows "total_lamports K s' = total_lamports K s"
  using assms
proof (induction rule: system_effect.induct)
  case (create k k' s a m n s')
  then have "total_lamports K s' = total_lamports K (s(k' := a))" by (auto intro: total_moved)
  also have "\<dots> = total_lamports K s" using create by (auto intro: total_lamports_cong)
  finally show ?case .
next
  case (close me k' s v d s1 s')
  then have "total_lamports K s' = total_lamports K s1" by (auto intro: total_moved)
  also have "\<dots> = total_lamports K s" using close ka_set_state_view(4) by (blast intro: total_lamports_cong)
  finally show ?case .
qed (auto intro: total_moved total_lamports_cong ka_set_state_view(4))

lemma effect_frame:
  assumes "system_effect env K signers s s'" and "bincode_ok (nonce_format env)" and "k \<notin> K"
  shows "s' k = s k"
  using assms
proof (induction rule: system_effect.induct)
  case (close me k' s v d s1 s')
  then have "k \<noteq> unsigned_key me" "k \<noteq> k'" by auto
  then have "s1 k = s k" "s' k = s1 k"
    using ka_set_state_view(3) [OF close(7,9)] moved_simps(4) [OF close(8)] by simp_all
  then show ?case by simp
qed (auto dest: moved_outside intro: ka_set_state_view(3))

section \<open>Durable nonces\<close>

definition accepts :: "nonce_versions bincode \<Rightarrow> account \<Rightarrow> hash_value \<Rightarrow> bool" where
  "accepts fmt a h \<longleftrightarrow> (\<exists>v d. bc_deserialize fmt (data a) = Some v \<and> nonce_versions_state v = NonceInitialized d \<and> nd_durable_nonce d = h)"

text \<open>Accepting a hash is what \<open>verify_recent_blockhash\<close> decides, whatever domains it is asked about.\<close>

lemma accepts_verify:
  "accepts (nonce_format env) (s k) h \<longleftrightarrow>
     (\<exists>v b. nonce_view env s k = Some v \<and> verify_recent_blockhash v h b \<noteq> None)"
proof -
  have "(\<exists>b. verify_recent_blockhash v h b \<noteq> None) \<longleftrightarrow> (\<exists>d. nonce_versions_state v = NonceInitialized d \<and> nd_durable_nonce d = h)" for v
    by (cases v) (auto split: nonce_state.splits)
  then show ?thesis by (auto simp: accepts_def nonce_view_def)
qed

text \<open>Zeroed data is an uninitialized nonce: bincode writes an enum as the index of its variant.\<close>

definition zeroed_uninitialized :: "nonce_versions bincode \<Rightarrow> bool" where
  "zeroed_uninitialized fmt \<longleftrightarrow>
     (\<forall>n v. bc_deserialize fmt (replicate n 0) = Some v \<longrightarrow> nonce_versions_state v = NonceUninitialized)"

lemma accepts_written:
  fixes env :: system_env
  assumes "ka_set_state (nonce_format env) s me v = Ok s'" and "bincode_ok (nonce_format env)"
  shows "accepts (nonce_format env) (s' k) h \<longleftrightarrow>
    (if k = unsigned_key me then \<exists>d. nonce_versions_state v = NonceInitialized d \<and> nd_durable_nonce d = h
     else accepts (nonce_format env) (s k) h)"
  using ka_set_state_view [OF assms] by (auto simp: accepts_def nonce_view_def)

lemma accepts_data: "data a = data b \<Longrightarrow> accepts fmt a h \<longleftrightarrow> accepts fmt b h"
  by (simp add: accepts_def)

lemma accepts_zeroed: "zeroed_uninitialized fmt \<Longrightarrow> data a = replicate m 0 \<Longrightarrow> \<not> accepts fmt a h"
  by (auto simp: accepts_def zeroed_uninitialized_def)

lemma effect_accepts:
  assumes "system_effect env K signers s s'" and "bincode_ok (nonce_format env)" and "zeroed_uninitialized (nonce_format env)"
    and "h \<noteq> nonce_now env" and "\<not> accepts (nonce_format env) (s k) h"
  shows "\<not> accepts (nonce_format env) (s' k) h"
  using assms
proof (induction rule: system_effect.induct)
  case (rewrite j s a m)
  then show ?case using accepts_data [of a "s j"] accepts_zeroed by (cases "k = j") auto
next
  case (pay j k' s n s')
  then show ?case using accepts_data [OF moved_simps(1)] by blast
next
  case (create j k' s a m n s')
  then show ?case using accepts_data [OF moved_simps(1) [OF create(8)]] accepts_zeroed by (cases "k = k'") auto
next
  case (authorize me s v d auth s')
  then have "nd_durable_nonce d \<noteq> h" if "k = unsigned_key me"
    using that by (auto simp: accepts_def nonce_view_def)
  with authorize show ?case
    by (simp add: accepts_written [OF authorize(5,6)] nonce_versions_new_def)
next
  case (withdraw j k' s v n s')
  then show ?case using accepts_data [OF moved_simps(1)] by blast
next
  case (close me k' s v d s1 s')
  then show ?case
    by (simp add: accepts_data [OF moved_simps(1) [OF close(8)]] accepts_written [OF close(7)])
qed (auto simp: accepts_written nonce_data_new_def)

section \<open>The program\<close>

lemma system_process_instruction_effect:
  assumes "system_process_instruction env s kas f input = Ok s'"
  shows "system_effect env (unsigned_key ` set (drop f kas)) (get_signers (drop f kas)) s s'"
proof -
  from assms obtain ix where
    "run_system_instruction env s (\<lambda>i. keyed_account_at_index kas (f + i)) (get_signers (drop f kas)) ix = Ok s'"
    by (auto simp: system_process_instruction_def ok_simps Let_def)
  then show ?thesis
  proof (rule run_system_instruction_effect)
    fix i ka
    assume "keyed_account_at_index kas (f + i) = Ok ka"
    then have "ka = drop f kas ! i" "i < length (drop f kas)" by (auto simp: keyed_account_at_index_def split: if_splits)
    then have "ka \<in> set (drop f kas)" by (metis nth_mem)
    then show "unsigned_key ka \<in> unsigned_key ` set (drop f kas) \<and> (is_signer ka \<longrightarrow> unsigned_key ka \<in> get_signers (drop f kas))"
      by (auto simp: get_signers_iff)
  qed
qed

text \<open>Instructions one after another, none of them run while \<open>h\<close> is the nonce of the current blockhash.\<close>

inductive system_run :: "nonce_versions bincode \<Rightarrow> hash_value \<Rightarrow> store \<Rightarrow> store \<Rightarrow> bool" for fmt h where
  start: "system_run fmt h s s"
| step: "system_run fmt h s t \<Longrightarrow> nonce_format env = fmt \<Longrightarrow> nonce_now env \<noteq> h
    \<Longrightarrow> system_process_instruction env t kas f input = Ok t' \<Longrightarrow> system_run fmt h s t'"

lemma system_run_accepts:
  assumes "system_run fmt h s s'" and "bincode_ok fmt" and "zeroed_uninitialized fmt" and "\<not> accepts fmt (s k) h"
  shows "\<not> accepts fmt (s' k) h"
  using assms
proof (induction rule: system_run.induct)
  case (step s t env kas f input t')
  then show ?case using effect_accepts [OF system_process_instruction_effect [OF step(4)]] by metis
qed

end
