(* ===== verification/System_Properties.thy ===== *)
theory System_Properties
  imports System_Effects
begin

text \<open>
  The properties of the system program: who may change an account, that lamports are conserved, that a replaced nonce
  is never accepted again, what the instructions of its client library do, the creation of a nonce account by the two
  instructions of \<open>create_nonce_account\<close>, and the errors it reports.
\<close>

section \<open>The program\<close>

text \<open>C33: A successful system instruction changes an account only if the account signed, is derived from a seed and a key that
  signed, or is a nonce account whose authority signed. Any other account is at most credited with lamports, or
  is an uninitialized nonce account that becomes initialized with the nonce of the current blockhash. Accounts that
  the instruction does not name are unchanged.\<close>

theorem system_changes_authorized:
  assumes "system_process_instruction env s kas f input = Ok s'" and "bincode_ok (nonce_format env)"
  shows "system_change env (get_signers (drop f kas)) s s'
    \<and> (\<forall>k. k \<notin> unsigned_key ` set (drop f kas) \<longrightarrow> s' k = s k)"
  using effect_change [OF system_process_instruction_effect [OF assms(1)] assms(2)]
    effect_frame [OF system_process_instruction_effect [OF assms(1)] assms(2)] by blast

text \<open>C34: No system instruction creates or destroys lamports: whatever it does, with aliased accounts too, any finite set of
  accounts that contains those of the instruction holds as many lamports after it as before.\<close>

theorem system_lamports_conserved:
  assumes "system_process_instruction env s kas f input = Ok s'" and "bincode_ok (nonce_format env)"
    and "finite K" and "unsigned_key ` set (drop f kas) \<subseteq> K"
  shows "total_lamports K s' = total_lamports K s"
proof -
  let ?A = "unsigned_key ` set (drop f kas)"
  note eff = system_process_instruction_effect [OF assms(1)]
  have split: "total_lamports K t = total_lamports (K - ?A) t + total_lamports ?A t" for t
    unfolding total_lamports_def by (rule sum.subset_diff [OF assms(4,3)])
  have "total_lamports ?A s' = total_lamports ?A s" by (rule effect_lamports [OF eff assms(2)]) simp
  moreover have "total_lamports (K - ?A) s' = total_lamports (K - ?A) s"
    using effect_frame [OF eff assms(2)] by (intro total_lamports_cong) auto
  ultimately show ?thesis by (simp add: split)
qed

text \<open>C35: A durable nonce is used once. When an instruction advances a nonce account, the authority has signed, the account
  then holds the nonce of the current blockhash, and no sequence of system instructions after it makes the account
  accept the replaced nonce again, unless one of them runs while that very hash is the nonce of its blockhash.\<close>

theorem nonce_no_replay:
  assumes "system_process_instruction env s kas f input = Ok s1"
    and "system_ix_limited_deserialize env input = Some SysAdvanceNonceAccount"
    and "nonce_view env s (unsigned_key (kas ! f)) = Some v" and "nonce_versions_state v = NonceInitialized d"
    and "system_run (nonce_format env) (nd_durable_nonce d) s1 s2"
    and "bincode_ok (nonce_format env)" and "zeroed_uninitialized (nonce_format env)"
  shows "nd_authority d \<in> get_signers (drop f kas)
    \<and> nonce_view env s1 (unsigned_key (kas ! f))
      = Some (CurrentNonce (NonceInitialized (nonce_data_new (nd_authority d) (nonce_now env) (env_lamports_per_signature env))))
    \<and> (\<forall>v' b. nonce_view env s2 (unsigned_key (kas ! f)) = Some v' \<longrightarrow> verify_recent_blockhash v' (nd_durable_nonce d) b = None)"
proof -
  from assms(1,2) have run: "advance_nonce_account env s (kas ! f) (get_signers (drop f kas)) = Ok s1"
    by (auto simp: system_process_instruction_def run_system_instruction_def ok_simps Let_def keyed_account_at_index_def
        split: if_splits)
  then obtain auth: "nd_authority d \<in> get_signers (drop f kas)" and new: "nd_durable_nonce d \<noteq> nonce_now env"
      and set: "ka_set_state (nonce_format env) s (kas ! f)
        (CurrentNonce (NonceInitialized (nonce_data_new (nd_authority d) (nonce_now env) (env_lamports_per_signature env)))) = Ok s1"
    using assms(3,4) by (auto elim: advance_nonce_account_Ok)
  have "\<not> accepts (nonce_format env) (s1 (unsigned_key (kas ! f))) (nd_durable_nonce d)"
    using new by (simp add: accepts_written [OF set assms(6)] nonce_data_new_def)
  from system_run_accepts [OF assms(5-7) this]
  show ?thesis
    using auth ka_set_state_view(1) [OF set assms(6)] by (auto simp: accepts_verify)
qed

section \<open>Running built instructions\<close>

definition run_system :: "system_env \<Rightarrow> store \<Rightarrow> instruction \<Rightarrow> store ix_result" where
  "run_system env s ix = system_process_instruction env s (map keyed_of_meta (ix_accounts ix)) 0 (ix_data ix)"

definition system_ix_decodes :: "system_env \<Rightarrow> bool" where
  "system_ix_decodes env \<longleftrightarrow>
     (\<forall>x bs. bc_serialize (system_ix_format env) x = Some bs \<longrightarrow> length bs \<le> PACKET_DATA_SIZE
        \<longrightarrow> system_ix_limited_deserialize env bs = Some x)"

abbreviation keyed :: "bool \<Rightarrow> pubkey \<Rightarrow> keyed_account" where
  "keyed b k \<equiv> \<lparr>is_signer = b, is_writable = True, unsigned_key = k\<rparr>"

lemma run_system_built:
  assumes "new_with_bincode system_program_id (system_ix_format env) x metas = Ok ix"
    and "length (ix_data ix) \<le> PACKET_DATA_SIZE" and "system_ix_decodes env" and "metas \<noteq> []"
  shows "run_system env s ix = run_system_instruction env s (keyed_account_at_index (map keyed_of_meta metas))
    (get_signers (map keyed_of_meta metas)) x"
proof -
  note n = new_with_bincode_Ok [OF assms(1)]
  have "system_ix_limited_deserialize env (ix_data ix) = Some x" using assms(2,3) n(3) by (simp add: system_ix_decodes_def)
  moreover have "\<exists>ka. keyed_account_at_index (map keyed_of_meta metas) 0 = Ok ka"
    using assms(4) by (simp add: keyed_account_at_index_def)
  ultimately show ?thesis
    by (auto simp: run_system_def system_process_instruction_def n(2))
qed

lemmas built_run_defs = run_system_instruction_def keyed_account_at_index_def get_signers_Cons address_create_def


section \<open>Creating a nonce account\<close>

text \<open>What the creation relies on of bincode: zeroed data reads as an uninitialized nonce, and every initialized nonce takes
  the space that \<open>State::size\<close> computes.\<close>

definition nonce_layout :: "system_env \<Rightarrow> nat \<Rightarrow> bool" where
  "nonce_layout env sz \<longleftrightarrow>
     nonce_state_size env = (Ok sz :: nat ix_result)
     \<and> (\<exists>v. bc_deserialize (nonce_format env) (replicate sz 0) = Some v \<and> nonce_versions_state v = NonceUninitialized)
     \<and> (\<forall>d. \<exists>bs. bc_serialize (nonce_format env) (CurrentNonce (NonceInitialized d)) = Some bs \<and> length bs = sz)
     \<and> 0 < sz \<and> sz \<le> MAX_PERMITTED_DATA_LENGTH"

definition sysvars_present :: "system_env \<Rightarrow> store \<Rightarrow> rent \<Rightarrow> bool" where
  "sysvars_present env s r \<longleftrightarrow>
     (\<exists>b bs. from_account (blockhashes_format env) (s recent_blockhashes_id) = Some (b # bs))
     \<and> from_account (rent_format env) (s rent_id) = Some r"

lemma create_account_runs:
  assumes "a \<noteq> k" and "lamports (s k) = 0" and "data (s k) = []" and "owner (s k) = system_program_id"
    and "data (s a) = []" and "n \<le> lamports (s a)" and "sz \<le> MAX_PERMITTED_DATA_LENGTH" and "k \<in> signers"
  shows "system_create_account env s (keyed True a) (keyed b k) \<lparr>addr_address = k, addr_base = None\<rparr> n (of_nat sz) system_program_id signers
    = Ok (s(k := (s k)\<lparr>data := replicate sz 0, lamports := n\<rparr>, a := (s a)\<lparr>lamports := lamports (s a) - n\<rparr>))"
proof -
  have "sz < 2 ^ 64" using assms(7) by (simp add: MAX_PERMITTED_DATA_LENGTH_def)
  then have sz: "unat (of_nat sz :: u64) = sz" by (simp add: unat_of_nat)
  have "system_allocate_and_assign env (s k) \<lparr>addr_address = k, addr_base = None\<rparr> (of_nat sz) system_program_id signers
    = Ok ((s k)\<lparr>data := replicate sz 0\<rparr>)"
    using assms(3,4,7,8) by (simp add: system_allocate_and_assign_Ok sz address_is_signer_def)
  moreover have "unat n < 2 ^ 64" using unsigned_less [of n] by simp
  ultimately show ?thesis
    using assms
    by (simp add: system_create_account_def system_transfer_def system_transfer_verified_def ka_lamports_def update_cell_def
        checked_sub_lamports_def checked_add_lamports_def checked_sub_def checked_add_def set_lamports_def not_less fun_upd_twist)
qed

lemma initialize_nonce_runs:
  assumes "nonce_layout env sz" and "data (s k) = replicate sz 0" and "minimum_balance r sz \<le> lamports (s k)"
  obtains bs where "initialize_nonce_account env s (keyed b k) auth r = Ok (s(k := (s k)\<lparr>data := bs\<rparr>))"
    and "length bs = sz"
    and "bc_serialize (nonce_format env)
      (CurrentNonce (NonceInitialized (nonce_data_new auth (nonce_now env) (env_lamports_per_signature env)))) = Some bs"
proof -
  obtain v where v: "bc_deserialize (nonce_format env) (replicate sz 0) = Some v" "nonce_versions_state v = NonceUninitialized"
    using assms(1) by (auto simp: nonce_layout_def)
  obtain bs where bs: "bc_serialize (nonce_format env)
      (CurrentNonce (NonceInitialized (nonce_data_new auth (nonce_now env) (env_lamports_per_signature env)))) = Some bs" "length bs = sz"
    using assms(1) unfolding nonce_layout_def by blast
  show thesis
    by (rule that [OF _ bs(2,1)])
      (use assms(2,3) v bs in \<open>simp add: initialize_nonce_account_def ka_state_def get_state_def ka_lamports_def ka_data_len_def
        not_less get_durable_nonce_eq nonce_versions_new_def ka_set_state_def set_state_def update_cell_def ok_or_def\<close>)
qed

text \<open>C36: The two instructions that \<open>create_nonce_account\<close> builds create a nonce account: on an unused address, funded with
  at least the rent-exempt balance, both succeed in order, and the account then holds exactly the amount paid by the
  funding account, accepts the nonce of the current blockhash for the given authority, and is recognised as a nonce
  account by \<open>get_system_account_kind\<close>.\<close>

theorem create_nonce_account_works:
  assumes "system_ix_decodes env" and "nonce_layout env sz" and "bincode_ok (nonce_format env)"
    and "create_nonce_account_ix env a k auth n = Ok [ix1, ix2]"
    and "length (ix_data ix1) \<le> PACKET_DATA_SIZE" and "length (ix_data ix2) \<le> PACKET_DATA_SIZE"
    and "a \<noteq> k" and "lamports (s k) = 0" and "data (s k) = []" and "owner (s k) = system_program_id"
    and "data (s a) = []" and "n \<le> lamports (s a)"
    and "sysvars_present env s r" and "k \<noteq> recent_blockhashes_id" and "k \<noteq> rent_id" and "minimum_balance r sz \<le> n"
  shows "\<exists>s1 s2. run_system env s ix1 = Ok s1 \<and> run_system env s1 ix2 = Ok s2
    \<and> nonce_view env s2 k
      = Some (CurrentNonce (NonceInitialized (nonce_data_new auth (nonce_now env) (env_lamports_per_signature env))))
    \<and> lamports (s2 k) = n \<and> lamports (s2 a) = lamports (s a) - n
    \<and> get_system_account_kind env (s2 k) = (Ok (Some NonceKind) :: system_account_kind option ix_result)"
proof -
  let ?s1 = "s(k := (s k)\<lparr>data := replicate sz 0, lamports := n\<rparr>, a := (s a)\<lparr>lamports := lamports (s a) - n\<rparr>)"
  have sz: "nonce_state_size env = (Ok sz :: nat ix_result)" "0 < sz" "sz \<le> MAX_PERMITTED_DATA_LENGTH"
    using assms(2) by (auto simp: nonce_layout_def)
  then have ixs: "create_account_ix env a k n (of_nat sz) system_program_id = Ok ix1" "initialize_nonce_ix env k auth = Ok ix2"
    using assms(4) by (auto simp: create_nonce_account_ix_def ok_simps)
  have "run_system env s ix1 =
      system_create_account env s (keyed True a) (keyed True k) \<lparr>addr_address = k, addr_base = None\<rparr> n (of_nat sz) system_program_id {a, k}"
    using run_system_built [OF ixs(1) [unfolded create_account_ix_def] assms(5,1)] by (simp add: built_run_defs)
  then have run1: "run_system env s ix1 = Ok ?s1"
    using create_account_runs [OF assms(7-12) sz(3)] by simp
  have sysvars: "\<exists>b bs. from_account (blockhashes_format env) (?s1 recent_blockhashes_id) = Some (b # bs)"
      "from_account (rent_format env) (?s1 rent_id) = Some r"
    using assms(13-15) by (auto simp: sysvars_present_def from_account_def)
  then have "run_system env ?s1 ix2 = initialize_nonce_account env ?s1 (keyed False k) auth r"
    using run_system_built [OF ixs(2) [unfolded initialize_nonce_ix_def] assms(6,1)]
    by (auto simp: built_run_defs from_keyed_account_def check_sysvar_keyed_account_def ok_or_def)
  moreover have k: "?s1 k = (s k)\<lparr>data := replicate sz 0, lamports := n\<rparr>" using assms(7) by simp
  obtain bs where run2: "initialize_nonce_account env ?s1 (keyed False k) auth r = Ok (?s1(k := (?s1 k)\<lparr>data := bs\<rparr>))"
      and bs: "length bs = sz" "bc_serialize (nonce_format env)
        (CurrentNonce (NonceInitialized (nonce_data_new auth (nonce_now env) (env_lamports_per_signature env)))) = Some bs"
    by (rule initialize_nonce_runs [OF assms(2), of ?s1 k r False auth]) (use k assms(16) in simp_all)
  moreover have view: "bc_deserialize (nonce_format env) bs
      = Some (CurrentNonce (NonceInitialized (nonce_data_new auth (nonce_now env) (env_lamports_per_signature env))))"
    by (rule bincode_ok_data [OF assms(3) bs(2)])
  moreover have "get_system_account_kind env ((?s1 k)\<lparr>data := bs\<rparr>) = (Ok (Some NonceKind) :: system_account_kind option ix_result)"
    using sz bs(1) assms(10) view
    by (auto simp: get_system_account_kind_def k get_state_def ok_or_def)
  ultimately show ?thesis
    using run1 assms(7) by (auto simp: nonce_view_def)
qed

section \<open>Errors\<close>



section \<open>A concrete environment\<close>

text \<open>The layout that bincode gives a nonce: 32-bit indices of the variants, then the fields.\<close>

fun nonce_state_bytes :: "nonce_state \<Rightarrow> u8 list" where
  "nonce_state_bytes NonceUninitialized = le_bytes 4 0"
| "nonce_state_bytes (NonceInitialized d) =
     le_bytes 4 1 @ to_bytes (nd_authority d) @ to_bytes (nd_durable_nonce d)
       @ to_le_bytes (fc_lamports_per_signature (nd_fee_calculator d))"

fun nonce_bytes :: "nonce_versions \<Rightarrow> u8 list" where
  "nonce_bytes (LegacyNonce st) = le_bytes 4 0 @ nonce_state_bytes st"
| "nonce_bytes (CurrentNonce st) = le_bytes 4 1 @ nonce_state_bytes st"

definition nonce_state_parse :: "u8 list \<Rightarrow> nonce_state option" where
  "nonce_state_parse bs =
     (if length bs < 4 then None
      else if le_value (take 4 bs) = 0 then Some NonceUninitialized
      else if le_value (take 4 bs) = 1 \<and> length bs \<ge> 76
      then Some (NonceInitialized (nonce_data_new (new_from_array (take 32 (drop 4 bs)))
                   (new_from_array (take 32 (drop 36 bs))) (from_le_bytes (take 8 (drop 68 bs)))))
      else None)"

definition nonce_parse :: "u8 list \<Rightarrow> nonce_versions option" where
  "nonce_parse bs =
     (if length bs < 4 then None
      else if le_value (take 4 bs) = 0 then map_option LegacyNonce (nonce_state_parse (drop 4 bs))
      else if le_value (take 4 bs) = 1 then map_option CurrentNonce (nonce_state_parse (drop 4 bs))
      else None)"

lemma nonce_state_parse_bytes: "nonce_state_parse (nonce_state_bytes st @ rest) = Some st"
proof (cases st)
  case NonceUninitialized
  then show ?thesis by (simp add: nonce_state_parse_def le_value_le_bytes)
next
  case (NonceInitialized d)
  then show ?thesis
    by (simp add: nonce_state_parse_def le_value_le_bytes nonce_data_new_def)
qed

definition nonce_bincode :: "nonce_versions bincode" where
  "nonce_bincode = \<lparr>bc_serialize = (\<lambda>v. Some (nonce_bytes v)), bc_deserialize = nonce_parse\<rparr>"

lemma nonce_bincode_ok: "bincode_ok nonce_bincode"
proof -
  have "nonce_parse (nonce_bytes v @ rest) = Some v" for v rest
    by (cases v) (simp_all add: nonce_parse_def le_value_le_bytes nonce_state_parse_bytes)
  then show ?thesis by (simp add: bincode_ok_def nonce_bincode_def)
qed

lemma le_value_zeros [simp]: "le_value (replicate n 0) = 0"
  by (induction n) simp_all

lemma nonce_bincode_zeroed: "zeroed_uninitialized nonce_bincode"
  by (auto simp: zeroed_uninitialized_def nonce_bincode_def nonce_parse_def nonce_state_parse_def split: if_splits)

definition sample_system_ixs :: "system_instruction list" where
  "sample_system_ixs =
     [SysAdvanceNonceAccount, SysTransfer 5, SysCreateAccount 50 80 0, SysInitializeNonceAccount 8,
      SysAllocateWithSeed 1 (replicate 33 65) 0 2]"

definition sample_env :: system_env where
  "sample_env =
     \<lparr>sha256 = (\<lambda>_. 99), nonce_format = nonce_bincode,
      blockhashes_format = table_format [[], [\<lparr>be_blockhash = 3, be_fee_calculator = \<lparr>fc_lamports_per_signature = 0\<rparr>\<rparr>]],
      rent_format = table_format [rent_free],
      system_ix_format = table_format sample_system_ixs,
      system_ix_limited_deserialize = bc_deserialize (table_format sample_system_ixs),
      env_blockhash = 3, env_lamports_per_signature = 0,
      feature_rent_for_sysvars = True, feature_nonce_must_be_writable = True, feature_merge_nonce_error = True\<rparr>"

definition sample_nonce :: nonce_data where
  "sample_nonce = nonce_data_new 8 5 0"

definition system_store :: "u8 \<Rightarrow> store" where
  "system_store b k =
     (let a = \<lparr>lamports = 0, data = [], owner = system_program_id, executable = False, rent_epoch = 0\<rparr> in
      if k = 1 then a\<lparr>lamports := 1000\<rparr>
      else if k = 7 then a\<lparr>lamports := 100, data := nonce_bytes (LegacyNonce (NonceInitialized sample_nonce))\<rparr>
      else if k = recent_blockhashes_id then a\<lparr>data := [b]\<rparr>
      else if k = rent_id then a\<lparr>data := [0]\<rparr>
      else a)"

lemma sample_env_simps [simp]:
  "sha256 sample_env = (\<lambda>_. 99)" "nonce_format sample_env = nonce_bincode"
  "system_ix_limited_deserialize sample_env [0] = Some SysAdvanceNonceAccount"
  "system_ix_limited_deserialize sample_env [1] = Some (SysTransfer 5)"
  "system_ix_limited_deserialize sample_env [4] = Some (SysAllocateWithSeed 1 (replicate 33 65) 0 2)"
  "env_lamports_per_signature sample_env = 0" "nonce_now sample_env = 99"
  by (simp_all add: sample_env_def table_format_def sample_system_ixs_def nonce_now_def get_durable_nonce_def
      durable_nonce_from_blockhash_def)

lemma sample_ix_format: "system_ix_format sample_env = table_format sample_system_ixs"
  by (simp add: sample_env_def)

lemma sample_ix_decodes: "system_ix_decodes sample_env"
proof -
  have "bincode_ok (table_format sample_system_ixs)" by (rule bincode_ok_table) (simp add: sample_system_ixs_def)
  then show ?thesis using bincode_ok_data by (auto simp: system_ix_decodes_def sample_env_def)
qed

lemma sample_system_transfer:
  "system_process_instruction sample_env (system_store 1) [keyed True 1, keyed False 2] 0 [1]
   = Ok ((system_store 1)(1 := (system_store 1 1)\<lparr>lamports := 995\<rparr>, 2 := (system_store 1 2)\<lparr>lamports := 5\<rparr>))"
  by (simp add: system_process_instruction_def run_system_instruction_def keyed_account_at_index_def ok_or_def
      system_transfer_def system_transfer_verified_def system_store_def recent_blockhashes_id_def rent_id_def store_simps
      checked_sub_lamports_def checked_add_lamports_def checked_sub_def checked_add_def Let_def)

theorem system_changes_authorized_witness:
  "\<exists>s'. system_process_instruction sample_env (system_store 1) [keyed True 1, keyed False 2] 0 [1] = Ok s'
     \<and> lamports (s' 1) = 995 \<and> controls sample_env {1} (system_store 1) 1
     \<and> system_change sample_env {1} (system_store 1) s' \<and> s' 7 = system_store 1 7"
proof -
  have "get_signers (drop 0 [keyed True 1, keyed False 2]) = {1}" by (simp add: get_signers_Cons)
  then show ?thesis
    using system_changes_authorized [OF sample_system_transfer] sample_system_transfer nonce_bincode_ok by (simp add: controls_def)
qed

theorem system_lamports_conserved_witness:
  "\<exists>s'. system_process_instruction sample_env (system_store 1) [keyed True 1, keyed False 2] 0 [1] = Ok s'
     \<and> total_lamports {1, 2, 7} s' = total_lamports {1, 2, 7} (system_store 1)
     \<and> total_lamports {1, 2, 7} (system_store 1) = 1100"
proof -
  have "total_lamports {1, 2, 7} (system_store 1) = 1100"
    by (simp add: total_lamports_def system_store_def Let_def recent_blockhashes_id_def rent_id_def)
  then show ?thesis
    using system_lamports_conserved [OF sample_system_transfer _, of "{1, 2, 7}"] sample_system_transfer nonce_bincode_ok by simp
qed

lemma sample_nonce_view:
  "nonce_view sample_env (system_store 1) 7 = Some (LegacyNonce (NonceInitialized sample_nonce))"
proof -
  have "data (system_store 1 7) = nonce_bytes (LegacyNonce (NonceInitialized sample_nonce))"
    by (simp add: system_store_def Let_def del: nonce_bytes.simps)
  moreover have "bc_deserialize nonce_bincode (nonce_bytes v) = Some v" for v
    by (rule bincode_ok_data [OF nonce_bincode_ok]) (simp add: nonce_bincode_def)
  ultimately show ?thesis by (simp add: nonce_view_def del: nonce_bytes.simps)
qed

abbreviation nonce_accounts :: "keyed_account list" where
  "nonce_accounts \<equiv> [keyed False 7, \<lparr>is_signer = False, is_writable = False, unsigned_key = recent_blockhashes_id\<rparr>,
     \<lparr>is_signer = True, is_writable = False, unsigned_key = 8\<rparr>]"

lemma sample_advance:
  obtains s' where "system_process_instruction sample_env (system_store 1) nonce_accounts 0 [0] = Ok s'"
proof -
  have "from_keyed_account recent_blockhashes_id (blockhashes_format sample_env) (system_store 1)
      \<lparr>is_signer = False, is_writable = False, unsigned_key = recent_blockhashes_id\<rparr>
    = Ok [\<lparr>be_blockhash = 3, be_fee_calculator = \<lparr>fc_lamports_per_signature = 0\<rparr>\<rparr>]"
    by (simp add: from_keyed_account_def check_sysvar_keyed_account_def from_account_def sample_env_def table_format_def
        system_store_def Let_def recent_blockhashes_id_def ok_or_def)
  moreover have "ka_state (nonce_format sample_env) (system_store 1) (keyed False 7) = Ok (LegacyNonce (NonceInitialized sample_nonce))"
    using sample_nonce_view by (simp add: nonce_state_view del: sample_env_simps)
  moreover have "length (data (system_store 1 7)) = 80"
    by (simp add: system_store_def Let_def)
  moreover have "get_signers nonce_accounts = {8}" by (simp add: get_signers_Cons)
  ultimately have "\<exists>s'. system_process_instruction sample_env (system_store 1) nonce_accounts 0 [0] = Ok s'"
    by (simp add: system_process_instruction_def run_system_instruction_def keyed_account_at_index_def ok_or_def
        advance_nonce_account_def get_durable_nonce_eq nonce_versions_new_def ka_set_state_def set_state_def
        sample_nonce_def nonce_data_new_def nonce_bincode_def)
  then show thesis using that by blast
qed

theorem nonce_no_replay_witness:
  "\<exists>s1 s2. system_process_instruction sample_env (system_store 1) nonce_accounts 0 [0] = Ok s1
     \<and> system_run nonce_bincode 5 s1 s2
     \<and> (\<forall>v b. nonce_view sample_env s2 7 = Some v \<longrightarrow> verify_recent_blockhash v 5 b = None)"
proof -
  obtain s1 where run: "system_process_instruction sample_env (system_store 1) nonce_accounts 0 [0] = Ok s1"
    by (rule sample_advance)
  have "nd_durable_nonce sample_nonce = 5" by (simp add: sample_nonce_def nonce_data_new_def)
  then show ?thesis
    using nonce_no_replay [OF run, of "LegacyNonce (NonceInitialized sample_nonce)" sample_nonce s1] run sample_nonce_view
      nonce_bincode_ok nonce_bincode_zeroed system_run.start [of nonce_bincode 5 s1] by auto
qed


lemma rent_free_minimum: "minimum_balance rent_free n = 0"
  by (simp add: minimum_balance_def rent_free_def Let_def f64_of_u64_def f64_mul_def f64_as_u64_def f64_round_def)

lemma sample_layout: "nonce_layout sample_env 80"
proof -
  have "nonce_state_size sample_env = (Ok 80 :: nat ix_result)"
    by (simp add: nonce_state_size_def nonce_versions_new_def nonce_bincode_def)
  moreover have "nonce_parse (replicate 80 0) = Some (LegacyNonce NonceUninitialized)"
    by (simp add: nonce_parse_def nonce_state_parse_def)
  ultimately show ?thesis
    by (auto simp: nonce_layout_def nonce_bincode_def MAX_PERMITTED_DATA_LENGTH_def)
qed

theorem create_nonce_account_works_witness:
  "\<exists>ix1 ix2 s1 s2. create_nonce_account_ix sample_env 1 9 8 50 = Ok [ix1, ix2]
     \<and> run_system sample_env (system_store 1) ix1 = Ok s1 \<and> run_system sample_env s1 ix2 = Ok s2
     \<and> lamports (s2 9) = 50
     \<and> get_system_account_kind sample_env (s2 9) = (Ok (Some NonceKind) :: system_account_kind option ix_result)"
proof -
  have "nonce_state_size sample_env = (Ok 80 :: nat ix_result)" using sample_layout by (simp add: nonce_layout_def)
  then obtain ix1 ix2 where ixs: "create_nonce_account_ix sample_env 1 9 8 50 = Ok [ix1, ix2]"
      "length (ix_data ix1) \<le> PACKET_DATA_SIZE" "length (ix_data ix2) \<le> PACKET_DATA_SIZE"
    by (simp add: create_nonce_account_ix_def create_account_ix_def initialize_nonce_ix_def new_with_bincode_def sample_ix_format
        table_format_def sample_system_ixs_def PACKET_DATA_SIZE_def system_program_id_def)
  have "sysvars_present sample_env (system_store 1) rent_free"
    by (simp add: sysvars_present_def from_account_def sample_env_def table_format_def system_store_def Let_def
        recent_blockhashes_id_def rent_id_def)
  moreover have "(9 :: pubkey) \<noteq> recent_blockhashes_id" "(9 :: pubkey) \<noteq> rent_id"
    by (simp_all add: recent_blockhashes_id_def rent_id_def)
  ultimately show ?thesis
    using create_nonce_account_works [OF sample_ix_decodes sample_layout _ ixs, of "system_store 1" rent_free] ixs(1)
      nonce_bincode_ok
    by (auto simp: rent_free_minimum system_store_def Let_def)
qed



end
