(* ===== verification/Spec2Isabelle.thy ===== *)
theory Spec2Isabelle
  imports Token_Runtime Vote_Properties Sdk_Epoch_Laws System_Properties
begin
text \<open>Verification of the Mundis node: programs and runtime.\<close>
end
